(* ===== verification/Prelude.thy ===== *)
theory Prelude
  imports Main "HOL-Library.Word" "HOL-Library.Signed_Division" "HOL-Library.Multiset"
    "HOL-Library.Monad_Syntax"
begin

text \<open>
  Shared vocabulary of the development: C memory blocks as lists with checked reads and
  writes, C counting loops with \<open>continue\<close> and \<open>break\<close>, and the lemma collections
  the component theories use.

  The value \<open>None\<close> of an \<open>option\<close> result stands for "the C program has no defined
  outcome here": an access outside a block, a conversion of a floating-point value that does
  not fit, a division by zero, or a loop that does not return.  \<open>Some\<close> is a normal
  outcome.  C \<open>int\<close> values are modelled by \<open>int\<close>; where the code relies on a width
  (unsigned counters, bytes, packed pixels) the width is kept with words.
\<close>

named_theorems mem_simps "facts about checked reads and writes"
named_theorems loop_simps "unfolding rules of the C loops on a decided guard"

type_synonym byte = "8 word"

section \<open>Memory blocks\<close>

definition rd :: "'a list \<Rightarrow> int \<Rightarrow> 'a option" where
  "rd xs i = (if 0 \<le> i \<and> i < int (length xs) then Some (xs ! nat i) else None)"

definition wr :: "'a list \<Rightarrow> int \<Rightarrow> 'a \<Rightarrow> 'a list option" where
  "wr xs i v = (if 0 \<le> i \<and> i < int (length xs) then Some (xs[nat i := v]) else None)"

lemma rd_Some [mem_simps]: "0 \<le> i \<Longrightarrow> i < int (length xs) \<Longrightarrow> rd xs i = Some (xs ! nat i)"
  by (simp add: rd_def)

lemma wr_Some [mem_simps]: "0 \<le> i \<Longrightarrow> i < int (length xs) \<Longrightarrow> wr xs i v = Some (xs[nat i := v])"
  by (simp add: wr_def)

lemma rd_eq_Some_iff: "rd xs i = Some v \<longleftrightarrow> 0 \<le> i \<and> i < int (length xs) \<and> xs ! nat i = v"
  by (auto simp: rd_def)

lemma rd_not_None_iff: "rd xs i \<noteq> None \<longleftrightarrow> 0 \<le> i \<and> i < int (length xs)"
  by (auto simp: rd_def)

lemma wr_eq_Some_iff:
  "wr xs i v = Some ys \<longleftrightarrow> 0 \<le> i \<and> i < int (length xs) \<and> ys = xs[nat i := v]"
  by (auto simp: wr_def)

lemma wr_length: "wr xs i v = Some ys \<Longrightarrow> length ys = length xs"
  by (auto simp: wr_eq_Some_iff)

lemma rd_wr: "wr xs i v = Some ys \<Longrightarrow> rd ys j = (if j = i then Some v else rd xs j)"
  by (auto simp: wr_eq_Some_iff rd_def nth_list_update)

lemma rd_in_set: "rd xs i = Some v \<Longrightarrow> v \<in> set xs"
  by (auto simp: rd_eq_Some_iff)

section \<open>Counting loops\<close>

text \<open>
  \<open>for (i = a; i < n; i++) body\<close>: the body ends an iteration normally or by
  \<open>continue\<close> (\<open>Nxt\<close>) or leaves the loop by \<open>break\<close> (\<open>Brk\<close>).
\<close>

datatype 's flow = Nxt 's | Brk 's

function for_up :: "(int \<Rightarrow> 's \<Rightarrow> 's flow option) \<Rightarrow> int \<Rightarrow> int \<Rightarrow> 's \<Rightarrow> 's option" where
  "for_up body i n s =
     (if i < n then
        (case body i s of
           None \<Rightarrow> None
         | Some (Brk s') \<Rightarrow> Some s'
         | Some (Nxt s') \<Rightarrow> for_up body (i + 1) n s')
      else Some s)"
  by pat_completeness auto
termination
  by (relation "measure (\<lambda>(body, i, n, s). nat (n - i))") auto

declare for_up.simps [simp del]

lemma for_up_done [loop_simps]: "n \<le> i \<Longrightarrow> for_up body i n s = Some s"
  by (simp add: for_up.simps [of body i n s])

lemma for_up_step [loop_simps]:
  "i < n \<Longrightarrow> for_up body i n s =
     (case body i s of
        None \<Rightarrow> None
      | Some (Brk s') \<Rightarrow> Some s'
      | Some (Nxt s') \<Rightarrow> for_up body (i + 1) n s')"
  by (simp add: for_up.simps [of body i n s])

text \<open>
  The loop rule, for total correctness: every iteration is defined and keeps the invariant;
  a \<open>break\<close> must establish the invariant of the loop's end.
\<close>

lemma for_up_rule:
  assumes init: "P i s"
    and step: "\<And>j t. i \<le> j \<Longrightarrow> j < n \<Longrightarrow> P j t \<Longrightarrow>
       (\<exists>t'. body j t = Some (Nxt t') \<and> P (j + 1) t') \<or> (\<exists>t'. body j t = Some (Brk t') \<and> P n t')"
  shows "\<exists>s'. for_up body i n s = Some s' \<and> P (max i n) s'"
  using assms
proof (induction body i n s rule: for_up.induct)
  case (1 body i n s)
  show ?case
  proof (cases "i < n")
    case False
    then show ?thesis using "1.prems"(1) by (simp add: for_up_done)
  next
    case True
    consider (nxt) t' where "body i s = Some (Nxt t')" "P (i + 1) t'"
      | (brk) t' where "body i s = Some (Brk t')" "P n t'"
      using "1.prems"(2)[of i s] "1.prems"(1) True by auto
    then show ?thesis
    proof cases
      case nxt
      have "\<exists>s'. for_up body (i + 1) n t' = Some s' \<and> P (max (i + 1) n) s'"
        by (rule "1.IH"[OF True nxt(1) refl nxt(2)]) (use "1.prems"(2) in auto)
      then show ?thesis using True nxt(1) by (simp add: for_up_step)
    next
      case brk
      then show ?thesis using True by (simp add: for_up_step)
    qed
  qed
qed

text \<open>A loop without \<open>break\<close>: the body is lifted with \<open>map_option Nxt\<close>.\<close>

lemma for_each_rule:
  assumes "P i s"
    and "\<And>j t. i \<le> j \<Longrightarrow> j < n \<Longrightarrow> P j t \<Longrightarrow> \<exists>t'. body j t = Some t' \<and> P (j + 1) t'"
  shows "\<exists>s'. for_up (\<lambda>j t. map_option Nxt (body j t)) i n s = Some s' \<and> P (max i n) s'"
  by (rule for_up_rule, rule assms(1)) (use assms(2) in fastforce)

lemma for_each_inv:
  assumes "P s"
    and "\<And>j t. i \<le> j \<Longrightarrow> j < n \<Longrightarrow> P t \<Longrightarrow> \<exists>t'. body j t = Some t' \<and> P t'"
  shows "\<exists>s'. for_up (\<lambda>j t. map_option Nxt (body j t)) i n s = Some s' \<and> P s'"
  using for_each_rule[of "\<lambda>_. P" i s n body] assms by blast

text \<open>An invariant carried to the result of a loop that is known to return.\<close>

lemma for_up_inv:
  assumes "for_up body i n s = Some s'"
    and "P s"
    and "\<And>j t t'. P t \<Longrightarrow> i \<le> j \<Longrightarrow> j < n \<Longrightarrow>
      body j t = Some (Nxt t') \<or> body j t = Some (Brk t') \<Longrightarrow> P t'"
  shows "P s'"
  using assms
proof (induction body i n s rule: for_up.induct)
  case (1 body i n s)
  show ?case
  proof (cases "i < n")
    case False
    then show ?thesis using "1.prems"(1,2) by (simp add: for_up_done)
  next
    case True
    from True "1.prems"(1) obtain r where r: "body i s = Some r"
      by (auto simp: for_up_step split: option.splits)
    show ?thesis
    proof (cases r)
      case (Nxt t')
      have "for_up body (i + 1) n t' = Some s'"
        using "1.prems"(1) True r Nxt by (simp add: for_up_step)
      moreover have "P t'" using "1.prems"(3)[of s i t'] "1.prems"(2) True r Nxt by simp
      moreover have "P v'" if "P v" "i + 1 \<le> j" "j < n"
        "body j v = Some (Nxt v') \<or> body j v = Some (Brk v')" for v j v'
        using "1.prems"(3)[of v j v'] that by simp
      ultimately show ?thesis
        using "1.IH"[OF True r[unfolded Nxt] refl] by blast
    next
      case (Brk t')
      then have "s' = t'" using "1.prems"(1) True r by (simp add: for_up_step)
      then show ?thesis using "1.prems"(3)[of s i t'] "1.prems"(2) True r Brk by simp
    qed
  qed
qed

text \<open>An iteration that fails from every state the loop can be in makes the loop fail.\<close>

lemma for_each_fails_inv:
  assumes "P s" and "\<And>j t t'. P t \<Longrightarrow> body j t = Some t' \<Longrightarrow> P t'"
    and "\<And>t. P t \<Longrightarrow> body j t = None" and "i \<le> j" and "j < n"
  shows "for_up (\<lambda>j t. map_option Nxt (body j t)) i n s = None"
  using assms(1,4,5)
proof (induction "nat (j - i)" arbitrary: i s)
  case 0
  then show ?case using assms(3) by (simp add: for_up_step)
next
  case (Suc k)
  show ?case
  proof (cases "body i s")
    case None
    then show ?thesis using Suc.prems by (simp add: for_up_step)
  next
    case (Some t)
    have "for_up (\<lambda>j t. map_option Nxt (body j t)) (i + 1) n t = None"
      by (rule Suc.hyps(1)) (use Suc assms(2)[OF Suc.prems(1) Some] in auto)
    then show ?thesis using Some Suc.prems by (simp add: for_up_step)
  qed
qed

lemma for_each_fails:
  assumes "\<And>t. body j t = None" and "i \<le> j" and "j < n"
  shows "for_up (\<lambda>j t. map_option Nxt (body j t)) i n s = None"
  using for_each_fails_inv[of "\<lambda>_. True" s body j i n] assms by simp

lemma for_each_keeps:
  assumes "for_up (\<lambda>j t. map_option Nxt (body j t)) i n s = Some s'" and "P s"
    and "\<And>j t t'. P t \<Longrightarrow> body j t = Some t' \<Longrightarrow> P t'"
  shows "P s'"
  by (rule for_up_inv[where P = P, OF assms(1,2)]) (use assms(3) in auto)

section \<open>Copying bytes\<close>

text \<open>
  \<open>memcpy\<close> of \<open>len\<close> bytes from offset \<open>soff\<close> of one buffer to \<open>doff\<close> of another; a
  negative length is a huge \<open>size_t\<close>, and bytes outside a buffer are an error.
\<close>

definition memcpy_at :: "'a list \<Rightarrow> int \<Rightarrow> int \<Rightarrow> 'a list \<Rightarrow> int \<Rightarrow> 'a list option" where
  "memcpy_at dst doff len src soff =
     (if len = 0 then Some dst
      else if 0 < len \<and> 0 \<le> soff \<and> soff + len \<le> int (length src) \<and> 0 \<le> doff \<and> doff + len \<le> int (length dst)
      then Some (take (nat doff) dst @ take (nat len) (drop (nat soff) src) @ drop (nat (doff + len)) dst)
      else None)"

lemma memcpy_at_spec:
  assumes "0 \<le> len" "0 \<le> soff" "soff + len \<le> int (length src)" "0 \<le> doff" "doff + len \<le> int (length dst)"
  shows "\<exists>d. memcpy_at dst doff len src soff = Some d \<and> length d = length dst \<and>
    (\<forall>i < length dst. d ! i =
       (if doff \<le> int i \<and> int i < doff + len then src ! (i - nat doff + nat soff) else dst ! i))"
proof (cases "len = 0")
  case True
  then show ?thesis by (auto simp: memcpy_at_def)
next
  case False
  let ?d = "take (nat doff) dst @ take (nat len) (drop (nat soff) src) @ drop (nat (doff + len)) dst"
  have l: "length (take (nat doff) dst) = nat doff" "length (take (nat len) (drop (nat soff) src)) = nat len"
    using assms by auto
  have "?d ! i = (if doff \<le> int i \<and> int i < doff + len then src ! (i - nat doff + nat soff) else dst ! i)"
    if i: "i < length dst" for i
  proof -
    consider "i < nat doff" | "nat doff \<le> i" "i < nat doff + nat len" | "nat doff + nat len \<le> i" by linarith
    then show ?thesis
    proof cases
      case 1
      then show ?thesis using l(1) by (auto simp: nth_append)
    next
      case 2
      then have "i - nat doff < nat len" by linarith
      then have "?d ! i = take (nat len) (drop (nat soff) src) ! (i - nat doff)"
        using l 2(1) by (simp add: nth_append)
      also have "\<dots> = src ! (i - nat doff + nat soff)" using 2 assms by (simp add: add.commute)
      finally show ?thesis using 2 assms by auto
    next
      case 3
      then have "\<not> i - nat doff < nat len" "\<not> i < nat doff" by linarith+
      then have "?d ! i = drop (nat (doff + len)) dst ! (i - nat doff - nat len)"
        using l by (simp add: nth_append)
      also have "\<dots> = dst ! i" using 3 assms i by (simp add: nat_add_distrib)
      finally show ?thesis using 3 assms by auto
    qed
  qed
  moreover have "length ?d = length dst" using l assms by (simp add: nat_add_distrib)
  ultimately show ?thesis using False assms by (auto simp: memcpy_at_def)
qed

lemma memcpy_at_fails:
  "len \<noteq> 0 \<Longrightarrow> int (length src) < soff + len \<Longrightarrow> memcpy_at dst doff len src soff = None"
  by (simp add: memcpy_at_def)

section \<open>The heap\<close>

text \<open>
  \<open>free\<close> over the addresses of the live blocks: null is ignored, and an address that \<open>malloc\<close> did
  not give, or that was freed before, is an error.
\<close>

definition c_free :: "int \<Rightarrow> int list \<Rightarrow> int list option" where
  "c_free p heap = (if p = 0 then Some heap else if p \<in> set heap then Some (remove1 p heap) else None)"

lemma c_free_dead: "p \<noteq> 0 \<Longrightarrow> p \<notin> set heap \<Longrightarrow> c_free p heap = None"
  by (simp add: c_free_def)

lemma c_free_live: "p \<noteq> 0 \<Longrightarrow> p \<in> set heap \<Longrightarrow> c_free p heap = Some (remove1 p heap)"
  by (simp add: c_free_def)

section \<open>Row-major grids\<close>

lemma grid_index:
  assumes "0 \<le> (row :: int)" "row < rows" "0 \<le> col" "col < cols"
  shows "0 \<le> row * cols + col" and "row * cols + col < rows * cols"
proof -
  have "row * cols \<le> (rows - 1) * cols" using assms by (intro mult_right_mono) auto
  then show "row * cols + col < rows * cols" using assms by (simp add: algebra_simps)
  show "0 \<le> row * cols + col" using assms by simp
qed

lemma grid_index_inj:
  assumes "0 \<le> (c :: int)" "c < cols" "0 \<le> c'" "c' < cols" and "r * cols + c = r' * cols + c'"
  shows "r = r'" and "c = c'"
proof -
  have "(r * cols + c) div cols = r" "(r' * cols + c') div cols = r'" using assms(1-4) by simp_all
  then show "r = r'" using assms(5) by metis
  then show "c = c'" using assms(5) by simp
qed

section \<open>Truncating division\<close>

text \<open>
  C's \<open>/\<close> and \<open>%\<close> on \<open>int\<close> truncate towards zero: \<open>sdiv\<close> and
  \<open>smod\<close> of the library.  The two facts below are the ones the proofs need.
\<close>

lemma sdiv_pos [simp]: "0 \<le> (a::int) \<Longrightarrow> 0 \<le> b \<Longrightarrow> a sdiv b = a div b"
  by (auto simp: signed_divide_int_def sgn_if)

lemma smod_pos [simp]: "0 \<le> (a::int) \<Longrightarrow> 0 \<le> b \<Longrightarrow> a smod b = a mod b"
  by (auto simp: signed_modulo_int_def sgn_if)

section \<open>Integer ranges\<close>

definition int32 :: "int \<Rightarrow> bool" where
  "int32 x \<longleftrightarrow> - 2147483648 \<le> x \<and> x \<le> 2147483647"

end
