(* ===== verification/Rknn_Queue.thy ===== *)
theory Rknn_Queue
  imports Prelude
begin

text \<open>
  The two-slot mailbox of \<^verbatim>\<open>src/image_handle.cc\<close> between the camera loop and the
  inference thread: \<open>rkn_queue_add\<close>, \<open>rkn_result_get\<close> and \<open>rknn_thread\<close> with the flags
  \<open>resize_ok\<close> and \<open>rkndo_ok\<close>.  The thread is a small program whose accesses to shared data
  are separate steps, interleaved arbitrarily with the camera loop, which adds a frame and then
  polls for a result.  Frames are values of a type \<open>'f\<close>, an empty matrix is \<open>None\<close>, and the
  model's answer for a frame is a parameter \<open>infer\<close>, \<open>None\<close> for a run that fails and leaves the
  result slot as it was.
\<close>

section \<open>State\<close>

text \<open>A result slot: zeroed by the start of \<open>post_process\<close>, or holding a finished result.\<close>

datatype 'r slot = Zeroed | Done 'r

text \<open>Where the thread is: scanning the flags, copying the image in, running the model and clearing
  the result slot, storing the result, clearing \<open>resize_ok\<close>, setting \<open>rkndo_ok\<close>.\<close>

datatype ('f, 'r) pc = Scan | Load | Reset 'f | Store 'r | Clear | Mark

record ('f, 'r) mailbox =
  resize_ok :: "int list"
  rkndo_ok :: "int list"
  resizeImages :: "'f option list"
  od_results :: "'r slot list"
  w_idx :: int
  w_pc :: "('f, 'r) pc"

definition mailbox0 :: "('f, 'r) mailbox" where
  "mailbox0 = \<lparr>resize_ok = [0, 0], rkndo_ok = [0, 0], resizeImages = [None, None],
     od_results = [Zeroed, Zeroed], w_idx = 255, w_pc = Scan\<rparr>"

section \<open>The camera side\<close>

definition rkn_queue_add :: "'f option \<Rightarrow> ('f, 'r) mailbox \<Rightarrow> (int \<times> ('f, 'r) mailbox) option" where
  "rkn_queue_add frame q =
     for_up (\<lambda>i (ret, q). do {
       r \<leftarrow> rd (resize_ok q) i;
       if r = 0 then do {
         images \<leftarrow> wr (resizeImages q) i frame;
         flags \<leftarrow> wr (resize_ok q) i 1;
         Some (Brk (0, q\<lparr>resizeImages := images, resize_ok := flags\<rparr>))
       }
       else Some (Nxt (ret, q))
     }) 0 2 (-1, q)"

definition rkn_result_get ::
    "('f, 'r) mailbox \<Rightarrow> (int \<times> 'r slot option \<times> ('f, 'r) mailbox) option" where
  "rkn_result_get q =
     for_up (\<lambda>i (ret, res, q). do {
       r \<leftarrow> rd (rkndo_ok q) i;
       if r = 1 then do {
         od \<leftarrow> rd (od_results q) i;
         flags \<leftarrow> wr (resize_ok q) i 0;
         Some (Brk (0, Some od, q\<lparr>resize_ok := flags\<rparr>))
       }
       else Some (Nxt (ret, res, q))
     }) 0 2 (-1, None, q)"

section \<open>The inference thread\<close>

text \<open>
  The scan keeps the old \<open>idx\<close> when no flag is set, as the code does: \<open>idx\<close> is set to 0xff
  once, before the loop.
\<close>

definition scan_flags :: "int list \<Rightarrow> int \<Rightarrow> int option" where
  "scan_flags flags idx =
     for_up (\<lambda>i idx. do {
       r \<leftarrow> rd flags i;
       Some (if r \<noteq> 0 then Brk i else Nxt idx)
     }) 0 2 idx"

definition rknn_thread_step :: "('f \<Rightarrow> 'r option) \<Rightarrow> ('f, 'r) mailbox \<Rightarrow> ('f, 'r) mailbox option" where
  "rknn_thread_step infer q =
     (case w_pc q of
        Scan \<Rightarrow> do {
          idx \<leftarrow> scan_flags (resize_ok q) (w_idx q);
          Some (q\<lparr>w_idx := idx, w_pc := (if idx \<noteq> 255 then Load else Scan)\<rparr>)
        }
      | Load \<Rightarrow> do {
          temp_image \<leftarrow> rd (resizeImages q) (w_idx q);
          (case temp_image of None \<Rightarrow> None | Some f \<Rightarrow> Some (q\<lparr>w_pc := Reset f\<rparr>))
        }
      | Reset f \<Rightarrow>
          (case infer f of
             None \<Rightarrow> Some (q\<lparr>w_pc := Clear\<rparr>)
           | Some r \<Rightarrow> do {
               od \<leftarrow> wr (od_results q) (w_idx q) Zeroed;
               Some (q\<lparr>od_results := od, w_pc := Store r\<rparr>)
             })
      | Store r \<Rightarrow> do {
          od \<leftarrow> wr (od_results q) (w_idx q) (Done r);
          Some (q\<lparr>od_results := od, w_pc := Clear\<rparr>)
        }
      | Clear \<Rightarrow> do {
          flags \<leftarrow> wr (resize_ok q) (w_idx q) 0;
          Some (q\<lparr>resize_ok := flags, w_pc := Mark\<rparr>)
        }
      | Mark \<Rightarrow> do {
          flags \<leftarrow> wr (rkndo_ok q) (w_idx q) 1;
          Some (q\<lparr>rkndo_ok := flags, w_pc := Scan\<rparr>)
        })"

fun thread_steps :: "('f \<Rightarrow> 'r option) \<Rightarrow> nat \<Rightarrow> ('f, 'r) mailbox \<Rightarrow> ('f, 'r) mailbox option" where
  "thread_steps infer 0 q = Some q"
| "thread_steps infer (Suc n) q = do { q' \<leftarrow> rknn_thread_step infer q; thread_steps infer n q' }"

section \<open>The two threads together\<close>

text \<open>
  The camera loop of \<open>main\<close>: add the frame, retrying while the call fails, then poll for a
  result.  \<open>drawn\<close> logs every frame with the result it was drawn with, newest first.
\<close>

datatype 'f main_pc = Adding | Getting 'f

record ('f, 'r) system =
  box :: "('f, 'r) mailbox"
  main_at :: "'f main_pc"
  added :: "'f list"
  drawn :: "('f \<times> 'r slot) list"

definition system0 :: "('f, 'r) system" where
  "system0 = \<lparr>box = mailbox0, main_at = Adding, added = [], drawn = []\<rparr>"

inductive sys_step :: "('f \<Rightarrow> 'r option) \<Rightarrow> ('f, 'r) system \<Rightarrow> ('f, 'r) system \<Rightarrow> bool" for infer where
  worker: "rknn_thread_step infer (box s) = Some q \<Longrightarrow> sys_step infer s (s\<lparr>box := q\<rparr>)"
| add: "main_at s = Adding \<Longrightarrow> rkn_queue_add (Some f) (box s) = Some (ret, q) \<Longrightarrow>
    sys_step infer s (if ret < 0 then s\<lparr>box := q\<rparr>
      else s\<lparr>box := q, main_at := Getting f, added := f # added s\<rparr>)"
| get: "main_at s = Getting f \<Longrightarrow> rkn_result_get (box s) = Some (ret, res, q) \<Longrightarrow>
    sys_step infer s (if ret < 0 then s\<lparr>box := q\<rparr>
      else s\<lparr>box := q, main_at := Adding, drawn := (f, the res) # drawn s\<rparr>)"

inductive sys_reachable :: "('f \<Rightarrow> 'r option) \<Rightarrow> ('f, 'r) system \<Rightarrow> bool" for infer where
  start: "sys_reachable infer system0"
| step: "sys_reachable infer s \<Longrightarrow> sys_step infer s s' \<Longrightarrow> sys_reachable infer s'"

inductive_cases sys_stepE: "sys_step infer s s'"

section \<open>The invariant\<close>

text \<open>
  Only slot 0 is ever used; a marked slot holds a result, except while the thread rewrites it; and
  when the camera loop is about to add a frame, the slot is free.
\<close>

definition slot_ok :: "('f \<Rightarrow> 'r option) \<Rightarrow> 'f list \<Rightarrow> 'r slot \<Rightarrow> bool" where
  "slot_ok infer fs r \<longleftrightarrow> r = Zeroed \<or> (\<exists>f \<in> set fs. \<exists>v. infer f = Some v \<and> r = Done v)"

fun pc_ok :: "('f \<Rightarrow> 'r option) \<Rightarrow> 'f list \<Rightarrow> ('f, 'r) pc \<Rightarrow> bool" where
  "pc_ok infer fs (Reset f) \<longleftrightarrow> f \<in> set fs"
| "pc_ok infer fs (Store v) \<longleftrightarrow> slot_ok infer fs (Done v)"
| "pc_ok infer fs _ \<longleftrightarrow> True"

definition sys_inv :: "('f \<Rightarrow> 'r option) \<Rightarrow> ('f, 'r) system \<Rightarrow> bool" where
  "sys_inv infer s \<longleftrightarrow>
     (\<exists>a d img r. resize_ok (box s) = [a, 0] \<and> rkndo_ok (box s) = [d, 0] \<and>
        resizeImages (box s) = [img, None] \<and> od_results (box s) = [r, Zeroed] \<and>
        (a = 0 \<or> a = 1) \<and> (d = 0 \<or> d = 1) \<and>
        (w_idx (box s) = 255 \<or> w_idx (box s) = 0) \<and>
        (w_idx (box s) = 255 \<longrightarrow> w_pc (box s) = Scan \<and> d = 0) \<and>
        (w_idx (box s) = 0 \<or> a = 1 \<longrightarrow> img \<noteq> None) \<and>
        (main_at s = Adding \<longrightarrow> a = 0) \<and>
        (\<forall>f. main_at s = Getting f \<longrightarrow> w_idx (box s) = 0 \<or> a = 1) \<and>
        set_option img \<subseteq> set (added s) \<and> pc_ok infer (added s) (w_pc (box s)) \<and>
        slot_ok infer (added s) r \<and>
        (\<forall>(f, r) \<in> set (drawn s). f \<in> set (added s) \<and> slot_ok infer (added s) r) \<and>
        (\<forall>f. main_at s = Getting f \<longrightarrow> f \<in> set (added s)))"

lemma for_up_two:
  "for_up body 0 2 s =
    (case body 0 s of
       None \<Rightarrow> None
     | Some (Brk s') \<Rightarrow> Some s'
     | Some (Nxt s') \<Rightarrow>
         (case body 1 s' of None \<Rightarrow> None | Some (Brk t) \<Rightarrow> Some t | Some (Nxt t) \<Rightarrow> Some t))"
  by (simp add: for_up_step for_up_done split: option.splits flow.splits)

lemma add_eq:
  "resize_ok q = [a, b] \<Longrightarrow> resizeImages q = [x, y] \<Longrightarrow>
   rkn_queue_add frame q =
     Some (if a = 0 then (0, q\<lparr>resizeImages := [frame, y], resize_ok := [1, b]\<rparr>)
           else if b = 0 then (0, q\<lparr>resizeImages := [x, frame], resize_ok := [a, 1]\<rparr>)
           else (-1, q))"
  by (simp add: rkn_queue_add_def for_up_two rd_def wr_def)

lemma get_eq:
  "resize_ok q = [a, b] \<Longrightarrow> rkndo_ok q = [c, d] \<Longrightarrow> od_results q = [x, y] \<Longrightarrow>
   rkn_result_get q =
     Some (if c = 1 then (0, Some x, q\<lparr>resize_ok := [0, b]\<rparr>)
           else if d = 1 then (0, Some y, q\<lparr>resize_ok := [a, 0]\<rparr>)
           else (-1, None, q))"
  by (simp add: rkn_result_get_def for_up_two rd_def wr_def)

lemma scan_eq: "scan_flags [a, b] idx = Some (if a \<noteq> 0 then 0 else if b \<noteq> 0 then 1 else idx)"
  by (simp add: scan_flags_def for_up_two rd_def)

lemma slot_ok_mono: "slot_ok infer fs r \<Longrightarrow> set fs \<subseteq> set gs \<Longrightarrow> slot_ok infer gs r"
  by (auto simp: slot_ok_def)

lemma pc_ok_mono: "pc_ok infer fs w \<Longrightarrow> set fs \<subseteq> set gs \<Longrightarrow> pc_ok infer gs w"
  by (cases w) (auto intro: slot_ok_mono)

lemma worker_step_inv:
  assumes "sys_inv infer s"
  shows "\<exists>q. rknn_thread_step infer (box s) = Some q \<and> sys_inv infer (s\<lparr>box := q\<rparr>)"
proof -
  obtain a d img r where e: "resize_ok (box s) = [a, 0]" "rkndo_ok (box s) = [d, 0]"
    "resizeImages (box s) = [img, None]" "od_results (box s) = [r, Zeroed]"
    and i: "a = 0 \<or> a = 1" "d = 0 \<or> d = 1"
    "w_idx (box s) = 255 \<or> w_idx (box s) = 0" "w_idx (box s) = 255 \<longrightarrow> w_pc (box s) = Scan \<and> d = 0"
    "w_idx (box s) = 0 \<or> a = 1 \<longrightarrow> img \<noteq> None" "main_at s = Adding \<longrightarrow> a = 0"
    "\<forall>f. main_at s = Getting f \<longrightarrow> w_idx (box s) = 0 \<or> a = 1"
    "set_option img \<subseteq> set (added s)" "pc_ok infer (added s) (w_pc (box s))"
    "slot_ok infer (added s) r"
    "\<forall>(f, r) \<in> set (drawn s). f \<in> set (added s) \<and> slot_ok infer (added s) r"
    "\<forall>f. main_at s = Getting f \<longrightarrow> f \<in> set (added s)"
    using assms unfolding sys_inv_def by blast
  show ?thesis
  proof (cases "w_pc (box s)")
    case Scan
    consider "a = 0" "w_idx (box s) = 255" | "a = 0" "w_idx (box s) = 0" | "a = 1" using i(1,3) by blast
    then show ?thesis
      by cases (use Scan e i in \<open>simp_all add: rknn_thread_step_def scan_eq sys_inv_def\<close>)
  next
    case Load
    then obtain f where "w_idx (box s) = 0" "img = Some f" using i(3-5) by auto
    then show ?thesis using Load e i by (simp add: rknn_thread_step_def rd_def sys_inv_def)
  next
    case (Reset f)
    then have "w_idx (box s) = 0" using i(3,4) by auto
    then show ?thesis using Reset e i
      by (cases "infer f") (auto simp: rknn_thread_step_def wr_def sys_inv_def slot_ok_def)
  next
    case (Store v)
    then have "w_idx (box s) = 0" using i(3,4) by auto
    then show ?thesis using Store e i by (simp add: rknn_thread_step_def wr_def sys_inv_def)
  next
    case Clear
    then have "w_idx (box s) = 0" using i(3,4) by auto
    then show ?thesis using Clear e i by (simp add: rknn_thread_step_def wr_def sys_inv_def)
  next
    case Mark
    then have "w_idx (box s) = 0" using i(3,4) by auto
    then show ?thesis using Mark e i by (simp add: rknn_thread_step_def wr_def sys_inv_def)
  qed
qed

lemma sys_step_inv: "sys_step infer s s' \<Longrightarrow> sys_inv infer s \<Longrightarrow> sys_inv infer s'"
proof (induction rule: sys_step.induct)
  case (worker s q)
  then show ?case using worker_step_inv[OF worker(2)] by auto
next
  case (add s f ret q)
  from add(3) obtain d img r where e: "resize_ok (box s) = [0, 0]" "rkndo_ok (box s) = [d, 0]"
    "resizeImages (box s) = [img, None]" "od_results (box s) = [r, Zeroed]"
    using add(1) unfolding sys_inv_def by auto
  have "ret = 0" "q = (box s)\<lparr>resizeImages := [Some f, None], resize_ok := [1, 0]\<rparr>"
    using add(2) add_eq[OF e(1,3), of "Some f"] by auto
  then show ?case using add(1,3) e
    unfolding sys_inv_def by (auto intro: slot_ok_mono pc_ok_mono)
next
  case (get s f ret res q)
  from get(3) obtain a d img r where e: "resize_ok (box s) = [a, 0]" "rkndo_ok (box s) = [d, 0]"
    "resizeImages (box s) = [img, None]" "od_results (box s) = [r, Zeroed]" "d = 0 \<or> d = 1"
    unfolding sys_inv_def by auto
  have "(ret, res, q) = (if d = 1 then (0, Some r, (box s)\<lparr>resize_ok := [0, 0]\<rparr>) else (-1, None, box s))"
    using get(2) get_eq[OF e(1,2,4)] by auto
  then show ?case using get(1,3) e
    unfolding sys_inv_def by (auto split: if_splits)
qed

lemma sys_reachable_inv: "sys_reachable infer s \<Longrightarrow> sys_inv infer s"
proof (induction rule: sys_reachable.induct)
  case start
  then show ?case by (simp add: sys_inv_def system0_def mailbox0_def slot_ok_def)
next
  case (step s s')
  then show ?case using sys_step_inv by blast
qed

section \<open>Schedules\<close>

text \<open>A schedule names who moves next; running one yields a reachable state.\<close>

datatype 'f act = W | A 'f | G

definition act_step :: "('f \<Rightarrow> 'r option) \<Rightarrow> 'f act \<Rightarrow> ('f, 'r) system \<Rightarrow> ('f, 'r) system option" where
  "act_step infer act s =
     (case act of
        W \<Rightarrow> do { q \<leftarrow> rknn_thread_step infer (box s); Some (s\<lparr>box := q\<rparr>) }
      | A f \<Rightarrow> (case main_at s of
            Adding \<Rightarrow> do {
              (ret, q) \<leftarrow> rkn_queue_add (Some f) (box s);
              Some (if ret < 0 then s\<lparr>box := q\<rparr>
                    else s\<lparr>box := q, main_at := Getting f, added := f # added s\<rparr>)
            }
          | Getting _ \<Rightarrow> None)
      | G \<Rightarrow> (case main_at s of
            Adding \<Rightarrow> None
          | Getting f \<Rightarrow> do {
              (ret, res, q) \<leftarrow> rkn_result_get (box s);
              Some (if ret < 0 then s\<lparr>box := q\<rparr>
                    else s\<lparr>box := q, main_at := Adding, drawn := (f, the res) # drawn s\<rparr>)
            }))"

fun run :: "('f \<Rightarrow> 'r option) \<Rightarrow> 'f act list \<Rightarrow> ('f, 'r) system \<Rightarrow> ('f, 'r) system option" where
  "run infer [] s = Some s"
| "run infer (x # xs) s = do { s' \<leftarrow> act_step infer x s; run infer xs s' }"

lemma act_step_sound: "act_step infer x s = Some s' \<Longrightarrow> sys_step infer s s'"
  by (cases x; cases "main_at s")
     (auto simp: act_step_def split: Option.bind_splits intro: sys_step.intros)

lemma run_reachable: "run infer xs s = Some s' \<Longrightarrow> sys_reachable infer s \<Longrightarrow> sys_reachable infer s'"
  by (induction xs arbitrary: s)
     (auto split: Option.bind_splits dest: act_step_sound intro: sys_reachable.step)

lemmas schedule_simps = act_step_def system0_def mailbox0_def rknn_thread_step_def add_eq get_eq scan_eq rd_def wr_def

section \<open>Properties\<close>

text \<open>
  C10. The queue is no queue: in every interleaving of the camera loop and the inference thread the
  second slot stays empty and its flags clear, and the camera loop finds slot 0 free whenever it
  adds a frame, so \<open>rkn_queue_add\<close> succeeds at the first call.
\<close>

theorem second_slot_unused:
  assumes "sys_reachable infer s"
  shows "resizeImages (box s) ! 1 = None \<and> resize_ok (box s) ! 1 = 0 \<and> rkndo_ok (box s) ! 1 = 0 \<and>
    (main_at s = Adding \<longrightarrow> (\<exists>q. rkn_queue_add (Some f) (box s) = Some (0, q)))"
proof -
  obtain a d img r where "resize_ok (box s) = [a, 0]" "rkndo_ok (box s) = [d, 0]"
    "resizeImages (box s) = [img, None]" "od_results (box s) = [r, Zeroed]" "main_at s = Adding \<longrightarrow> a = 0"
    using sys_reachable_inv[OF assms] unfolding sys_inv_def by blast
  then show ?thesis by (simp add: add_eq)
qed

theorem second_slot_unused_witness:
  "resizeImages (box (system0 :: (nat, nat) system)) ! 1 = None \<and> resize_ok (box (system0 :: (nat, nat) system)) ! 1 = 0 \<and>
   rkndo_ok (box (system0 :: (nat, nat) system)) ! 1 = 0 \<and>
   (\<exists>q. rkn_queue_add (Some (7::nat)) (box (system0 :: (nat, nat) system)) = Some (0, q))"
  using second_slot_unused[OF sys_reachable.start[of "Some"], of 7] by (simp add: system0_def)





text \<open>
  Results lag behind: \<open>rkndo_ok\<close> is never cleared, so from the second frame on a frame can be
  drawn with the result of an older one, here frame 2 with the detections of frame 1.
\<close>

theorem stale_result:
  "\<exists>s. sys_reachable (Some :: nat \<Rightarrow> nat option) s \<and> drawn s = [(2, Done 1), (1, Done 1)]"
proof -
  have "\<exists>s. run (Some :: nat \<Rightarrow> nat option) [A 1, W, W, W, W, W, W, G, A 2, G] system0 = Some s \<and> drawn s = [(2, Done 1), (1, Done 1)]"
    by (simp add: schedule_simps)
  then show ?thesis using run_reachable[OF _ sys_reachable.start] by blast
qed

text \<open>
  A torn result: the thread runs inference again for a frame already answered while
  \<open>rkndo_ok\<close> still invites the camera loop to read the slot, so a frame can be drawn with the
  zeroed slot and its cat is lost.
\<close>

theorem torn_result:
  "\<exists>s. sys_reachable (Some :: nat \<Rightarrow> nat option) s \<and> drawn s = [(2, Zeroed), (1, Done 1)]"
proof -
  have "\<exists>s. run (Some :: nat \<Rightarrow> nat option) [A 1, W, W, W, W, W, W, G, W, W, W, A 2, G] system0 = Some s \<and>
      drawn s = [(2, Zeroed), (1, Done 1)]"
    by (simp add: schedule_simps)
  then show ?thesis using run_reachable[OF _ sys_reachable.start] by blast
qed

text \<open>
  The thread never waits again: once it has taken a frame its \<open>idx\<close> is not reset, so every
  scan that finds no pending frame still starts another inference on the old image.
\<close>

theorem thread_never_idles:
  assumes "w_idx (box s) \<noteq> 255" and "w_pc (box s) = Scan" and "resize_ok (box s) = [0, 0]"
  shows "\<exists>q. rknn_thread_step infer (box s) = Some q \<and> w_pc q = Load \<and> w_idx q = w_idx (box s)"
  using assms by (simp add: rknn_thread_step_def scan_eq)

theorem thread_never_idles_witness:
  "\<exists>q. rknn_thread_step Some (box (the (run Some [A (1::nat), W, W, W, W, W, W] system0))) = Some q \<and>
    w_pc q = Load \<and> w_idx q = w_idx (box (the (run Some [A (1::nat), W, W, W, W, W, W] system0)))"
  by (rule thread_never_idles) (simp_all add: schedule_simps)

end
