(* ===== verification/Mailbox_Spec.thy ===== *)
theory Mailbox_Spec
  imports Rknn_Queue
begin

text \<open>
  What the mailbox of \<open>Rknn_Queue\<close> amounts to: a one-place mailbox without slots, indices or scans,
  and the proof that the two-slot code and this specification simulate each other.  The locale
  \<open>simulation\<close> is the contract of such a proof; the code's system is its interpretation.
\<close>

section \<open>Simulation\<close>

locale simulation =
  fixes init :: 's and step :: "'s \<Rightarrow> 's \<Rightarrow> bool"
    and spec_init :: 't and spec_step :: "'t \<Rightarrow> 't \<Rightarrow> bool"
    and abs :: "'s \<Rightarrow> 't" and inv :: "'s \<Rightarrow> bool"
  assumes init_inv: "inv init" and init_abs: "abs init = spec_init"
    and step_inv: "inv s \<Longrightarrow> step s s' \<Longrightarrow> inv s'"
    and step_sim: "inv s \<Longrightarrow> step s s' \<Longrightarrow> spec_step (abs s) (abs s')"
begin

lemma reachable_inv: "rtranclp step init s \<Longrightarrow> inv s"
  by (induction rule: rtranclp_induct) (auto intro: init_inv step_inv)

lemma reachable_sim: "rtranclp step init s \<Longrightarrow> rtranclp spec_step spec_init (abs s)"
proof (induction rule: rtranclp_induct)
  case base
  then show ?case by (simp add: init_abs)
next
  case (step s s')
  then show ?case using step_sim[OF reachable_inv] by (meson rtranclp.rtrancl_into_rtrancl)
qed

text \<open>An invariant of the specification holds of every state of the program.\<close>

lemma transfer:
  assumes "\<And>t. rtranclp spec_step spec_init t \<Longrightarrow> P t" and "rtranclp step init s"
  shows "P (abs s)"
  using assms reachable_sim by blast

end

section \<open>The specification\<close>

text \<open>
  The thread sleeps until the first frame; after that it never sleeps again: it loads the image,
  runs the model, and announces the answer, over and over.
\<close>

datatype ('f, 'r) worker = Sleeping | Awake | Loading | Running 'f | Storing 'r | Clearing | Announcing

record ('f, 'r) place =
  pending :: bool
  ready :: bool
  image :: "'f option"
  answer :: "'r slot"
  worker :: "('f, 'r) worker"
  camera :: "'f main_pc"
  shown :: "('f \<times> 'r slot) list"

definition place0 :: "('f, 'r) place" where
  "place0 = \<lparr>pending = False, ready = False, image = None, answer = Zeroed, worker = Sleeping,
     camera = Adding, shown = []\<rparr>"

inductive place_step :: "('f \<Rightarrow> 'r option) \<Rightarrow> ('f, 'r) place \<Rightarrow> ('f, 'r) place \<Rightarrow> bool" for infer where
  sleep: "worker t = Sleeping \<Longrightarrow> \<not> pending t \<Longrightarrow> place_step infer t t"
| wake: "worker t = Sleeping \<Longrightarrow> pending t \<Longrightarrow> place_step infer t (t\<lparr>worker := Loading\<rparr>)"
| again: "worker t = Awake \<Longrightarrow> place_step infer t (t\<lparr>worker := Loading\<rparr>)"
| load: "worker t = Loading \<Longrightarrow> image t = Some f \<Longrightarrow> place_step infer t (t\<lparr>worker := Running f\<rparr>)"
| fail: "worker t = Running f \<Longrightarrow> infer f = None \<Longrightarrow> place_step infer t (t\<lparr>worker := Clearing\<rparr>)"
| zero: "worker t = Running f \<Longrightarrow> infer f = Some v \<Longrightarrow>
    place_step infer t (t\<lparr>answer := Zeroed, worker := Storing v\<rparr>)"
| store: "worker t = Storing v \<Longrightarrow> place_step infer t (t\<lparr>answer := Done v, worker := Clearing\<rparr>)"
| clear: "worker t = Clearing \<Longrightarrow> place_step infer t (t\<lparr>pending := False, worker := Announcing\<rparr>)"
| announce: "worker t = Announcing \<Longrightarrow> place_step infer t (t\<lparr>ready := True, worker := Awake\<rparr>)"
| put: "camera t = Adding \<Longrightarrow> \<not> pending t \<Longrightarrow>
    place_step infer t (t\<lparr>image := Some f, pending := True, camera := Getting f\<rparr>)"
| take: "camera t = Getting f \<Longrightarrow> ready t \<Longrightarrow>
    place_step infer t (t\<lparr>pending := False, camera := Adding, shown := (f, answer t) # shown t\<rparr>)"
| poll: "camera t = Getting f \<Longrightarrow> \<not> ready t \<Longrightarrow> place_step infer t t"

section \<open>The abstraction\<close>

fun abs_pc :: "int \<Rightarrow> ('f, 'r) pc \<Rightarrow> ('f, 'r) worker" where
  "abs_pc idx Scan = (if idx = 255 then Sleeping else Awake)"
| "abs_pc idx Load = Loading"
| "abs_pc idx (Reset f) = Running f"
| "abs_pc idx (Store v) = Storing v"
| "abs_pc idx Clear = Clearing"
| "abs_pc idx Mark = Announcing"

definition abs_system :: "('f, 'r) system \<Rightarrow> ('f, 'r) place" where
  "abs_system s =
     \<lparr>pending = (resize_ok (box s) ! 0 \<noteq> 0), ready = (rkndo_ok (box s) ! 0 = 1),
      image = resizeImages (box s) ! 0, answer = od_results (box s) ! 0,
      worker = abs_pc (w_idx (box s)) (w_pc (box s)), camera = main_at s, shown = drawn s\<rparr>"

text \<open>The shape of a reachable state, in the terms the steps need.\<close>

lemma sys_shape:
  assumes "sys_inv infer s"
  obtains a d img r where "resize_ok (box s) = [a, 0]" "rkndo_ok (box s) = [d, 0]"
    "resizeImages (box s) = [img, None]" "od_results (box s) = [r, Zeroed]" "a = 0 \<or> a = 1" "d = 0 \<or> d = 1"
    "w_idx (box s) = 255 \<and> w_pc (box s) = Scan \<or> w_idx (box s) = 0" "w_idx (box s) = 0 \<or> a = 1 \<longrightarrow> img \<noteq> None"
    "main_at s = Adding \<longrightarrow> a = 0"
  using assms unfolding sys_inv_def by blast

lemmas place_simps = abs_system_def rknn_thread_step_def scan_eq rd_def wr_def add_eq get_eq

lemma worker_sim:
  assumes "sys_inv infer s" and "rknn_thread_step infer (box s) = Some q"
  shows "place_step infer (abs_system s) (abs_system (s\<lparr>box := q\<rparr>))"
proof -
  obtain a d img r where e: "resize_ok (box s) = [a, 0]" "rkndo_ok (box s) = [d, 0]"
    "resizeImages (box s) = [img, None]" "od_results (box s) = [r, Zeroed]" "a = 0 \<or> a = 1" "d = 0 \<or> d = 1"
    "w_idx (box s) = 255 \<and> w_pc (box s) = Scan \<or> w_idx (box s) = 0" "w_idx (box s) = 0 \<or> a = 1 \<longrightarrow> img \<noteq> None"
    "main_at s = Adding \<longrightarrow> a = 0"
    using sys_shape[OF assms(1)] .
  show ?thesis
  proof (cases "w_pc (box s)")
    case Scan
    consider "w_idx (box s) = 255" "a = 0" | "w_idx (box s) = 255" "a = 1" | "w_idx (box s) = 0"
      using e(5,7) by blast
    then show ?thesis
      by cases (use Scan assms(2) e sleep[of "abs_system s"] wake[of "abs_system s"] again[of "abs_system s"]
          in \<open>auto simp: place_simps\<close>)
  next
    case Load
    then show ?thesis using assms(2) e load[of "abs_system s"] by (auto simp: place_simps)
  next
    case (Reset f)
    then show ?thesis using assms(2) e fail[of "abs_system s" f] zero[of "abs_system s" f]
      by (cases "infer f") (auto simp: place_simps)
  next
    case (Store v)
    then show ?thesis using assms(2) e store[of "abs_system s" v] by (auto simp: place_simps)
  next
    case Clear
    then show ?thesis using assms(2) e clear[of "abs_system s"] by (auto simp: place_simps)
  next
    case Mark
    then show ?thesis using assms(2) e announce[of "abs_system s"] by (auto simp: place_simps)
  qed
qed

lemma sys_step_sim:
  assumes "sys_inv infer s" and "sys_step infer s s'"
  shows "place_step infer (abs_system s) (abs_system s')"
  using assms(2)
proof (cases rule: sys_step.cases)
  case (worker q)
  then show ?thesis using worker_sim[OF assms(1)] by simp
next
  case (add f ret q)
  obtain a d img r where e: "resize_ok (box s) = [a, 0]" "resizeImages (box s) = [img, None]" "a = 0"
    using sys_shape[OF assms(1)] add(2) by metis
  show ?thesis using add e put[of "abs_system s" infer f] by (auto simp: place_simps)
next
  case (get f ret res q)
  obtain a d img r where e: "resize_ok (box s) = [a, 0]" "rkndo_ok (box s) = [d, 0]" "od_results (box s) = [r, Zeroed]"
      "d = 0 \<or> d = 1"
    using sys_shape[OF assms(1)] by metis
  show ?thesis using get e take[of "abs_system s" f infer] poll[of "abs_system s" f infer]
    by (auto simp: place_simps split: if_splits)
qed

interpretation mailbox: simulation system0 "sys_step infer" place0 "place_step infer" abs_system "sys_inv infer"
  for infer
proof
  show "sys_inv infer system0" by (rule sys_reachable_inv[OF sys_reachable.start])
  show "abs_system system0 = place0" by (simp add: abs_system_def system0_def mailbox0_def place0_def)
qed (auto intro: sys_step_inv sys_step_sim)

lemma worker_sim_back:
  assumes "sys_inv infer s" and "place_step infer (abs_system s) t"
    and "t \<noteq> abs_system s" and "camera t = main_at s"
  shows "\<exists>q. rknn_thread_step infer (box s) = Some q \<and> abs_system (s\<lparr>box := q\<rparr>) = t"
proof -
  obtain a d img r where e: "resize_ok (box s) = [a, 0]" "rkndo_ok (box s) = [d, 0]"
    "resizeImages (box s) = [img, None]" "od_results (box s) = [r, Zeroed]" "a = 0 \<or> a = 1" "d = 0 \<or> d = 1"
    "w_idx (box s) = 255 \<and> w_pc (box s) = Scan \<or> w_idx (box s) = 0" "w_idx (box s) = 0 \<or> a = 1 \<longrightarrow> img \<noteq> None"
    "main_at s = Adding \<longrightarrow> a = 0"
    using sys_shape[OF assms(1)] .
  from assms(2) show ?thesis
  proof cases
    case put
    then show ?thesis using assms(4) by (simp add: abs_system_def)
  next
    case (take f)
    then show ?thesis using assms(4) by (simp add: abs_system_def)
  qed (use assms(3) e in \<open>cases "w_pc (box s)"; auto simp: place_simps split: if_splits\<close>)+
qed

text \<open>Stuttering steps of the specification are steps of the code that change nothing it shows.\<close>

lemma sys_step_back:
  assumes "sys_inv infer s" and "place_step infer (abs_system s) t"
  shows "\<exists>s'. sys_step infer s s' \<and> abs_system s' = t"
proof -
  obtain a d img r where e: "resize_ok (box s) = [a, 0]" "rkndo_ok (box s) = [d, 0]"
    "resizeImages (box s) = [img, None]" "od_results (box s) = [r, Zeroed]" "a = 0 \<or> a = 1" "d = 0 \<or> d = 1"
    "w_idx (box s) = 255 \<and> w_pc (box s) = Scan \<or> w_idx (box s) = 0" "w_idx (box s) = 0 \<or> a = 1 \<longrightarrow> img \<noteq> None"
    "main_at s = Adding \<longrightarrow> a = 0"
    using sys_shape[OF assms(1)] .
  show ?thesis
  proof (cases "t \<noteq> abs_system s \<and> camera t = main_at s")
    case True
    then show ?thesis using worker_sim_back[OF assms] sys_step.worker by blast
  next
    case False
    from assms(2) show ?thesis
    proof cases
      case (put f)
      then have "main_at s = Adding" "a = 0" using e(1,9) by (auto simp: abs_system_def)
      then show ?thesis
        using put e add_eq[OF e(1,3), of "Some f"] sys_step.add[of s f 0 _ infer]
        by (fastforce simp: abs_system_def)
    next
      case (take f)
      then have "main_at s = Getting f" "d = 1" using e(2) by (auto simp: abs_system_def)
      then show ?thesis
        using take e get_eq[OF e(1,2,4)] sys_step.get[of s f 0 "Some r" _ infer]
        by (fastforce simp: abs_system_def)
    next
      case (poll f)
      then have "main_at s = Getting f" "d \<noteq> 1" using e(2) by (auto simp: abs_system_def)
      then show ?thesis
        using poll e get_eq[OF e(1,2,4)] sys_step.get[of s f "-1" None _ infer]
        by (fastforce simp: abs_system_def)
    next
      case sleep
      then have "w_idx (box s) = 255 \<and> w_pc (box s) = Scan" "a = 0"
        using e(1,7) by (cases "w_pc (box s)"; auto simp: abs_system_def split: if_splits)+
      then have "rknn_thread_step infer (box s) = Some (box s)" using e by (simp add: rknn_thread_step_def scan_eq)
      then have "sys_step infer s (s\<lparr>box := box s\<rparr>)" by (rule sys_step.worker)
      then show ?thesis using sleep by auto
    qed (use False in \<open>auto simp: abs_system_def\<close>)
  qed
qed

section \<open>Properties\<close>

lemma reachable_rtrancl: "sys_reachable infer s \<longleftrightarrow> rtranclp (sys_step infer) system0 s"
proof
  show "sys_reachable infer s \<Longrightarrow> rtranclp (sys_step infer) system0 s"
    by (induction rule: sys_reachable.induct) (auto intro: rtranclp.rtrancl_into_rtrancl)
  show "rtranclp (sys_step infer) system0 s \<Longrightarrow> sys_reachable infer s"
    by (induction rule: rtranclp_induct) (auto intro: sys_reachable.intros)
qed

text \<open>
  C6. The two-slot code is a one-place mailbox: from every reachable state, each step of the camera
  loop or of the inference thread is a step of the specification between the abstracted states, and
  each step of the specification is one of the code, so the slots, indices and scans add nothing.
\<close>

theorem mailbox_refines:
  assumes "sys_reachable infer s"
  shows "(sys_step infer s s' \<longrightarrow> place_step infer (abs_system s) (abs_system s')) \<and>
    (place_step infer (abs_system s) t \<longrightarrow> (\<exists>s'. sys_step infer s s' \<and> abs_system s' = t)) \<and>
    rtranclp (place_step infer) place0 (abs_system s)"
  using mailbox.reachable_inv mailbox.reachable_sim sys_step_sim sys_step_back assms
  unfolding reachable_rtrancl by metis

theorem mailbox_refines_witness:
  "(\<exists>s'. sys_step Some (system0 :: (nat, nat) system) s' \<and>
      abs_system s' = place0\<lparr>image := Some 5, pending := True, camera := Getting 5\<rparr>) \<and>
    rtranclp (place_step Some) place0 (abs_system (system0 :: (nat, nat) system))"
proof -
  have "abs_system (system0 :: (nat, nat) system) = place0" by (rule mailbox.init_abs)
  moreover have "place_step Some place0 (place0\<lparr>image := Some (5 :: nat), pending := True, camera := Getting 5\<rparr>)"
    by (rule put) (simp_all add: place0_def)
  ultimately show ?thesis
    using mailbox_refines[OF sys_reachable.start[of Some], of system0 "place0\<lparr>image := Some (5 :: nat), pending := True, camera := Getting 5\<rparr>"]
    by auto
qed

text \<open>
  Through the specification: once an answer has been announced the thread never sleeps again, and a
  sleeping thread means that no frame was ever taken.
\<close>

lemma place_awake: "rtranclp (place_step infer) place0 t \<Longrightarrow> ready t \<or> shown t \<noteq> [] \<Longrightarrow> worker t \<noteq> Sleeping"
proof (induction rule: rtranclp_induct)
  case base
  then show ?case by (simp add: place0_def)
next
  case (step t t')
  from step.hyps(2) show ?case using step.IH step.prems by cases auto
qed

lemma thread_awake:
  assumes "sys_reachable infer s" and "drawn s \<noteq> []"
  shows "w_idx (box s) \<noteq> 255"
proof
  assume "w_idx (box s) = 255"
  then have "w_pc (box s) = Scan" using sys_shape[OF sys_reachable_inv[OF assms(1)]] by (metis zero_neq_numeral)
  then have "worker (abs_system s) = Sleeping" "shown (abs_system s) \<noteq> []"
    using \<open>w_idx (box s) = 255\<close> assms(2) by (simp_all add: abs_system_def)
  moreover have "ready (abs_system s) \<or> shown (abs_system s) \<noteq> [] \<longrightarrow> worker (abs_system s) \<noteq> Sleeping"
    by (rule mailbox.transfer[OF _ assms(1)[unfolded reachable_rtrancl]]) (use place_awake in blast)
  ultimately show False by simp
qed

end
