(* ===== verification/CFloat.thy ===== *)
theory CFloat
  imports Prelude Complex_Main "HOL-Library.Log_Nat"
begin

text \<open>
  C \<open>float\<close> and \<open>double\<close> (IEEE 754 binary32 and binary64, round to nearest, ties to
  even) as an executable model over the rationals.  A finite value is its exact rational value;
  every operation rounds the exact result once.  The two zeros are identified: no code modelled
  here divides by a negative zero or prints one.  The theory shows that rounding is monotone, is
  exact on the values the code relies on (small integers), and that comparisons on values other
  than NaN form a total preorder.
\<close>

section \<open>Values\<close>

datatype fl = NaN | PInf | MInf | Fin rat

definition is_nan :: "fl \<Rightarrow> bool" where
  "is_nan x \<longleftrightarrow> x = NaN"

section \<open>Rounding\<close>

definition pow2 :: "int \<Rightarrow> rat" where
  "pow2 e = (if 0 \<le> e then 2 ^ nat e else 1 / 2 ^ nat (- e))"

lemma pow2_power_int: "pow2 e = power_int 2 e"
  by (simp add: pow2_def power_int_def field_simps)

lemma pow2_pos [simp]: "0 < pow2 e"
  by (simp add: pow2_def)

lemma pow2_nonneg [simp]: "0 \<le> pow2 e"
  by (simp add: less_imp_le)

lemma pow2_nonzero [simp]: "pow2 e \<noteq> 0"
  using pow2_pos[of e] by linarith

lemma pow2_add: "pow2 (a + b) = pow2 a * pow2 b"
  by (simp add: pow2_power_int power_int_add)

lemma pow2_diff: "pow2 (a - b) = pow2 a / pow2 b"
  by (simp add: pow2_power_int power_int_diff)

lemma pow2_mono: "a \<le> b \<Longrightarrow> pow2 a \<le> pow2 b"
  by (simp add: pow2_power_int power_int_increasing)

lemma pow2_less: "a < b \<Longrightarrow> pow2 a < pow2 b"
  by (simp add: pow2_power_int power_int_strict_increasing)

lemma pow2_less_iff [simp]: "pow2 a < pow2 b \<longleftrightarrow> a < b"
  by (metis linorder_neqE_linordered_idom order_less_asym pow2_less)

lemma pow2_nat: "pow2 (int n) = 2 ^ n"
  by (simp add: pow2_def)

text \<open>The binary exponent of a positive rational.\<close>

definition ilog2 :: "rat \<Rightarrow> int" where
  "ilog2 q =
     (if 1 \<le> q then int (floorlog 2 (nat \<lfloor>q\<rfloor>)) - 1
      else - int (floorlog 2 (nat (\<lceil>1 / q\<rceil> - 1))))"

lemma floorlog2_bounds:
  assumes "0 < n"
  shows "2 ^ (floorlog 2 n - 1) \<le> n" and "n < 2 ^ floorlog 2 n" and "0 < floorlog 2 n"
  using floorlog_bounds[of n 2] assms by (auto simp: floorlog_def)

lemma ilog2_lower:
  assumes "0 < q" shows "pow2 (ilog2 q) \<le> q"
proof (cases "1 \<le> q")
  case True
  let ?n = "nat \<lfloor>q\<rfloor>"
  have n: "0 < ?n" using True by linarith
  have "ilog2 q = int (floorlog 2 ?n - 1)"
    using True floorlog2_bounds(3)[OF n] by (simp add: ilog2_def of_nat_diff)
  then have "pow2 (ilog2 q) = 2 ^ (floorlog 2 ?n - 1)" by (simp only: pow2_nat)
  also have "\<dots> = of_nat (2 ^ (floorlog 2 ?n - 1))" by simp
  also have "\<dots> \<le> (of_nat ?n :: rat)" using floorlog2_bounds(1)[OF n] by (simp only: of_nat_le_iff)
  also have "\<dots> = of_int \<lfloor>q\<rfloor>" using True by simp
  also have "\<dots> \<le> q" by linarith
  finally show ?thesis .
next
  case False
  let ?m = "nat (\<lceil>1 / q\<rceil> - 1)"
  have q1: "1 < 1 / q" using False assms by (simp add: field_simps)
  have m: "0 < ?m" using q1 by linarith
  have "1 / q \<le> of_int \<lceil>1 / q\<rceil>" by linarith
  also have "\<lceil>1 / q\<rceil> = int (?m + 1)" using q1 m by linarith
  also have "of_int (int (?m + 1)) = (of_nat (?m + 1) :: rat)" by (rule of_int_of_nat_eq)
  also have "\<dots> \<le> of_nat (2 ^ floorlog 2 ?m)"
    using floorlog2_bounds(2)[OF m] by (simp only: of_nat_le_iff)
  finally have "1 / q \<le> pow2 (int (floorlog 2 ?m))" by (simp add: pow2_nat)
  then have "1 / pow2 (int (floorlog 2 ?m)) \<le> q" using assms by (simp add: field_simps)
  then show ?thesis using False by (simp add: ilog2_def pow2_power_int power_int_minus field_simps)
qed

lemma ilog2_upper:
  assumes "0 < q" shows "q < pow2 (ilog2 q + 1)"
proof (cases "1 \<le> q")
  case True
  let ?n = "nat \<lfloor>q\<rfloor>"
  have n: "0 < ?n" using True by linarith
  have "q < of_int \<lfloor>q\<rfloor> + 1" by linarith
  also have "\<dots> = of_nat (?n + 1)" using True by simp
  also have "\<dots> \<le> of_nat (2 ^ floorlog 2 ?n)"
    using floorlog2_bounds(2)[OF n] by (simp only: of_nat_le_iff)
  also have "\<dots> = pow2 (int (floorlog 2 ?n))" by (simp add: pow2_nat)
  finally show ?thesis using True by (simp add: ilog2_def)
next
  case False
  let ?m = "nat (\<lceil>1 / q\<rceil> - 1)"
  have q1: "1 < 1 / q" using False assms by (simp add: field_simps)
  have m: "0 < ?m" using q1 by linarith
  have "pow2 (int (floorlog 2 ?m) - 1) = pow2 (int (floorlog 2 ?m - 1))"
    using floorlog2_bounds(3)[OF m] by (simp add: of_nat_diff)
  also have "\<dots> = of_nat (2 ^ (floorlog 2 ?m - 1))" by (simp add: pow2_nat)
  also have "\<dots> \<le> (of_nat ?m :: rat)"
    using floorlog2_bounds(1)[OF m] by (simp only: of_nat_le_iff)
  also have "\<dots> < 1 / q" using q1 by linarith
  finally have "q < 1 / pow2 (int (floorlog 2 ?m) - 1)" using assms by (simp add: field_simps)
  also have "\<dots> = pow2 (1 - int (floorlog 2 ?m))"
    by (simp add: pow2_diff pow2_def)
  finally show ?thesis using False by (simp add: ilog2_def add.commute)
qed

lemma ilog2_le_iff:
  assumes "0 < q" shows "ilog2 q \<le> e \<longleftrightarrow> q < pow2 (e + 1)"
proof
  assume "ilog2 q \<le> e"
  then have "pow2 (ilog2 q + 1) \<le> pow2 (e + 1)" by (intro pow2_mono) simp
  then show "q < pow2 (e + 1)" using ilog2_upper[OF assms] by linarith
next
  assume "q < pow2 (e + 1)"
  then have "pow2 (ilog2 q) < pow2 (e + 1)" using ilog2_lower[OF assms] by linarith
  then show "ilog2 q \<le> e" by simp
qed

lemma ilog2_mono: "0 < q \<Longrightarrow> q \<le> q' \<Longrightarrow> ilog2 q \<le> ilog2 q'"
  using ilog2_upper[of q'] by (simp add: ilog2_le_iff)

text \<open>Nearest integer, ties to even.\<close>

definition rne :: "rat \<Rightarrow> int" where
  "rne q =
     (let f = \<lfloor>q\<rfloor>; d = q - of_int f
      in if d < 1 / 2 then f else if 1 / 2 < d then f + 1 else if even f then f else f + 1)"

lemma rne_of_int [simp]: "rne (of_int n) = n"
  by (simp add: rne_def Let_def)

lemma rne_bounds: "\<lfloor>q\<rfloor> \<le> rne q" "rne q \<le> \<lceil>q\<rceil>" "rne q \<le> \<lfloor>q\<rfloor> + 1"
  unfolding rne_def Let_def by (auto split: if_splits) linarith+

lemma rne_mono:
  assumes "q \<le> q'" shows "rne q \<le> rne q'"
proof (cases "\<lfloor>q\<rfloor> = \<lfloor>q'\<rfloor>")
  case True
  then show ?thesis using assms by (auto simp: rne_def Let_def)
next
  case False
  then have "\<lfloor>q\<rfloor> + 1 \<le> \<lfloor>q'\<rfloor>" using floor_mono[OF assms] by linarith
  then show ?thesis using rne_bounds(3)[of q] rne_bounds(1)[of q'] by linarith
qed

lemma rne_minus: "rne (- q) = - rne q"
proof (cases "q = of_int \<lfloor>q\<rfloor>")
  case True
  then have "rne (- q) = rne (of_int (- \<lfloor>q\<rfloor>))" by simp
  also have "\<dots> = - rne (of_int \<lfloor>q\<rfloor>)" by (simp only: rne_of_int)
  finally show ?thesis using True by simp
next
  case False
  have "of_int \<lfloor>q\<rfloor> \<le> q" by linarith
  with False have "of_int \<lfloor>q\<rfloor> < q" by linarith
  then have "\<lfloor>- q\<rfloor> = - \<lfloor>q\<rfloor> - 1" by linarith
  then show ?thesis by (auto simp: rne_def Let_def)
qed

text \<open>
  Rounding to a binary format with \<open>p\<close> significant bits, least exponent \<open>emn\<close> of a
  unit in the last place (subnormals), and values below \<open>2 ^ emx\<close> in magnitude.
\<close>

definition rnd_val :: "nat \<Rightarrow> int \<Rightarrow> rat \<Rightarrow> rat" where
  "rnd_val p emn q =
     (if q = 0 then 0
      else let u = max (ilog2 \<bar>q\<bar> - (int p - 1)) emn in of_int (rne (q / pow2 u)) * pow2 u)"

definition rnd :: "nat \<Rightarrow> int \<Rightarrow> int \<Rightarrow> rat \<Rightarrow> fl" where
  "rnd p emn emx q =
     (let r = rnd_val p emn q
      in if pow2 emx \<le> r then PInf else if r \<le> - pow2 emx then MInf else Fin r)"

definition rnd32 :: "rat \<Rightarrow> fl" where
  "rnd32 = rnd 24 (- 149) 128"

definition rnd64 :: "rat \<Rightarrow> fl" where
  "rnd64 = rnd 53 (- 1074) 1024"

section \<open>Properties of rounding\<close>

lemma rnd_val_minus: "rnd_val p emn (- q) = - rnd_val p emn q"
  using rne_minus[of "q / pow2 (max (ilog2 \<bar>q\<bar> - (int p - 1)) emn)"]
  by (simp add: rnd_val_def Let_def)

lemma rnd_val_nonneg: "0 \<le> q \<Longrightarrow> 0 \<le> rnd_val p emn q"
  using rne_mono[of 0 "q / pow2 (max (ilog2 \<bar>q\<bar> - (int p - 1)) emn)"] rne_of_int[of 0]
  by (simp add: rnd_val_def Let_def)

lemma rnd_val_mono_pos:
  assumes q: "0 < q" "q \<le> q'" and p: "0 < p"
  shows "rnd_val p emn q \<le> rnd_val p emn q'"
proof -
  define u where "u = max (ilog2 q - (int p - 1)) emn"
  define u' where "u' = max (ilog2 q' - (int p - 1)) emn"
  have le: "u \<le> u'" using ilog2_mono[OF q] by (auto simp: u_def u'_def)
  have r: "rnd_val p emn q = of_int (rne (q / pow2 u)) * pow2 u"
    "rnd_val p emn q' = of_int (rne (q' / pow2 u')) * pow2 u'"
    using q by (simp_all add: rnd_val_def u_def u'_def Let_def)
  show ?thesis
  proof (cases "u = u'")
    case True
    have "rne (q / pow2 u) \<le> rne (q' / pow2 u)"
      using q by (intro rne_mono) (simp add: divide_right_mono)
    then show ?thesis unfolding r True[symmetric] by (simp add: mult_right_mono)
  next
    case False
    with le have lt: "u < u'" by simp
    then have u': "u' = ilog2 q' - (int p - 1)" by (auto simp: u_def u'_def max_def split: if_splits)
    have "ilog2 q < u + int p" by (auto simp: u_def)
    then have "pow2 (ilog2 q + 1) \<le> pow2 (u + int p)" by (intro pow2_mono) simp
    then have "q < pow2 u * pow2 (int p)" using ilog2_upper[OF q(1)] by (simp add: pow2_add)
    then have "q / pow2 u \<le> of_int (2 ^ p)" by (simp add: field_simps pow2_nat)
    then have "rne (q / pow2 u) \<le> 2 ^ p" by (metis rne_mono rne_of_int)
    then have "of_int (rne (q / pow2 u)) \<le> (of_int (2 ^ p) :: rat)" by (simp only: of_int_le_iff)
    then have a: "rnd_val p emn q \<le> pow2 (int p + u)"
      unfolding r by (simp add: pow2_add pow2_nat mult_right_mono)
    have "pow2 (u' + int (p - 1)) \<le> q'"
      using ilog2_lower[of q'] q p by (simp add: u' of_nat_diff)
    then have "of_int (2 ^ (p - 1)) \<le> q' / pow2 u'" by (simp add: field_simps pow2_add pow2_nat)
    then have "2 ^ (p - 1) \<le> rne (q' / pow2 u')" by (metis rne_mono rne_of_int)
    then have "(of_int (2 ^ (p - 1)) :: rat) \<le> of_int (rne (q' / pow2 u'))"
      by (simp only: of_int_le_iff)
    then have b: "pow2 (int (p - 1) + u') \<le> rnd_val p emn q'"
      unfolding r by (simp add: pow2_add pow2_nat mult_right_mono)
    have "int p + u \<le> int (p - 1) + u'" using lt p by (simp add: of_nat_diff)
    then have "pow2 (int p + u) \<le> pow2 (int (p - 1) + u')" by (rule pow2_mono)
    then show ?thesis using a b by linarith
  qed
qed

lemma rnd_val_mono:
  assumes "q \<le> q'" and p: "0 < p"
  shows "rnd_val p emn q \<le> rnd_val p emn q'"
proof -
  consider "0 < q" | "q \<le> 0" "0 \<le> q'" | "q' < 0" by linarith
  then show ?thesis
  proof cases
    case 1
    then show ?thesis using assms by (intro rnd_val_mono_pos)
  next
    case 2
    have "0 \<le> rnd_val p emn (- q)" using 2 by (intro rnd_val_nonneg) simp
    moreover have "0 \<le> rnd_val p emn q'" using 2 by (intro rnd_val_nonneg)
    ultimately show ?thesis by (simp add: rnd_val_minus)
  next
    case 3
    have "rnd_val p emn (- q') \<le> rnd_val p emn (- q)" using 3 assms by (intro rnd_val_mono_pos) auto
    then show ?thesis by (simp add: rnd_val_minus)
  qed
qed

lemma rnd_val_exact:
  assumes n: "\<bar>n\<bar> < 2 ^ p" and k: "emn \<le> k"
  shows "rnd_val p emn (of_int n * pow2 k) = of_int n * pow2 k"
proof (cases "n = 0")
  case True
  then show ?thesis by (simp add: rnd_val_def)
next
  case False
  define q where "q = (of_int n :: rat) * pow2 k"
  define u where "u = max (ilog2 \<bar>q\<bar> - (int p - 1)) emn"
  have q: "q \<noteq> 0" "\<bar>q\<bar> = of_int \<bar>n\<bar> * pow2 k" using False by (simp_all add: q_def abs_mult)
  have "(of_int \<bar>n\<bar> :: rat) < of_int (2 ^ p)" using n by (simp only: of_int_less_iff)
  then have "\<bar>q\<bar> < pow2 (int p) * pow2 k" using q(2) by (simp add: pow2_nat)
  then have "\<bar>q\<bar> < pow2 (k + int p - 1 + 1)" by (simp add: pow2_add mult.commute)
  then have "ilog2 \<bar>q\<bar> \<le> k + int p - 1" using q(1) by (subst ilog2_le_iff) simp_all
  then have u: "u \<le> k" using k by (simp add: u_def)
  have "q / pow2 u = of_int n * pow2 (k - u)" by (simp add: q_def pow2_diff)
  also have "\<dots> = of_int (n * 2 ^ nat (k - u))" using u by (simp add: pow2_def)
  finally have eq: "q / pow2 u = of_int (n * 2 ^ nat (k - u))" .
  have "of_int (rne (q / pow2 u)) = q / pow2 u" unfolding eq by (simp only: rne_of_int)
  then show ?thesis
    using q(1) unfolding q_def[symmetric] rnd_val_def by (simp add: u_def Let_def)
qed

section \<open>Operations\<close>

text \<open>Each operation takes the rounding of its format: \<open>rnd32\<close> or \<open>rnd64\<close>.\<close>

fun fl_neg :: "fl \<Rightarrow> fl" where
  "fl_neg NaN = NaN"
| "fl_neg PInf = MInf"
| "fl_neg MInf = PInf"
| "fl_neg (Fin a) = Fin (- a)"

fun fl_add :: "(rat \<Rightarrow> fl) \<Rightarrow> fl \<Rightarrow> fl \<Rightarrow> fl" where
  "fl_add r NaN y = NaN"
| "fl_add r x NaN = NaN"
| "fl_add r PInf MInf = NaN"
| "fl_add r MInf PInf = NaN"
| "fl_add r PInf y = PInf"
| "fl_add r MInf y = MInf"
| "fl_add r (Fin a) PInf = PInf"
| "fl_add r (Fin a) MInf = MInf"
| "fl_add r (Fin a) (Fin b) = r (a + b)"

definition fl_sub :: "(rat \<Rightarrow> fl) \<Rightarrow> fl \<Rightarrow> fl \<Rightarrow> fl" where
  "fl_sub r x y = fl_add r x (fl_neg y)"

text \<open>An infinity of the sign of \<open>a\<close>; \<open>0 * infinity\<close> is not a number.\<close>

definition inf_mul :: "rat \<Rightarrow> fl \<Rightarrow> fl" where
  "inf_mul a i = (if a = 0 then NaN else if 0 < a then i else fl_neg i)"

fun fl_mul :: "(rat \<Rightarrow> fl) \<Rightarrow> fl \<Rightarrow> fl \<Rightarrow> fl" where
  "fl_mul r NaN y = NaN"
| "fl_mul r x NaN = NaN"
| "fl_mul r PInf PInf = PInf"
| "fl_mul r PInf MInf = MInf"
| "fl_mul r MInf PInf = MInf"
| "fl_mul r MInf MInf = PInf"
| "fl_mul r PInf (Fin b) = inf_mul b PInf"
| "fl_mul r MInf (Fin b) = inf_mul b MInf"
| "fl_mul r (Fin a) PInf = inf_mul a PInf"
| "fl_mul r (Fin a) MInf = inf_mul a MInf"
| "fl_mul r (Fin a) (Fin b) = r (a * b)"

definition inf_div :: "rat \<Rightarrow> fl \<Rightarrow> fl" where
  "inf_div b i = (if 0 \<le> b then i else fl_neg i)"

fun fl_div :: "(rat \<Rightarrow> fl) \<Rightarrow> fl \<Rightarrow> fl \<Rightarrow> fl" where
  "fl_div r NaN y = NaN"
| "fl_div r x NaN = NaN"
| "fl_div r (Fin a) (Fin b) = (if b = 0 then inf_mul a PInf else r (a / b))"
| "fl_div r (Fin a) y = Fin 0"
| "fl_div r x (Fin b) = inf_div b x"
| "fl_div r x y = NaN"

text \<open>Comparisons: false whenever an operand is not a number.\<close>

fun fl_less :: "fl \<Rightarrow> fl \<Rightarrow> bool" where
  "fl_less NaN y = False"
| "fl_less x NaN = False"
| "fl_less (Fin a) (Fin b) = (a < b)"
| "fl_less x MInf = False"
| "fl_less PInf y = False"
| "fl_less x y = True"

fun fl_le :: "fl \<Rightarrow> fl \<Rightarrow> bool" where
  "fl_le NaN y = False"
| "fl_le x NaN = False"
| "fl_le (Fin a) (Fin b) = (a \<le> b)"
| "fl_le MInf y = True"
| "fl_le x PInf = True"
| "fl_le x y = False"

text \<open>C's \<open>fmax\<close> and \<open>fmin\<close> (a NaN operand is ignored).\<close>

definition fl_max :: "fl \<Rightarrow> fl \<Rightarrow> fl" where
  "fl_max x y = (if is_nan x then y else if is_nan y then x else if fl_less x y then y else x)"

definition fl_min :: "fl \<Rightarrow> fl \<Rightarrow> fl" where
  "fl_min x y = (if is_nan x then y else if is_nan y then x else if fl_less y x then y else x)"

section \<open>Conversions\<close>

definition i2f :: "int \<Rightarrow> fl" where
  "i2f n = rnd32 (of_int n)"

definition i2d :: "int \<Rightarrow> fl" where
  "i2d n = rnd64 (of_int n)"

fun d2f :: "fl \<Rightarrow> fl" where
  "d2f (Fin a) = rnd32 a"
| "d2f x = x"

definition trunc :: "rat \<Rightarrow> int" where
  "trunc q = (if 0 \<le> q then \<lfloor>q\<rfloor> else \<lceil>q\<rceil>)"

text \<open>
  A conversion to an integer type truncates and is undefined unless the truncated value fits
  the type (C11 6.3.1.4).
\<close>

fun fl_to_int :: "int \<Rightarrow> int \<Rightarrow> fl \<Rightarrow> int option" where
  "fl_to_int lo hi (Fin a) = (let t = trunc a in if lo \<le> t \<and> t \<le> hi then Some t else None)"
| "fl_to_int lo hi x = None"

definition f2i :: "fl \<Rightarrow> int option" where
  "f2i = fl_to_int (- 2147483648) 2147483647"

definition f2u8 :: "fl \<Rightarrow> int option" where
  "f2u8 = fl_to_int 0 255"

definition f2i8 :: "fl \<Rightarrow> int option" where
  "f2i8 = fl_to_int (- 128) 127"

section \<open>Order\<close>

lemma fl_le_refl [simp]: "fl_le x x \<longleftrightarrow> x \<noteq> NaN"
  by (cases x) auto

lemma fl_le_trans: "fl_le x y \<Longrightarrow> fl_le y z \<Longrightarrow> fl_le x z"
  by (cases x; cases y; cases z) auto

lemma fl_less_le_trans: "fl_less x y \<Longrightarrow> fl_le y z \<Longrightarrow> fl_less x z"
  by (cases x; cases y; cases z) auto

lemma fl_le_less_trans: "fl_le x y \<Longrightarrow> fl_less y z \<Longrightarrow> fl_less x z"
  by (cases x; cases y; cases z) auto

lemma fl_less_imp_le: "fl_less x y \<Longrightarrow> fl_le x y"
  by (cases x; cases y) auto

lemma fl_le_antisym: "fl_le x y \<Longrightarrow> fl_le y x \<Longrightarrow> x = y"
  by (cases x; cases y) auto

lemma fl_not_less: "x \<noteq> NaN \<Longrightarrow> y \<noteq> NaN \<Longrightarrow> \<not> fl_less x y \<longleftrightarrow> fl_le y x"
  by (cases x; cases y) auto

lemma fl_not_le: "x \<noteq> NaN \<Longrightarrow> y \<noteq> NaN \<Longrightarrow> \<not> fl_le x y \<longleftrightarrow> fl_less y x"
  by (cases x; cases y) auto

lemma fl_le_not_nan: "fl_le x y \<Longrightarrow> x \<noteq> NaN \<and> y \<noteq> NaN"
  by (cases x; cases y) auto

lemma fl_less_not_nan: "fl_less x y \<Longrightarrow> x \<noteq> NaN \<and> y \<noteq> NaN"
  by (cases x; cases y) auto

lemma fl_less_nan [simp]: "\<not> fl_less NaN y" "\<not> fl_less x NaN"
  by (cases x; simp)+

lemma fl_le_nan [simp]: "\<not> fl_le NaN y" "\<not> fl_le x NaN"
  by (cases x; simp)+

lemma rnd_not_nan: "rnd p emn emx q \<noteq> NaN"
  by (simp add: rnd_def Let_def)

lemma rnd32_not_nan [simp]: "rnd32 q \<noteq> NaN"
  by (simp add: rnd32_def rnd_not_nan)

lemma rnd64_not_nan [simp]: "rnd64 q \<noteq> NaN"
  by (simp add: rnd64_def rnd_not_nan)

lemma rnd_mono:
  assumes "q \<le> q'" and "0 < p"
  shows "fl_le (rnd p emn emx q) (rnd p emn emx q')"
  using rnd_val_mono[OF assms, of emn] pow2_pos[of emx] by (auto simp: rnd_def Let_def)

lemma rnd32_mono: "q \<le> q' \<Longrightarrow> fl_le (rnd32 q) (rnd32 q')"
  by (simp add: rnd32_def rnd_mono)

lemma rnd64_mono: "q \<le> q' \<Longrightarrow> fl_le (rnd64 q) (rnd64 q')"
  by (simp add: rnd64_def rnd_mono)

lemma rnd_exact:
  assumes "\<bar>n\<bar> < 2 ^ p" and "emn \<le> k" and "k + int p \<le> emx"
  shows "rnd p emn emx (of_int n * pow2 k) = Fin (of_int n * pow2 k)"
proof -
  have "(of_int \<bar>n\<bar> :: rat) < of_int (2 ^ p)" using assms(1) by (simp only: of_int_less_iff)
  then have "\<bar>of_int n :: rat\<bar> < pow2 (int p)" by (simp add: pow2_nat)
  then have "\<bar>of_int n :: rat\<bar> * pow2 k < pow2 (int p) * pow2 k" by simp
  also have "\<dots> \<le> pow2 emx" using pow2_mono[OF assms(3)] by (simp add: pow2_add mult.commute)
  finally have "\<bar>of_int n * pow2 k\<bar> < pow2 emx" by (simp add: abs_mult)
  then show ?thesis using rnd_val_exact[OF assms(1,2)] by (auto simp: rnd_def Let_def abs_less_iff)
qed

text \<open>Rounding a rounded value changes nothing.\<close>

lemma rnd_val_form:
  assumes "0 < p"
  shows "\<exists>n k. rnd_val p emn q = of_int n * pow2 k \<and> \<bar>n\<bar> < 2 ^ p \<and> emn \<le> k"
proof (cases "q = 0")
  case True
  then show ?thesis by (intro exI[of _ 0] exI[of _ emn]) (simp add: rnd_val_def)
next
  case False
  define u where "u = max (ilog2 \<bar>q\<bar> - (int p - 1)) emn"
  define n where "n = rne (q / pow2 u)"
  have r: "rnd_val p emn q = of_int n * pow2 u" using False by (simp add: rnd_val_def u_def n_def Let_def)
  have "ilog2 \<bar>q\<bar> < u + int p" by (auto simp: u_def)
  then have "pow2 (ilog2 \<bar>q\<bar> + 1) \<le> pow2 (u + int p)" by (intro pow2_mono) simp
  then have "\<bar>q\<bar> < pow2 u * pow2 (int p)" using ilog2_upper[of "\<bar>q\<bar>"] False by (simp add: pow2_add)
  then have "\<bar>q\<bar> / pow2 u \<le> of_int (2 ^ p)" by (simp add: field_simps pow2_nat)
  then have "q / pow2 u \<le> of_int (2 ^ p)" "of_int (- (2 ^ p)) \<le> q / pow2 u"
    using pow2_pos[of u] by (auto simp: abs_le_iff field_simps)
  then have n: "\<bar>n\<bar> \<le> 2 ^ p" unfolding n_def by (metis abs_le_iff minus_le_iff rne_mono rne_of_int)
  show ?thesis
  proof (cases "\<bar>n\<bar> = 2 ^ p")
    case False
    then show ?thesis using n r by (intro exI[of _ n] exI[of _ u]) (auto simp: u_def)
  next
    case True
    have "(2::int) ^ p \<ge> 2" using assms by (simp add: self_le_power)
    then have "\<bar>sgn n\<bar> < 2 ^ p" by (auto simp: sgn_if)
    moreover have "(of_int n :: rat) = of_int (sgn n * 2 ^ p)"
      using True mult_sgn_abs[of n] by metis
    then have "of_int n * pow2 u = of_int (sgn n) * pow2 (u + int p)"
      by (simp add: pow2_add pow2_nat)
    ultimately show ?thesis using r
      by (intro exI[of _ "sgn n"] exI[of _ "u + int p"]) (auto simp: u_def)
  qed
qed

lemma rnd_val_idem: "0 < p \<Longrightarrow> rnd_val p emn (rnd_val p emn q) = rnd_val p emn q"
  using rnd_val_form[of p emn q] rnd_val_exact by metis

lemma rnd_idem: "0 < p \<Longrightarrow> rnd p emn emx q = Fin r \<Longrightarrow> rnd p emn emx r = Fin r"
  by (auto simp: rnd_def Let_def rnd_val_idem split: if_splits)

lemma rnd32_idem: "rnd32 q = Fin r \<Longrightarrow> rnd32 r = Fin r"
  unfolding rnd32_def by (rule rnd_idem) simp_all

lemma rnd32_exact: "\<bar>n\<bar> < 16777216 \<Longrightarrow> - 149 \<le> k \<Longrightarrow> k \<le> 104 \<Longrightarrow>
    rnd32 (of_int n * pow2 k) = Fin (of_int n * pow2 k)"
  unfolding rnd32_def by (rule rnd_exact) simp_all

lemma rnd64_exact: "\<bar>n\<bar> < 9007199254740992 \<Longrightarrow> - 1074 \<le> k \<Longrightarrow> k \<le> 971 \<Longrightarrow>
    rnd64 (of_int n * pow2 k) = Fin (of_int n * pow2 k)"
  unfolding rnd64_def by (rule rnd_exact) simp_all

lemma rnd32_int: "\<bar>n\<bar> < 16777216 \<Longrightarrow> rnd32 (of_int n) = Fin (of_int n)"
  using rnd32_exact[of n 0] by (simp add: pow2_def)

lemma rnd64_int: "\<bar>n\<bar> < 9007199254740992 \<Longrightarrow> rnd64 (of_int n) = Fin (of_int n)"
  using rnd64_exact[of n 0] by (simp add: pow2_def)

lemma i2f_exact: "\<bar>n\<bar> < 16777216 \<Longrightarrow> i2f n = Fin (of_int n)"
  by (simp add: i2f_def rnd32_int)

lemma i2d_exact: "\<bar>n\<bar> < 9007199254740992 \<Longrightarrow> i2d n = Fin (of_int n)"
  by (simp add: i2d_def rnd64_int)

text \<open>
  Evaluation of a rounding by giving the binary exponent and the nearest significand; for
  significands the exact quotient is not half way to.
\<close>

lemma ilog2_eqI: "pow2 e \<le> q \<Longrightarrow> q < pow2 (e + 1) \<Longrightarrow> ilog2 q = e"
proof -
  assume a: "pow2 e \<le> q" "q < pow2 (e + 1)"
  then have q: "0 < q" using pow2_pos[of e] by linarith
  then have "pow2 e < pow2 (ilog2 q + 1)" using a(1) ilog2_upper[of q] by linarith
  then show ?thesis using ilog2_le_iff[OF q, of e] a(2) by simp
qed

lemma rne_eqI: "of_int m - 1 / 2 < x \<Longrightarrow> x < of_int m + 1 / 2 \<Longrightarrow> rne x = m"
proof (cases "of_int m \<le> x")
  case True
  assume "x < of_int m + 1 / 2"
  with True have "\<lfloor>x\<rfloor> = m" by linarith
  then show ?thesis using \<open>x < of_int m + 1 / 2\<close> by (simp add: rne_def Let_def)
next
  case False
  assume "of_int m - 1 / 2 < x"
  with False have "\<lfloor>x\<rfloor> = m - 1" by linarith
  then show ?thesis using \<open>of_int m - 1 / 2 < x\<close> by (simp add: rne_def Let_def)
qed

lemma rnd_eval:
  assumes e: "0 < p" "pow2 e \<le> q" "q < pow2 (e + 1)" "emn \<le> e - (int p - 1)" "e + 2 \<le> emx"
    and m: "of_int m - 1 / 2 < q / pow2 (e - (int p - 1))" "q / pow2 (e - (int p - 1)) < of_int m + 1 / 2"
  shows "rnd p emn emx q = Fin (of_int m * pow2 (e - (int p - 1)))"
proof -
  have q: "0 < q" using e(2) pow2_pos[of e] by linarith
  have v: "rnd_val p emn q = of_int m * pow2 (e - (int p - 1))"
    using q e(4) ilog2_eqI[OF e(2,3)] rne_eqI[OF m] by (simp add: rnd_val_def max_def)
  let ?u = "pow2 (e - (int p - 1))"
  have "of_int m < q / ?u + 1" using m(1) by linarith
  then have "of_int m * ?u < (q / ?u + 1) * ?u" by (intro mult_strict_right_mono) simp_all
  also have "(q / ?u + 1) * ?u = q + ?u" by (simp add: field_simps)
  also have "\<dots> \<le> q + pow2 (e + 1)" using e(1) by (intro add_left_mono pow2_mono) simp
  also have "\<dots> < pow2 (e + 1) + pow2 (e + 1)" using e(3) by simp
  also have "\<dots> = pow2 (e + 2)" using pow2_add[of "e + 1" 1] by (simp add: pow2_def algebra_simps)
  also have "\<dots> \<le> pow2 emx" using e(5) by (rule pow2_mono)
  finally have "of_int m * ?u < pow2 emx" .
  moreover have "0 \<le> rnd_val p emn q" using q by (simp add: rnd_val_nonneg)
  then have "- pow2 emx < rnd_val p emn q" using pow2_pos[of emx] by linarith
  ultimately show ?thesis using v by (simp add: rnd_def Let_def)
qed

lemma rnd32_eval:
  "pow2 e \<le> q \<Longrightarrow> q < pow2 (e + 1) \<Longrightarrow> - 126 \<le> e \<Longrightarrow> e \<le> 126 \<Longrightarrow>
   of_int m - 1 / 2 < q / pow2 (e - 23) \<Longrightarrow> q / pow2 (e - 23) < of_int m + 1 / 2 \<Longrightarrow>
   rnd32 q = Fin (of_int m * pow2 (e - 23))"
  unfolding rnd32_def by (rule rnd_eval[of 24, simplified]) auto

lemma rnd64_eval:
  "pow2 e \<le> q \<Longrightarrow> q < pow2 (e + 1) \<Longrightarrow> - 1022 \<le> e \<Longrightarrow> e \<le> 1022 \<Longrightarrow>
   of_int m - 1 / 2 < q / pow2 (e - 52) \<Longrightarrow> q / pow2 (e - 52) < of_int m + 1 / 2 \<Longrightarrow>
   rnd64 q = Fin (of_int m * pow2 (e - 52))"
  unfolding rnd64_def by (rule rnd_eval[of 53, simplified]) auto

text \<open>Small integer literals evaluate by \<open>simp\<close>.\<close>

lemma rnd_0 [simp]: "rnd32 0 = Fin 0" "rnd64 0 = Fin 0"
  using rnd32_int[of 0] rnd64_int[of 0] by simp_all

lemma rnd_1 [simp]: "rnd32 1 = Fin 1" "rnd64 1 = Fin 1"
  using rnd32_int[of 1] rnd64_int[of 1] by simp_all

lemma rnd_numeral [simp]:
  "(numeral k :: int) < 16777216 \<Longrightarrow> rnd32 (numeral k) = Fin (numeral k)"
  "(numeral k :: int) < 9007199254740992 \<Longrightarrow> rnd64 (numeral k) = Fin (numeral k)"
  using rnd32_int[of "numeral k"] rnd64_int[of "numeral k"] by simp_all

lemma rnd_neg_numeral [simp]:
  "(numeral k :: int) < 16777216 \<Longrightarrow> rnd32 (- numeral k) = Fin (- numeral k)"
  "(numeral k :: int) < 9007199254740992 \<Longrightarrow> rnd64 (- numeral k) = Fin (- numeral k)"
  using rnd32_int[of "- numeral k"] rnd64_int[of "- numeral k"] by simp_all

lemma i2f_not_nan [simp]: "i2f n \<noteq> NaN"
  by (simp add: i2f_def)

lemma trunc_of_int [simp]: "trunc (of_int n) = n"
  by (simp add: trunc_def)

lemma trunc_mono: "a \<le> b \<Longrightarrow> trunc a \<le> trunc b"
proof (cases "a < 0 \<and> 0 \<le> b")
  case True
  then have "\<lceil>a\<rceil> \<le> 0" and "0 \<le> \<lfloor>b\<rfloor>" by (simp_all add: ceiling_le_iff)
  then have "\<lceil>a\<rceil> \<le> \<lfloor>b\<rfloor>" by (rule order_trans)
  then show "trunc a \<le> trunc b" using True by (simp add: trunc_def)
next
  case False
  assume "a \<le> b"
  then show "trunc a \<le> trunc b" using False by (auto simp: trunc_def floor_mono ceiling_mono)
qed

text \<open>
  A value between two integers of the target type converts, and the result lies between them.
\<close>

lemma f2i_of_int: "- 2147483648 \<le> n \<Longrightarrow> n \<le> 2147483647 \<Longrightarrow> f2i (Fin (of_int n)) = Some n"
  by (simp add: f2i_def)

lemma f2i_numeral [simp]: "(numeral k :: int) \<le> 2147483647 \<Longrightarrow> f2i (Fin (numeral k)) = Some (numeral k)"
  using f2i_of_int[of "numeral k"] by simp

lemma f2i_0 [simp]: "f2i (Fin 0) = Some 0"
  using f2i_of_int[of 0] by simp

lemma fl_to_int_between:
  assumes "fl_le (Fin (of_int a)) x" and "fl_le x (Fin (of_int b))" and "lo \<le> a" and "b \<le> hi"
  shows "\<exists>n. fl_to_int lo hi x = Some n \<and> a \<le> n \<and> n \<le> b"
proof (cases x)
  case (Fin q)
  then have "of_int a \<le> q" "q \<le> of_int b" using assms by auto
  then have "a \<le> trunc q" "trunc q \<le> b" by (metis trunc_mono trunc_of_int)+
  then show ?thesis using Fin assms by (simp add: Let_def)
qed (use assms in auto)

lemma f2i_between:
  assumes "fl_le (Fin (of_int a)) x" and "fl_le x (Fin (of_int b))"
    and "- 2147483648 \<le> a" and "b \<le> 2147483647"
  shows "\<exists>n. f2i x = Some n \<and> a \<le> n \<and> n \<le> b"
  unfolding f2i_def by (rule fl_to_int_between) (use assms in auto)

lemma fl_to_int_mono:
  "fl_to_int lo hi x = Some a \<Longrightarrow> fl_to_int lo hi y = Some b \<Longrightarrow> fl_le x y \<Longrightarrow> a \<le> b"
  by (cases x; cases y) (auto simp: Let_def trunc_mono split: if_splits)

lemma f2i_mono: "f2i x = Some a \<Longrightarrow> f2i y = Some b \<Longrightarrow> fl_le x y \<Longrightarrow> a \<le> b"
  unfolding f2i_def by (rule fl_to_int_mono)

lemma fl_to_int_range: "fl_to_int lo hi x = Some n \<Longrightarrow> lo \<le> n \<and> n \<le> hi"
  by (cases x) (auto simp: Let_def split: if_splits)

section \<open>Comparing an integer with an exact float\<close>

lemma rnd32_half: "\<bar>n\<bar> < 16777216 \<Longrightarrow> rnd32 (of_int n / 2) = Fin (of_int n / 2)"
  using rnd32_exact[of n "- 1"] by (simp add: pow2_def)

lemma rnd32_quarter: "\<bar>n\<bar> < 16777216 \<Longrightarrow> rnd32 (of_int n / 4) = Fin (of_int n / 4)"
  using rnd32_exact[of n "- 2"] by (simp add: pow2_def)

lemma i2f_ge: assumes "16777215 \<le> y" shows "fl_le (Fin 16777215) (i2f y)"
  using rnd32_mono[of 16777215 "of_int y"] assms by (simp add: i2f_def)

lemma i2f_le: assumes "y \<le> - 16777215" shows "fl_le (i2f y) (Fin (- 16777215))"
  using rnd32_mono[of "of_int y" "- 16777215"] assms by (simp add: i2f_def)

lemma i2f_cases:
  obtains "i2f y = Fin (of_int y)" | "16777215 \<le> y" "fl_le (Fin 16777215) (i2f y)"
    | "y \<le> - 16777215" "fl_le (i2f y) (Fin (- 16777215))"
  using i2f_exact[of y] i2f_ge[of y] i2f_le[of y] by fastforce

text \<open>Rounding an integer does not move it past a float of moderate size.\<close>

lemma i2f_compare:
  assumes "\<bar>q\<bar> < 16777215"
  shows i2f_less_iff: "fl_less (i2f y) (Fin q) \<longleftrightarrow> of_int y < q"
    and i2f_le_iff: "fl_le (i2f y) (Fin q) \<longleftrightarrow> of_int y \<le> q"
    and less_i2f_iff: "fl_less (Fin q) (i2f y) \<longleftrightarrow> q < of_int y"
    and le_i2f_iff: "fl_le (Fin q) (i2f y) \<longleftrightarrow> q \<le> of_int y"
proof -
  have q: "q < 16777215" "- 16777215 < q" using assms by linarith+
  have "(fl_less (i2f y) (Fin q) \<longleftrightarrow> of_int y < q) \<and> (fl_le (i2f y) (Fin q) \<longleftrightarrow> of_int y \<le> q) \<and>
    (fl_less (Fin q) (i2f y) \<longleftrightarrow> q < of_int y) \<and> (fl_le (Fin q) (i2f y) \<longleftrightarrow> q \<le> of_int y)"
  proof (cases rule: i2f_cases[of y])
    case 1
    then show ?thesis by simp
  next
    case 2
    have "of_int 16777215 \<le> (of_int y :: rat)" using 2(1) by (simp only: of_int_le_iff)
    then have "q < of_int y" using q(1) by simp
    then show ?thesis using 2(2) q by (cases "i2f y") auto
  next
    case 3
    have "of_int y \<le> (of_int (- 16777215) :: rat)" using 3(1) by (simp only: of_int_le_iff)
    then have "of_int y < q" using q(2) by simp
    then show ?thesis using 3(2) q by (cases "i2f y") auto
  qed
  then show "fl_less (i2f y) (Fin q) \<longleftrightarrow> of_int y < q" "fl_le (i2f y) (Fin q) \<longleftrightarrow> of_int y \<le> q"
    "fl_less (Fin q) (i2f y) \<longleftrightarrow> q < of_int y" "fl_le (Fin q) (i2f y) \<longleftrightarrow> q \<le> of_int y"
    by auto
qed

section \<open>NaN spreads\<close>

lemma fl_nan_simps [simp]:
  "fl_add r x NaN = NaN" "fl_mul r x NaN = NaN" "fl_sub r x NaN = NaN" "fl_sub r NaN x = NaN"
  by (cases x; simp add: fl_sub_def)+

section \<open>Relative error\<close>

lemma rne_error: "of_int (rne q) \<le> q + 1 / 2"
  unfolding rne_def Let_def by (auto split: if_splits) linarith+

lemma rnd32_rel_le:
  assumes q: "pow2 (- 126) \<le> q" and r: "rnd32 q = Fin r"
  shows "r \<le> q * (1 + 1 / 16777216)"
proof -
  have q0: "0 < q" using q pow2_pos[of "- 126"] by linarith
  have "- 126 \<le> ilog2 q" using ilog2_mono[OF _ q] ilog2_eqI[of "- 126" "pow2 (- 126)"] by (simp add: pow2_less)
  then have u: "max (ilog2 q - 23) (- 149) = ilog2 q - 23" by simp
  have rv: "r = of_int (rne (q / pow2 (ilog2 q - 23))) * pow2 (ilog2 q - 23)"
    using r q0 by (auto simp: rnd32_def rnd_def rnd_val_def Let_def u split: if_splits)
  also have "\<dots> \<le> (q / pow2 (ilog2 q - 23) + 1 / 2) * pow2 (ilog2 q - 23)"
    by (intro mult_right_mono rne_error) simp
  also have "\<dots> = q + pow2 (ilog2 q) / 16777216"
    by (simp add: field_simps pow2_diff) (simp add: pow2_def)
  also have "\<dots> \<le> q + q / 16777216" using ilog2_lower[OF q0] by simp
  finally show ?thesis by (simp add: algebra_simps)
qed

lemma rnd32_bracket:
  assumes "rnd32 a = Fin a" "rnd32 b = Fin b" "a \<le> q" "q \<le> b"
  shows "\<exists>r. rnd32 q = Fin r \<and> a \<le> r \<and> r \<le> b"
  using rnd32_mono[OF assms(3)] rnd32_mono[OF assms(4)] assms(1,2) by (cases "rnd32 q") auto

end
