(* ===== verification/Score_Sort.thy ===== *)
theory Score_Sort
  imports CFloat
begin

text \<open>
  \<open>quick_sort_indice_inverse\<close> of \<^verbatim>\<open>postprocess.cc\<close>: the in-place quicksort that orders
  the detections by descending score and carries the index vector along.  The partition loop is
  the code's two-hole scheme.  On scores that are numbers it always returns, stays inside the
  vectors and sorts; on a NaN pivot it does not return.
\<close>

section \<open>The code\<close>

text \<open>The two inner loops of the partition.\<close>

function qs_down :: "fl list \<Rightarrow> fl \<Rightarrow> int \<Rightarrow> int \<Rightarrow> int option" where
  "qs_down input key low high =
     (if low < high then
        do {
          v \<leftarrow> rd input high;
          if fl_le v key then qs_down input key low (high - 1) else Some high
        }
      else Some high)"
  by pat_completeness auto
termination
  by (relation "measure (\<lambda>(input, key, low, high). nat (high - low))") auto

function qs_up :: "fl list \<Rightarrow> fl \<Rightarrow> int \<Rightarrow> int \<Rightarrow> int option" where
  "qs_up input key low high =
     (if low < high then
        do {
          v \<leftarrow> rd input low;
          if fl_le key v then qs_up input key (low + 1) high else Some low
        }
      else Some low)"
  by pat_completeness auto
termination
  by (relation "measure (\<lambda>(input, key, low, high). nat (high - low))") auto

text \<open>The outer loop; it ends only when the two holes meet.\<close>

partial_function (option) qs_part ::
    "fl \<Rightarrow> fl list \<Rightarrow> int list \<Rightarrow> int \<Rightarrow> int \<Rightarrow> (fl list \<times> int list \<times> int) option" where
  "qs_part key input indices low high =
     (if low < high then
        do {
          high' \<leftarrow> qs_down input key low high;
          vh \<leftarrow> rd input high';
          input1 \<leftarrow> wr input low vh;
          ih \<leftarrow> rd indices high';
          indices1 \<leftarrow> wr indices low ih;
          low' \<leftarrow> qs_up input1 key low high';
          vl \<leftarrow> rd input1 low';
          input2 \<leftarrow> wr input1 high' vl;
          il \<leftarrow> rd indices1 low';
          indices2 \<leftarrow> wr indices1 high' il;
          qs_part key input2 indices2 low' high'
        }
      else Some (input, indices, low))"

partial_function (option) quick_sort_indice_inverse ::
    "fl list \<Rightarrow> int \<Rightarrow> int \<Rightarrow> int list \<Rightarrow> (fl list \<times> int list \<times> int) option" where
  "quick_sort_indice_inverse input left right indices =
     (if left < right then
        do {
          key_index \<leftarrow> rd indices left;
          key \<leftarrow> rd input left;
          (input1, indices1, low) \<leftarrow> qs_part key input indices left right;
          input2 \<leftarrow> wr input1 low key;
          indices2 \<leftarrow> wr indices1 low key_index;
          (input3, indices3, _) \<leftarrow> quick_sort_indice_inverse input2 left (low - 1) indices2;
          (input4, indices4, _) \<leftarrow> quick_sort_indice_inverse input3 (low + 1) right indices3;
          Some (input4, indices4, low)
        }
      else Some (input, indices, left))"

declare qs_down.simps [simp del] qs_up.simps [simp del]

section \<open>The inner loops\<close>

lemma qs_down_spec:
  assumes "low \<le> high" and "0 \<le> low" and "high < int (length input)"
  shows "\<exists>h. qs_down input key low high = Some h \<and> low \<le> h \<and> h \<le> high \<and>
    (\<forall>i. h < i \<and> i \<le> high \<longrightarrow> fl_le (input ! nat i) key) \<and>
    (h = low \<or> \<not> fl_le (input ! nat h) key)"
  using assms
proof (induction input key low high rule: qs_down.induct)
  case (1 input key low high)
  show ?case
  proof (cases "low < high \<and> fl_le (input ! nat high) key")
    case True
    then have v: "rd input high = Some (input ! nat high)" using "1.prems" by (simp add: rd_def)
    obtain h where "qs_down input key low (high - 1) = Some h" "low \<le> h" "h \<le> high - 1"
      "\<forall>i. h < i \<and> i \<le> high - 1 \<longrightarrow> fl_le (input ! nat i) key"
      "h = low \<or> \<not> fl_le (input ! nat h) key"
      using "1.IH"[OF _ v] True "1.prems" by auto
    moreover have "i \<le> high - 1 \<or> i = high" if "i \<le> high" for i using that by auto
    ultimately show ?thesis using True v by (subst qs_down.simps) (auto; metis)
  next
    case False
    then show ?thesis using "1.prems" by (subst qs_down.simps) (auto simp: rd_def)
  qed
qed

lemma qs_up_spec:
  assumes "low \<le> high" and "0 \<le> low" and "high < int (length input)"
  shows "\<exists>l. qs_up input key low high = Some l \<and> low \<le> l \<and> l \<le> high \<and>
    (\<forall>i. low \<le> i \<and> i < l \<longrightarrow> fl_le key (input ! nat i)) \<and>
    (l = high \<or> \<not> fl_le key (input ! nat l))"
  using assms
proof (induction input key low high rule: qs_up.induct)
  case (1 input key low high)
  show ?case
  proof (cases "low < high \<and> fl_le key (input ! nat low)")
    case True
    then have v: "rd input low = Some (input ! nat low)" using "1.prems" by (simp add: rd_def)
    obtain l where "qs_up input key (low + 1) high = Some l" "low + 1 \<le> l" "l \<le> high"
      "\<forall>i. low + 1 \<le> i \<and> i < l \<longrightarrow> fl_le key (input ! nat i)"
      "l = high \<or> \<not> fl_le key (input ! nat l)"
      using "1.IH"[OF _ v] True "1.prems" by auto
    moreover have "low + 1 \<le> i \<or> i = low" if "low \<le> i" for i using that by auto
    ultimately show ?thesis using True v by (subst qs_up.simps) (auto; metis)
  next
    case False
    then show ?thesis using "1.prems" by (subst qs_up.simps) (auto simp: rd_def)
  qed
qed

section \<open>Moving the hole\<close>

text \<open>
  The loop keeps one slot \<open>low\<close> whose content is saved in the pivot.  Copying slot
  \<open>j\<close> into the hole \<open>i\<close> moves the hole: with the pivot put back the multiset of
  (score, index) pairs is unchanged.
\<close>

lemma mset_move_hole:
  assumes "i < length xs" and "j < length xs"
  shows "mset (xs[i := xs ! j, j := v]) = mset (xs[i := v])"
proof (cases "i = j")
  case False
  have "mset ((xs[i := v])[j := (xs[i := v]) ! i, i := (xs[i := v]) ! j]) = mset (xs[i := v])"
    by (rule mset_swap) (use assms in simp_all)
  moreover have "(xs[i := v])[j := (xs[i := v]) ! i, i := (xs[i := v]) ! j] = xs[i := xs ! j, j := v]"
    by (rule nth_equalityI) (use assms False in \<open>auto simp: nth_list_update\<close>)
  ultimately show ?thesis by simp
qed simp

lemma mset_move_hole_zip:
  assumes "i < length xs" and "j < length xs" and "length ys = length xs"
  shows "mset ((zip (xs[i := xs ! j]) (ys[i := ys ! j]))[j := p]) = mset ((zip xs ys)[i := p])"
proof -
  have "zip (xs[i := xs ! j]) (ys[i := ys ! j]) = (zip xs ys)[i := zip xs ys ! j]"
    using assms by (simp add: zip_update)
  then show ?thesis using mset_move_hole[of i "zip xs ys" j p] assms by simp
qed

section \<open>The partition loop\<close>

text \<open>
  The invariant of the outer loop: the holes stay in the segment, everything left of
  \<open>low\<close> is at least the pivot, everything right of \<open>high\<close> at most, slots outside
  the segment are untouched, and the pairs are a permutation once the pivot is put back.
\<close>

definition part_inv ::
    "fl list \<Rightarrow> int list \<Rightarrow> int \<Rightarrow> int \<Rightarrow> fl \<Rightarrow> int \<Rightarrow> fl list \<Rightarrow> int list \<Rightarrow> int \<Rightarrow> int \<Rightarrow> bool" where
  "part_inv input0 indices0 left right key kidx input indices low high \<longleftrightarrow>
     length input = length input0 \<and> length indices = length input0 \<and>
     0 \<le> left \<and> left \<le> low \<and> low \<le> high \<and> high \<le> right \<and> right < int (length input0) \<and>
     NaN \<notin> set input \<and>
     mset ((zip input indices)[nat low := (key, kidx)]) = mset (zip input0 indices0) \<and>
     (\<forall>i. left \<le> i \<and> i < low \<longrightarrow> fl_le key (input ! nat i)) \<and>
     (\<forall>i. high < i \<and> i \<le> right \<longrightarrow> fl_le (input ! nat i) key) \<and>
     (\<forall>i. 0 \<le> i \<and> (i < left \<or> right < i) \<longrightarrow>
        input ! nat i = input0 ! nat i \<and> indices ! nat i = indices0 ! nat i)"

lemma nan_not_in_update: "NaN \<notin> set xs \<Longrightarrow> v \<noteq> NaN \<Longrightarrow> NaN \<notin> set (xs[i := v])"
  using set_update_subset_insert[of xs i v] by auto

lemma part_inv_down:
  assumes inv: "part_inv input0 indices0 left right key kidx input indices low high"
    and h: "low \<le> h" "h \<le> high"
    and le: "\<forall>i. h < i \<and> i \<le> high \<longrightarrow> fl_le (input ! nat i) key"
    and stop: "h = low \<or> \<not> fl_le (input ! nat h) key" and key: "key \<noteq> NaN"
  defines "input1 \<equiv> input[nat low := input ! nat h]"
    and "indices1 \<equiv> indices[nat low := indices ! nat h]"
  shows "length input1 = length input0" "length indices1 = length input0" "NaN \<notin> set input1"
    "mset ((zip input1 indices1)[nat h := (key, kidx)]) = mset (zip input0 indices0)"
    "\<forall>i. left \<le> i \<and> i < low \<longrightarrow> fl_le key (input1 ! nat i)"
    "\<forall>i. h < i \<and> i \<le> right \<longrightarrow> fl_le (input1 ! nat i) key"
    "\<forall>i. 0 \<le> i \<and> (i < left \<or> right < i) \<longrightarrow>
        input1 ! nat i = input0 ! nat i \<and> indices1 ! nat i = indices0 ! nat i"
    "low < h \<longrightarrow> fl_le key (input1 ! nat low)"
proof -
  note d = inv[unfolded part_inv_def]
  have nn: "input ! nat h \<noteq> NaN" using d h by (metis nth_mem nat_less_iff order_le_less_trans order_trans)
  show "length input1 = length input0" "length indices1 = length input0"
    using d by (auto simp: input1_def indices1_def)
  show "NaN \<notin> set input1" unfolding input1_def using d nn by (intro nan_not_in_update) auto
  show "mset ((zip input1 indices1)[nat h := (key, kidx)]) = mset (zip input0 indices0)"
    unfolding input1_def indices1_def using d h by (subst mset_move_hole_zip) auto
  show "\<forall>i. left \<le> i \<and> i < low \<longrightarrow> fl_le key (input1 ! nat i)"
    using d by (auto simp: input1_def nth_list_update)
  have "fl_le (input ! nat i) key" if "h < i" "i \<le> right" for i
    using that le d by (cases "i \<le> high") auto
  then show "\<forall>i. h < i \<and> i \<le> right \<longrightarrow> fl_le (input1 ! nat i) key"
    using d h by (auto simp: input1_def nth_list_update)
  show "\<forall>i. 0 \<le> i \<and> (i < left \<or> right < i) \<longrightarrow>
        input1 ! nat i = input0 ! nat i \<and> indices1 ! nat i = indices0 ! nat i"
    using d by (auto simp: input1_def indices1_def nth_list_update)
  show "low < h \<longrightarrow> fl_le key (input1 ! nat low)"
    using d h stop nn key by (auto simp: input1_def fl_not_le dest: fl_less_imp_le)
qed

lemma part_inv_step:
  assumes inv: "part_inv input0 indices0 left right key kidx input indices low high"
    and lt: "low < high" and key: "key \<noteq> NaN"
  shows "\<exists>input' indices' low' high'.
    part_inv input0 indices0 left right key kidx input' indices' low' high' \<and>
    high' - low' < high - low \<and>
    qs_part key input indices low high = qs_part key input' indices' low' high'"
proof -
  note d = inv[unfolded part_inv_def]
  obtain h where h: "qs_down input key low high = Some h" "low \<le> h" "h \<le> high"
    "\<forall>i. h < i \<and> i \<le> high \<longrightarrow> fl_le (input ! nat i) key"
    "h = low \<or> \<not> fl_le (input ! nat h) key"
    using qs_down_spec[of low high input key] d by auto
  define input1 where "input1 = input[nat low := input ! nat h]"
  define indices1 where "indices1 = indices[nat low := indices ! nat h]"
  note s1 = part_inv_down[OF inv h(2,3,4,5) key, folded input1_def indices1_def]
  obtain l where l: "qs_up input1 key low h = Some l" "low \<le> l" "l \<le> h"
    "\<forall>i. low \<le> i \<and> i < l \<longrightarrow> fl_le key (input1 ! nat i)"
    "l = h \<or> \<not> fl_le key (input1 ! nat l)"
    using qs_up_spec[of low h input1 key] d h s1(1) by auto
  define input2 where "input2 = input1[nat h := input1 ! nat l]"
  define indices2 where "indices2 = indices1[nat h := indices1 ! nat l]"
  have bounds: "0 \<le> low" "h < int (length input1)" using d h s1(1) by auto
  have il: "input1 ! nat l \<noteq> NaN"
    using s1(3) l bounds by (metis nth_mem nat_less_iff order_le_less_trans order_trans)
  have prog: "h - l < high - low"
  proof (cases "h = low")
    case True
    then show ?thesis using l lt by auto
  next
    case False
    then have "fl_le key (input1 ! nat low)" using s1(8) h by auto
    then have "l \<noteq> low" using l False by auto
    then show ?thesis using h l by auto
  qed
  have "part_inv input0 indices0 left right key kidx input2 indices2 l h"
    unfolding part_inv_def
  proof (intro conjI)
    show "mset ((zip input2 indices2)[nat l := (key, kidx)]) = mset (zip input0 indices0)"
      unfolding input2_def indices2_def using s1 bounds l by (subst mset_move_hole_zip) auto
    show "NaN \<notin> set input2" unfolding input2_def using s1 il by (intro nan_not_in_update)
    have "fl_le key (input1 ! nat i)" if "left \<le> i" "i < l" for i
      using that s1(5) l(4) by (cases "i < low") auto
    then show "\<forall>i. left \<le> i \<and> i < l \<longrightarrow> fl_le key (input2 ! nat i)"
      using l d by (auto simp: input2_def nth_list_update)
    show "\<forall>i. h < i \<and> i \<le> right \<longrightarrow> fl_le (input2 ! nat i) key"
      using s1(6) d h by (auto simp: input2_def nth_list_update)
    show "\<forall>i. 0 \<le> i \<and> (i < left \<or> right < i) \<longrightarrow>
        input2 ! nat i = input0 ! nat i \<and> indices2 ! nat i = indices0 ! nat i"
      using s1(7) d h by (auto simp: input2_def indices2_def nth_list_update)
  qed (use d h l s1 in \<open>auto simp: input2_def indices2_def\<close>)
  moreover have "qs_part key input indices low high = qs_part key input2 indices2 l h"
    using lt d h(1-3) l(1-3) s1(1,2)
    by (subst qs_part.simps)
       (simp add: rd_Some wr_Some input1_def[symmetric] indices1_def[symmetric]
         input2_def[symmetric] indices2_def[symmetric])
  ultimately show ?thesis using prog by blast
qed

lemma qs_part_spec:
  assumes "part_inv input0 indices0 left right key kidx input indices low high" and "key \<noteq> NaN"
  shows "\<exists>input' indices' low'. qs_part key input indices low high = Some (input', indices', low') \<and>
    part_inv input0 indices0 left right key kidx input' indices' low' low'"
  using assms(1)
proof (induction "nat (high - low)" arbitrary: input indices low high rule: less_induct)
  case less
  show ?case
  proof (cases "low < high")
    case False
    then have "high = low" using less.prems by (auto simp: part_inv_def)
    then show ?thesis using less.prems by (subst qs_part.simps) auto
  next
    case True
    obtain input' indices' low' high' where
      s: "part_inv input0 indices0 left right key kidx input' indices' low' high'"
        "high' - low' < high - low"
        "qs_part key input indices low high = qs_part key input' indices' low' high'"
      using part_inv_step[OF less.prems True assms(2)] by blast
    show ?thesis using less.hyps[OF _ s(1)] s(2) True unfolding s(3) by auto
  qed
qed

section \<open>The sort\<close>

text \<open>
  What the sort promises of a segment: a permutation of the (score, index) pairs that touches
  nothing outside the segment and leaves the scores of the segment in descending order.
\<close>

definition descending_on :: "fl list \<Rightarrow> int \<Rightarrow> int \<Rightarrow> bool" where
  "descending_on xs left right \<longleftrightarrow>
     (\<forall>i j. left \<le> i \<and> i \<le> j \<and> j \<le> right \<longrightarrow> fl_le (xs ! nat j) (xs ! nat i))"

definition same_outside :: "int \<Rightarrow> int \<Rightarrow> 'a list \<Rightarrow> 'a list \<Rightarrow> bool" where
  "same_outside left right xs ys \<longleftrightarrow>
     length ys = length xs \<and> (\<forall>i. 0 \<le> i \<and> (i < left \<or> right < i) \<longrightarrow> ys ! nat i = xs ! nat i)"

definition seg_sorted ::
    "fl list \<Rightarrow> int list \<Rightarrow> int \<Rightarrow> int \<Rightarrow> fl list \<Rightarrow> int list \<Rightarrow> bool" where
  "seg_sorted input indices left right input' indices' \<longleftrightarrow>
     mset (zip input' indices') = mset (zip input indices) \<and>
     same_outside left right input input' \<and> same_outside left right indices indices' \<and>
     descending_on input' left right"

lemma same_outside_refl [simp]: "same_outside left right xs xs"
  by (simp add: same_outside_def)

lemma same_outside_weaken:
  "same_outside l r xs ys \<Longrightarrow> left \<le> l \<Longrightarrow> r \<le> right \<Longrightarrow> same_outside left right xs ys"
  by (auto simp: same_outside_def)

lemma same_outside_trans:
  "same_outside l r xs ys \<Longrightarrow> same_outside l r ys zs \<Longrightarrow> same_outside l r xs zs"
  by (auto simp: same_outside_def)

lemma same_outside_nth:
  "same_outside l r xs ys \<Longrightarrow> 0 \<le> i \<Longrightarrow> i < l \<or> r < i \<Longrightarrow> ys ! nat i = xs ! nat i"
  by (auto simp: same_outside_def)

lemma same_outside_join:
  assumes "left \<le> m" "m \<le> right" "same_outside left (m - 1) xs ys" "same_outside (m + 1) right ys zs"
  shows "same_outside left right xs zs"
  using same_outside_weaken[OF assms(3), of left right] same_outside_weaken[OF assms(4), of left right]
    assms(1,2) by (auto intro: same_outside_trans)

text \<open>A permutation that is the identity outside a segment permutes the segment.\<close>

lemma segment_permuted:
  assumes m: "mset ys = mset xs" and f: "same_outside l r xs ys"
    and l: "0 \<le> l" and i: "l \<le> i" "i \<le> r" "i < int (length ys)"
  shows "\<exists>j. l \<le> j \<and> j \<le> r \<and> j < int (length xs) \<and> ys ! nat i = xs ! nat j"
proof -
  define a where "a = nat l"
  define k where "k = nat (r + 1) - a"
  define seg where "seg zs = take k (drop a zs)" for zs :: "'a list"
  have len: "length ys = length xs" using f by (simp add: same_outside_def)
  have split: "zs = take a zs @ seg zs @ drop (a + k) zs" for zs
    using append_take_drop_id[of k "drop a zs"] by (simp add: seg_def add.commute)
  have t: "take a ys = take a xs"
  proof (rule nth_equalityI)
    fix n assume n: "n < length (take a ys)"
    then have "int n < l" using l by (simp add: a_def zless_nat_eq_int_zless)
    then show "take a ys ! n = take a xs ! n"
      using same_outside_nth[OF f, of "int n"] n by simp
  qed (simp add: len)
  have d: "drop (a + k) ys = drop (a + k) xs"
  proof (rule nth_equalityI)
    fix n assume n: "n < length (drop (a + k) ys)"
    have "r < int (a + k + n)" using i l by (auto simp: a_def k_def)
    then have "ys ! (a + k + n) = xs ! (a + k + n)"
      using same_outside_nth[OF f, of "int (a + k + n)"] unfolding nat_int
      by (metis of_nat_0_le_iff)
    then show "drop (a + k) ys ! n = drop (a + k) xs ! n" using n len by simp
  qed (simp add: len)
  have "mset (take a ys) + mset (seg ys) + mset (drop (a + k) ys) =
      mset (take a xs) + mset (seg xs) + mset (drop (a + k) xs)"
    using m split[of ys] split[of xs] by (metis mset_append union_assoc)
  then have "set (seg ys) = set (seg xs)" unfolding t d by (metis add_left_cancel add_right_cancel mset_eq_setD)
  moreover have "ys ! nat i \<in> set (seg ys)"
  proof -
    have "nat i - a < length (seg ys)" using i l by (auto simp: seg_def a_def k_def)
    moreover have "seg ys ! (nat i - a) = ys ! nat i" using i l by (auto simp: seg_def a_def k_def)
    ultimately show ?thesis by (metis nth_mem)
  qed
  ultimately obtain n where n: "n < length (seg xs)" "ys ! nat i = seg xs ! n"
    by (metis in_set_conv_nth)
  then have "ys ! nat i = xs ! nat (l + int n)" "n < k" "l + int n < int (length xs)"
    using l by (auto simp: seg_def a_def nat_add_distrib)
  then show ?thesis by (intro exI[of _ "l + int n"]) (auto simp: k_def a_def)
qed

lemma mset_zip_fst:
  assumes "mset (zip xs ys) = mset (zip xs' ys')" and "length ys = length xs" "length ys' = length xs'"
  shows "mset xs = mset xs'"
proof -
  have "mset (map fst (zip xs ys)) = mset (map fst (zip xs' ys'))" using assms(1) by (simp add: mset_map)
  then show ?thesis using assms by simp
qed

text \<open>Two sorted halves around the pivot are a sorted segment.\<close>

lemma descending_join:
  assumes "descending_on xs left (m - 1)" and "descending_on xs (m + 1) right"
    and "\<And>i. left \<le> i \<Longrightarrow> i < m \<Longrightarrow> fl_le key (xs ! nat i)" and "xs ! nat m = key"
    and "\<And>i. m < i \<Longrightarrow> i \<le> right \<Longrightarrow> fl_le (xs ! nat i) key" and "key \<noteq> NaN"
  shows "descending_on xs left right"
  unfolding descending_on_def
proof (intro allI impI)
  fix i j assume ij: "left \<le> i \<and> i \<le> j \<and> j \<le> right"
  have up: "fl_le key (xs ! nat i)" if "i \<le> m" using assms(3,4,6) ij that by (cases "i = m") auto
  have lo: "fl_le (xs ! nat j) key" if "m \<le> j" using assms(4,5,6) ij that by (cases "j = m") auto
  consider "j < m" | "m < i" | "i \<le> m" "m \<le> j" by linarith
  then show "fl_le (xs ! nat j) (xs ! nat i)"
  proof cases
    case 1
    then show ?thesis using assms(1) ij by (auto simp: descending_on_def)
  next
    case 2
    then show ?thesis using assms(2) ij by (auto simp: descending_on_def)
  next
    case 3
    then show ?thesis using up lo by (blast intro: fl_le_trans)
  qed
qed

text \<open>The partition step with the pivot put back.\<close>

lemma partition_spec:
  assumes lr: "left < right" "0 \<le> left" "right < int (length input)"
    and len: "length indices = length input" and nan: "NaN \<notin> set input"
  defines "key \<equiv> input ! nat left"
  obtains input1 indices1 m where
    "qs_part key input indices left right = Some (input1, indices1, m)" "left \<le> m" "m \<le> right"
    "length input1 = length input" "length indices1 = length input"
    "same_outside left right input (input1[nat m := key])"
    "same_outside left right indices (indices1[nat m := indices ! nat left])"
    "mset (zip (input1[nat m := key]) (indices1[nat m := indices ! nat left])) = mset (zip input indices)"
    "\<And>i. left \<le> i \<Longrightarrow> i < m \<Longrightarrow> fl_le key (input1[nat m := key] ! nat i)"
    "\<And>i. m < i \<Longrightarrow> i \<le> right \<Longrightarrow> fl_le (input1[nat m := key] ! nat i) key"
proof -
  have key: "key \<noteq> NaN" using nan lr unfolding key_def by (metis nth_mem nat_less_iff order_less_trans)
  have "(zip input indices)[nat left := (key, indices ! nat left)] = zip input indices"
    using lr len list_update_id[of "zip input indices" "nat left"] by (simp add: key_def)
  then have "part_inv input indices left right key (indices ! nat left) input indices left right"
    using lr len nan by (auto simp: part_inv_def)
  from qs_part_spec[OF this key] obtain input1 indices1 m where
    r: "qs_part key input indices left right = Some (input1, indices1, m)"
    and inv: "part_inv input indices left right key (indices ! nat left) input1 indices1 m m"
    by blast
  note d = inv[unfolded part_inv_def]
  show thesis
  proof (rule that[OF r])
    show "mset (zip (input1[nat m := key]) (indices1[nat m := indices ! nat left])) = mset (zip input indices)"
      using d by (simp add: zip_update)
    show "fl_le key (input1[nat m := key] ! nat i)" if "left \<le> i" "i < m" for i
      using d that by (auto simp: nth_list_update)
    show "fl_le (input1[nat m := key] ! nat i) key" if "m < i" "i \<le> right" for i
      using d that by (auto simp: nth_list_update)
  qed (use d len in \<open>auto simp: same_outside_def nth_list_update\<close>)
qed

lemma seg_sorted_length:
  "seg_sorted input indices l r input' indices' \<Longrightarrow>
     length input' = length input \<and> length indices' = length indices"
  by (auto simp: seg_sorted_def same_outside_def)

lemma seg_sorted_mset:
  "seg_sorted input indices l r input' indices' \<Longrightarrow> length indices = length input \<Longrightarrow>
     mset input' = mset input"
  using seg_sorted_length[of input indices l r input' indices']
  by (intro mset_zip_fst[of input' indices' input indices]) (auto simp: seg_sorted_def)

lemma seg_sorted_nan:
  "seg_sorted input indices l r input' indices' \<Longrightarrow> length indices = length input \<Longrightarrow>
     NaN \<notin> set input \<Longrightarrow> NaN \<notin> set input'"
  using seg_sorted_mset by (metis mset_eq_setD)

text \<open>Sorting both sides of a partitioned segment sorts the segment.\<close>

lemma seg_sorted_compose:
  assumes lm: "0 \<le> left" "left \<le> m" "m \<le> right" "right < int (length input)"
    and len: "length indices = length input" and key: "key \<noteq> NaN" "input ! nat m = key"
    and ge: "\<And>i. left \<le> i \<Longrightarrow> i < m \<Longrightarrow> fl_le key (input ! nat i)"
    and le: "\<And>i. m < i \<Longrightarrow> i \<le> right \<Longrightarrow> fl_le (input ! nat i) key"
    and s1: "seg_sorted input indices left (m - 1) input1 indices1"
    and s2: "seg_sorted input1 indices1 (m + 1) right input2 indices2"
  shows "seg_sorted input indices left right input2 indices2"
proof -
  note d1 = s1[unfolded seg_sorted_def] and d2 = s2[unfolded seg_sorted_def]
  have len1: "length input1 = length input" "length indices1 = length input"
    and len2: "length input2 = length input"
    using seg_sorted_length[OF s1] seg_sorted_length[OF s2] len by auto
  have m1: "mset input1 = mset input" and m2: "mset input2 = mset input1"
    using seg_sorted_mset[OF s1] seg_sorted_mset[OF s2] len len1 by auto
  have low: "input2 ! nat i = input1 ! nat i" if "0 \<le> i" "i \<le> m" for i
    using d2 that by (auto intro!: same_outside_nth)
  have "descending_on input2 left right"
  proof (rule descending_join[where m = m and key = key])
    show "descending_on input2 left (m - 1)" using d1 lm(1) by (auto simp: descending_on_def low)
    show "descending_on input2 (m + 1) right" using d2 by simp
    show "fl_le key (input2 ! nat i)" if i: "left \<le> i" "i < m" for i
    proof -
      obtain j where "left \<le> j" "j \<le> m - 1" "input1 ! nat i = input ! nat j"
        using segment_permuted[OF m1, of left "m - 1" i] d1 i lm len1 by auto
      then show ?thesis using ge[of j] i lm(1) by (simp add: low)
    qed
    show "input2 ! nat m = key"
      using same_outside_nth[of left "m - 1" input input1 m] d1 lm key(2) by (simp add: low)
    show "fl_le (input2 ! nat i) key" if i: "m < i" "i \<le> right" for i
    proof -
      obtain j where j: "m + 1 \<le> j" "j \<le> right" "input2 ! nat i = input1 ! nat j"
        using segment_permuted[OF m2, of "m + 1" right i] d2 i lm len2 by auto
      then have "input1 ! nat j = input ! nat j"
        using d1 lm by (intro same_outside_nth[of left "m - 1"]) auto
      then show ?thesis using le[of j] j by simp
    qed
  qed (rule key(1))
  moreover have "same_outside left right input input2" "same_outside left right indices indices2"
    using d1 d2 lm by (auto intro: same_outside_join[of left m right])
  ultimately show ?thesis using d1 d2 by (simp add: seg_sorted_def)
qed

lemma seg_sorted_single:
  assumes "right \<le> left" "0 \<le> left" "right < int (length input)" "NaN \<notin> set input"
  shows "seg_sorted input indices left right input indices"
proof -
  have "fl_le (input ! nat j) (input ! nat i)" if ij: "left \<le> i \<and> i \<le> j \<and> j \<le> right" for i j
  proof -
    have "i = j" "nat i < length input" using ij assms by auto
    then show ?thesis using assms(4) by (metis fl_le_refl nth_mem)
  qed
  then show ?thesis by (simp add: seg_sorted_def descending_on_def)
qed

lemma quick_sort_spec:
  assumes "0 \<le> left" "right < int (length input)" "length indices = length input" "NaN \<notin> set input"
  shows "\<exists>input' indices' low.
    quick_sort_indice_inverse input left right indices = Some (input', indices', low) \<and>
    seg_sorted input indices left right input' indices'"
  using assms
proof (induction "nat (right - left)" arbitrary: input indices left right rule: less_induct)
  case less
  show ?case
  proof (cases "left < right")
    case False
    then show ?thesis using seg_sorted_single less.prems
      by (subst quick_sort_indice_inverse.simps) auto
  next
    case True
    define key where "key = input ! nat left"
    have key: "key \<noteq> NaN"
      using less.prems True unfolding key_def by (metis nth_mem nat_less_iff order_less_trans)
    obtain input1 indices1 m where p:
      "qs_part key input indices left right = Some (input1, indices1, m)" "left \<le> m" "m \<le> right"
      "length input1 = length input" "length indices1 = length input"
      "same_outside left right input (input1[nat m := key])"
      "same_outside left right indices (indices1[nat m := indices ! nat left])"
      "mset (zip (input1[nat m := key]) (indices1[nat m := indices ! nat left])) = mset (zip input indices)"
      "\<And>i. left \<le> i \<Longrightarrow> i < m \<Longrightarrow> fl_le key (input1[nat m := key] ! nat i)"
      "\<And>i. m < i \<Longrightarrow> i \<le> right \<Longrightarrow> fl_le (input1[nat m := key] ! nat i) key"
      using partition_spec[OF True less.prems] unfolding key_def by metis
    define input2 where "input2 = input1[nat m := key]"
    define indices2 where "indices2 = indices1[nat m := indices ! nat left]"
    note p2 = p(6-10)[folded input2_def indices2_def]
    have len2: "length input2 = length input" "length indices2 = length input"
      using p by (simp_all add: input2_def indices2_def)
    have "mset input2 = mset input"
      using mset_zip_fst[OF p2(3)] len2 less.prems(3) by simp
    then have nan2: "NaN \<notin> set input2" using less.prems(4) by (metis mset_eq_setD)
    obtain input3 indices3 l3 where s3:
      "quick_sort_indice_inverse input2 left (m - 1) indices2 = Some (input3, indices3, l3)"
      "seg_sorted input2 indices2 left (m - 1) input3 indices3"
      using less.hyps[of "m - 1" left input2 indices2] less.prems p(2,3) True len2 nan2 by auto
    have len3: "length input3 = length input" "length indices3 = length input"
      and nan3: "NaN \<notin> set input3"
      using seg_sorted_length[OF s3(2)] seg_sorted_nan[OF s3(2)] len2 nan2 by auto
    obtain input4 indices4 l4 where s4:
      "quick_sort_indice_inverse input3 (m + 1) right indices3 = Some (input4, indices4, l4)"
      "seg_sorted input3 indices3 (m + 1) right input4 indices4"
      using less.hyps[of right "m + 1" input3 indices3] less.prems p(2,3) True len3 nan3 by auto
    have "seg_sorted input2 indices2 left right input4 indices4"
      by (rule seg_sorted_compose[OF _ _ _ _ _ key _ p2(4,5) s3(2) s4(2)])
         (use less.prems p(1-5) len2 in \<open>auto simp: input2_def\<close>)
    then have "seg_sorted input indices left right input4 indices4"
      using p2(1-3) by (auto simp: seg_sorted_def intro: same_outside_trans)
    moreover have "quick_sort_indice_inverse input left right indices = Some (input4, indices4, m)"
      using True less.prems p(1-5) s3(1) s4(1)
      by (subst quick_sort_indice_inverse.simps)
         (simp add: rd_Some wr_Some key_def[symmetric] input2_def[symmetric] indices2_def[symmetric])
    ultimately show ?thesis by blast
  qed
qed

section \<open>A pivot that is not a number\<close>

text \<open>
  With a NaN pivot both inner loops stop at once, the two holes never meet, and the second
  iteration starts from the state of the first: the loop does not return.
\<close>

lemma qs_stuck:
  assumes "low < high"
  shows "0 \<le> high \<Longrightarrow> high < int (length input) \<Longrightarrow> qs_down input NaN low high = Some high"
    and "0 \<le> low \<Longrightarrow> low < int (length input) \<Longrightarrow> qs_up input NaN low high = Some low"
  using assms by (subst qs_down.simps qs_up.simps; simp add: rd_Some)+

lemma qs_part_nan:
  assumes "low < high" "0 \<le> low" "high < int (length input)" "length indices = length input"
  shows "qs_part NaN input indices low high = None"
proof (rule ccontr)
  assume "qs_part NaN input indices low high \<noteq> None"
  then obtain r where ret: "qs_part NaN input indices low high = Some r" by auto
  let ?P = "\<lambda>key input indices low high (r :: fl list \<times> int list \<times> int).
    \<not> (key = NaN \<and> low < high \<and> 0 \<le> low \<and> high < int (length input) \<and>
       length indices = length input)"
  have "?P NaN input indices low high r"
  proof (rule qs_part.raw_induct[where P = ?P, OF _ ret], rule notI)
    fix f key and input :: "fl list" and indices :: "int list" and low high r
    assume IH: "\<And>key input indices low high r. f key input indices low high = Some r \<Longrightarrow>
        ?P key input indices low high r"
      and eq: "(if low < high then
        do {
          high' \<leftarrow> qs_down input key low high;
          vh \<leftarrow> rd input high';
          input1 \<leftarrow> wr input low vh;
          ih \<leftarrow> rd indices high';
          indices1 \<leftarrow> wr indices low ih;
          low' \<leftarrow> qs_up input1 key low high';
          vl \<leftarrow> rd input1 low';
          input2 \<leftarrow> wr input1 high' vl;
          il \<leftarrow> rd indices1 low';
          indices2 \<leftarrow> wr indices1 high' il;
          f key input2 indices2 low' high'
        }
      else Some (input, indices, low)) = Some r"
      and h: "key = NaN \<and> low < high \<and> 0 \<le> low \<and> high < int (length input) \<and>
        length indices = length input"
    from eq h show False
      by (simp add: qs_stuck rd_Some wr_Some) (drule IH, simp)
  qed
  then show False using assms by simp
qed

lemma sort_total:
  assumes "NaN \<notin> set scores" and "length indices = length scores"
  shows "\<exists>scores' indices' low.
    quick_sort_indice_inverse scores 0 (int (length scores) - 1) indices = Some (scores', indices', low) \<and>
    mset (zip scores' indices') = mset (zip scores indices) \<and> length indices' = length scores' \<and>
    (\<forall>i j. i \<le> j \<and> j < length scores' \<longrightarrow> fl_le (scores' ! j) (scores' ! i))"
proof -
  obtain s' i' low where q:
    "quick_sort_indice_inverse scores 0 (int (length scores) - 1) indices = Some (s', i', low)"
    "seg_sorted scores indices 0 (int (length scores) - 1) s' i'"
    using quick_sort_spec[of 0 "int (length scores) - 1" scores indices] assms by auto
  have "fl_le (s' ! j) (s' ! i)" if "i \<le> j" "j < length s'" for i j
  proof -
    have "int j \<le> int (length scores) - 1"
      using that seg_sorted_length[OF q(2)] by linarith
    then show ?thesis
      using q(2) that unfolding seg_sorted_def descending_on_def by (metis nat_int of_nat_0_le_iff of_nat_le_iff)
  qed
  then show ?thesis using q seg_sorted_length[OF q(2)] assms(2) by (auto simp: seg_sorted_def)
qed

section \<open>The interface the pipeline uses\<close>

text \<open>
  What \<open>post_process\<close> needs of a sorter of scores with an index vector, and what follows
  when the index vector starts as 0, 1, 2, ...
\<close>

locale score_sorter =
  fixes sorter :: "fl list \<Rightarrow> int list \<Rightarrow> (fl list \<times> int list \<times> int) option"
  assumes sorts: "NaN \<notin> set scores \<Longrightarrow> length indices = length scores \<Longrightarrow>
    \<exists>scores' indices' low. sorter scores indices = Some (scores', indices', low) \<and>
      mset (zip scores' indices') = mset (zip scores indices) \<and> length indices' = length scores' \<and>
      (\<forall>i j. i \<le> j \<and> j < length scores' \<longrightarrow> fl_le (scores' ! j) (scores' ! i))"
begin

lemma sort_iota:
  assumes "NaN \<notin> set scores"
  shows "\<exists>scores' indices' low.
    sorter scores (map int [0..<length scores]) = Some (scores', indices', low) \<and>
    length scores' = length scores \<and> length indices' = length scores \<and>
    mset indices' = mset (map int [0..<length scores]) \<and>
    (\<forall>k < length scores. scores' ! k = scores ! nat (indices' ! k)) \<and>
    (\<forall>i j. i \<le> j \<and> j < length scores \<longrightarrow> fl_le (scores' ! j) (scores' ! i))"
proof -
  let ?n = "length scores" and ?ix = "map int [0..<length scores]"
  obtain s' i' low where s: "sorter scores ?ix = Some (s', i', low)"
    "mset (zip s' i') = mset (zip scores ?ix)" "length i' = length s'"
    "\<And>i j. i \<le> j \<Longrightarrow> j < length s' \<Longrightarrow> fl_le (s' ! j) (s' ! i)"
    using sorts[OF assms, of ?ix] by auto
  have len: "length s' = ?n"
    using arg_cong[OF s(2), of size] s(3) by simp
  have "image_mset snd (mset (zip s' i')) = image_mset snd (mset (zip scores ?ix))"
    using s(2) by simp
  then have perm: "mset i' = mset ?ix"
    using s(3) unfolding mset_map[symmetric] by simp
  have "s' ! k = scores ! nat (i' ! k)" if "k < ?n" for k
  proof -
    have "(s' ! k, i' ! k) \<in> set (zip s' i')"
      using that len s(3) by (auto simp: in_set_conv_nth intro!: exI[of _ k])
    also have "set (zip s' i') = set (zip scores ?ix)" using s(2) by (rule mset_eq_setD)
    finally show ?thesis by (auto simp: in_set_conv_nth) (metis nat_int)
  qed
  then show ?thesis using s(1,3,4) len perm by auto
qed

end

interpretation qs: score_sorter
  "\<lambda>scores indices. quick_sort_indice_inverse scores 0 (int (length scores) - 1) indices"
  by unfold_locales (rule sort_total)

section \<open>Properties\<close>

text \<open>
  C4. On scores that are numbers the sort always returns, without an access outside the vectors:
  the scores end in descending order, and the (score, index) pairs are a permutation of the
  input pairs, so every score still travels with the index of its detection.
\<close>

theorem sort_correct:
  assumes "NaN \<notin> set scores" and "length indices = length scores"
  shows "\<exists>scores' indices' low.
    quick_sort_indice_inverse scores 0 (int (length scores) - 1) indices = Some (scores', indices', low) \<and>
    mset (zip scores' indices') = mset (zip scores indices) \<and> length indices' = length scores' \<and>
    (\<forall>i j. i \<le> j \<and> j < length scores' \<longrightarrow> fl_le (scores' ! j) (scores' ! i))"
  by (rule qs.sorts[OF assms])

theorem sort_correct_witness:
  "\<exists>scores' indices' low.
    quick_sort_indice_inverse [Fin (1/4), Fin (3/4), Fin (1/2)] 0
      (int (length [Fin (1/4), Fin (3/4), Fin (1/2)]) - 1) [0, 1, 2] = Some (scores', indices', low) \<and>
    mset (zip scores' indices') = mset (zip [Fin (1/4), Fin (3/4), Fin (1/2)] [0, 1, 2]) \<and>
    length indices' = length scores' \<and>
    (\<forall>i j. i \<le> j \<and> j < length scores' \<longrightarrow> fl_le (scores' ! j) (scores' ! i))"
  by (rule sort_correct) simp_all

text \<open>
  C33. The exactness of that precondition: a NaN score in the pivot position of a segment of at
  least two detections makes the sort loop for ever.
\<close>

theorem sort_hangs_on_nan:
  assumes "left < right" and "0 \<le> left" and "right < int (length scores)"
    and "length indices = length scores" and "scores ! nat left = NaN"
  shows "quick_sort_indice_inverse scores left right indices = None"
  using assms qs_part_nan[of left right scores indices]
  by (subst quick_sort_indice_inverse.simps) (simp add: rd_Some)

theorem sort_hangs_on_nan_witness:
  "quick_sort_indice_inverse [NaN, Fin 1] 0 1 [0, 1] = None"
  by (rule sort_hangs_on_nan) simp_all

end
