(* ===== verification/Yolo_Decode.thy ===== *)
theory Yolo_Decode
  imports CFloat
begin

text \<open>
  The tensor decoding of \<^verbatim>\<open>postprocess.cc\<close>: affine quantisation and the three
  \<open>process\<close> functions that turn a YOLOv5 output grid into candidate boxes, scores and
  class numbers.  The int8 tensor is a list of integers in -128..127, the float tensor a list of
  \<open>fl\<close>; the \<open>std::vector\<close>s the functions append to are lists.
\<close>

definition OBJ_CLASS_NUM :: int where "OBJ_CLASS_NUM = 80"
definition OBJ_NUMB_MAX_SIZE :: int where "OBJ_NUMB_MAX_SIZE = 128"
definition PROP_BOX_SIZE :: int where "PROP_BOX_SIZE = 5 + OBJ_CLASS_NUM"

definition anchors :: "int list list" where
  "anchors = [[10, 13, 16, 30, 33, 23], [30, 61, 62, 45, 59, 119], [116, 90, 156, 198, 373, 326]]"

section \<open>Clamping and quantisation\<close>

text \<open>\<open>clamp\<close>: the result of the conditional is a \<open>float\<close>, converted back by the return.\<close>

definition clamp :: "fl \<Rightarrow> int \<Rightarrow> int \<Rightarrow> int option" where
  "clamp val mn mx =
     f2i (if fl_less (i2f mn) val then (if fl_less val (i2f mx) then val else i2f mx) else i2f mn)"

definition clip :: "fl \<Rightarrow> fl \<Rightarrow> fl \<Rightarrow> int option" where
  "clip val mn mx = f2i (if fl_le val mn then mn else if fl_le mx val then mx else val)"

definition qnt_f32_to_affine :: "fl \<Rightarrow> int \<Rightarrow> fl \<Rightarrow> int option" where
  "qnt_f32_to_affine f32 zp scale =
     (let dst_val = fl_add rnd32 (fl_div rnd32 f32 scale) (i2f zp)
      in clip dst_val (Fin (- 128)) (Fin 127))"

definition deqnt_affine_to_f32 :: "int \<Rightarrow> int \<Rightarrow> fl \<Rightarrow> fl" where
  "deqnt_affine_to_f32 qnt zp scale = fl_mul rnd32 (fl_sub rnd32 (i2f qnt) (i2f zp)) scale"

lemma clamp_range:
  assumes "mn \<le> mx" and "\<bar>mn\<bar> < 16777216" and "\<bar>mx\<bar> < 16777216"
  shows "\<exists>n. clamp val mn mx = Some n \<and> mn \<le> n \<and> n \<le> mx"
  unfolding clamp_def
proof (rule f2i_between)
  let ?x = "if fl_less (i2f mn) val then (if fl_less val (i2f mx) then val else i2f mx) else i2f mn"
  have e: "i2f mn = Fin (of_int mn)" "i2f mx = Fin (of_int mx)" using assms by (simp_all add: i2f_exact)
  show "fl_le (Fin (of_int mn)) ?x" "fl_le ?x (Fin (of_int mx))"
    using assms(1) by (auto simp: e fl_less_imp_le)
qed (use assms in auto)

lemma clamp_low: "val = NaN \<or> val = MInf \<Longrightarrow> \<bar>mn\<bar> < 16777216 \<Longrightarrow> clamp val mn mx = Some mn"
  by (auto simp: clamp_def f2i_def i2f_exact Let_def)

lemma clamp_mono:
  assumes "fl_le x y" and "mn \<le> mx" and "\<bar>mn\<bar> < 16777216" and "\<bar>mx\<bar> < 16777216"
    and "clamp x mn mx = Some a" and "clamp y mn mx = Some b"
  shows "a \<le> b"
proof -
  have e: "i2f mn = Fin (of_int mn)" "i2f mx = Fin (of_int mx)" using assms by (simp_all add: i2f_exact)
  show ?thesis
    by (rule f2i_mono[OF assms(5)[unfolded clamp_def] assms(6)[unfolded clamp_def]])
       (use assms(1,2) in \<open>cases x; cases y; auto simp: e\<close>)
qed

lemma clip_range:
  assumes "val \<noteq> NaN" and "mn \<le> mx" and "int32 mn" and "int32 mx"
  shows "\<exists>n. clip val (Fin (of_int mn)) (Fin (of_int mx)) = Some n \<and> mn \<le> n \<and> n \<le> mx"
  unfolding clip_def
  by (rule f2i_between)
     (use assms in \<open>auto simp: int32_def fl_not_le dest: fl_less_imp_le\<close>)

lemma fl_div_not_nan: "t \<noteq> 0 \<Longrightarrow> y \<noteq> NaN \<Longrightarrow> fl_div rnd32 (Fin t) y \<noteq> NaN"
  by (cases y) (auto simp: inf_mul_def)

lemma fl_add_fin_not_nan: "x \<noteq> NaN \<Longrightarrow> \<bar>n\<bar> < 16777216 \<Longrightarrow> fl_add rnd32 x (i2f n) \<noteq> NaN"
  by (cases x) (auto simp: i2f_exact)

lemma qnt_range:
  assumes "t \<noteq> 0" and "scale \<noteq> NaN" and "\<bar>zp\<bar> < 16777216"
  shows "\<exists>n. qnt_f32_to_affine (Fin t) zp scale = Some n \<and> - 128 \<le> n \<and> n \<le> 127"
  using clip_range[OF fl_add_fin_not_nan[OF fl_div_not_nan[OF assms(1,2)] assms(3)], of "- 128" 127]
  by (simp add: qnt_f32_to_affine_def int32_def)

section \<open>Candidates\<close>

text \<open>The three vectors the decoders append to: four box values, one score, one class each.\<close>

record cands =
  boxes :: "fl list"
  scores :: "fl list"
  classes :: "int list"

definition push_cand :: "fl list \<Rightarrow> fl \<Rightarrow> int \<Rightarrow> cands \<Rightarrow> cands" where
  "push_cand box score cls st =
     \<lparr>boxes = boxes st @ box, scores = scores st @ [score], classes = classes st @ [cls]\<rparr>"

text \<open>The class loop: the first maximum of the class probabilities.\<close>

definition max_class :: "('a \<Rightarrow> 'a \<Rightarrow> bool) \<Rightarrow> (int \<Rightarrow> 'a option) \<Rightarrow> (int \<times> 'a) option" where
  "max_class gt prob =
     do {
       p0 \<leftarrow> prob 0;
       for_up (\<lambda>k (maxClassId, maxClassProbs).
         do {
           p \<leftarrow> prob k;
           Some (Nxt (if gt p maxClassProbs then (k, p) else (maxClassId, maxClassProbs)))
         }) 1 OBJ_CLASS_NUM (0, p0)
     }"

text \<open>
  The box arithmetic: the literals are \<open>double\<close>, so the mixed expressions are rounded to
  double first and to \<open>float\<close> by the assignment.
\<close>

definition decode_centre :: "fl \<Rightarrow> int \<Rightarrow> int \<Rightarrow> fl" where
  "decode_centre v cell stride =
     (let b = d2f (fl_sub rnd64 (fl_mul rnd64 v (Fin 2)) (Fin (1/2)))
      in fl_mul rnd32 (fl_add rnd32 b (i2f cell)) (i2f stride))"

definition decode_size :: "fl \<Rightarrow> int \<Rightarrow> fl" where
  "decode_size v anchor =
     (let b = d2f (fl_mul rnd64 v (Fin 2)) in fl_mul rnd32 (fl_mul rnd32 b b) (i2f anchor))"

definition to_corner :: "fl \<Rightarrow> fl \<Rightarrow> fl" where
  "to_corner c sz = d2f (fl_sub rnd64 c (fl_div rnd64 sz (Fin 2)))"

definition decode_box :: "fl \<Rightarrow> fl \<Rightarrow> fl \<Rightarrow> fl \<Rightarrow> int \<Rightarrow> int \<Rightarrow> int \<Rightarrow> int \<Rightarrow> int \<Rightarrow> fl list" where
  "decode_box vx vy vw vh col row stride anchor_w anchor_h =
     (let w = decode_size vw anchor_w; h = decode_size vh anchor_h
      in [to_corner (decode_centre vx col stride) w, to_corner (decode_centre vy row stride) h, w, h])"

section \<open>The decoder of the RV1106 build\<close>

text \<open>One anchor of one grid cell; the tensor is NHWC, \<open>3 * PROP_BOX_SIZE\<close> values per cell.\<close>

definition rv1106_cell ::
    "int list \<Rightarrow> int list \<Rightarrow> int \<Rightarrow> int \<Rightarrow> fl \<Rightarrow> int \<Rightarrow> int \<Rightarrow> fl \<Rightarrow> int \<Rightarrow> int \<Rightarrow> int \<Rightarrow>
     cands \<times> int \<Rightarrow> (cands \<times> int) option" where
  "rv1106_cell input anchor grid_w stride threshold thres_i8 zp scale h w a = (\<lambda>(st, validCount).
     let align_c = PROP_BOX_SIZE * 3;
         hw = h * grid_w * align_c + w * align_c + a * PROP_BOX_SIZE;
         deq = (\<lambda>q. deqnt_affine_to_f32 q zp scale)
     in do {
       box_confidence \<leftarrow> rd input (hw + 4);
       if thres_i8 \<le> box_confidence then
         do {
           (maxClassId, maxClassProbs) \<leftarrow> max_class (>) (\<lambda>k. rd input (hw + (5 + k)));
           let limit_score = fl_mul rnd32 (deq box_confidence) (deq maxClassProbs);
           if fl_less threshold limit_score then
             do {
               qx \<leftarrow> rd input (hw + 0);
               qy \<leftarrow> rd input (hw + 1);
               qw \<leftarrow> rd input (hw + 2);
               qh \<leftarrow> rd input (hw + 3);
               aw \<leftarrow> rd anchor (a * 2);
               ah \<leftarrow> rd anchor (a * 2 + 1);
               Some (push_cand (decode_box (deq qx) (deq qy) (deq qw) (deq qh) w h stride aw ah)
                       limit_score maxClassId st, validCount + 1)
             }
           else Some (st, validCount)
         }
       else Some (st, validCount)
     })"

definition process_i8_rv1106 ::
    "int list \<Rightarrow> int list \<Rightarrow> int \<Rightarrow> int \<Rightarrow> int \<Rightarrow> fl \<Rightarrow> int \<Rightarrow> fl \<Rightarrow> cands \<Rightarrow> (cands \<times> int) option" where
  "process_i8_rv1106 input anchor grid_h grid_w stride threshold zp scale st =
     do {
       thres_i8 \<leftarrow> qnt_f32_to_affine threshold zp scale;
       for_up (\<lambda>h s. map_option Nxt (
         for_up (\<lambda>w s. map_option Nxt (
           for_up (\<lambda>a s. map_option Nxt (
             rv1106_cell input anchor grid_w stride threshold thres_i8 zp scale h w a s)) 0 3 s))
           0 grid_w s)) 0 grid_h (st, 0)
     }"

section \<open>The planar decoders\<close>

text \<open>
  \<open>process_i8\<close> and \<open>process_fp32\<close> (other targets of the same file): the tensor is
  NCHW, so the values of one cell are \<open>grid_h * grid_w\<close> apart.
\<close>

definition planar_cell ::
    "('a \<Rightarrow> 'a \<Rightarrow> bool) \<Rightarrow> ('a \<Rightarrow> bool) \<Rightarrow> ('a \<Rightarrow> bool) \<Rightarrow> ('a \<Rightarrow> fl) \<Rightarrow> 'a list \<Rightarrow> int list \<Rightarrow> int \<Rightarrow> int \<Rightarrow> int \<Rightarrow>
     int \<Rightarrow> int \<Rightarrow> int \<Rightarrow> cands \<times> int \<Rightarrow> (cands \<times> int) option" where
  "planar_cell gt conf_ok prob_ok val input anchor grid_h grid_w stride a i j = (\<lambda>(st, validCount).
     let grid_len = grid_h * grid_w;
         offset = (PROP_BOX_SIZE * a) * grid_len + i * grid_w + j
     in do {
       box_confidence \<leftarrow> rd input ((PROP_BOX_SIZE * a + 4) * grid_len + i * grid_w + j);
       if conf_ok box_confidence then
         do {
           vx \<leftarrow> rd input offset;
           vy \<leftarrow> rd input (offset + grid_len);
           vw \<leftarrow> rd input (offset + 2 * grid_len);
           vh \<leftarrow> rd input (offset + 3 * grid_len);
           aw \<leftarrow> rd anchor (a * 2);
           ah \<leftarrow> rd anchor (a * 2 + 1);
           let box = decode_box (val vx) (val vy) (val vw) (val vh) j i stride aw ah;
           (maxClassId, maxClassProbs) \<leftarrow> max_class gt (\<lambda>k. rd input (offset + (5 + k) * grid_len));
           Some (if prob_ok maxClassProbs
                 then (push_cand box (fl_mul rnd32 (val maxClassProbs) (val box_confidence)) maxClassId st,
                       validCount + 1)
                 else (st, validCount))
         }
       else Some (st, validCount)
     })"

definition planar_grid ::
    "(int \<Rightarrow> int \<Rightarrow> int \<Rightarrow> cands \<times> int \<Rightarrow> (cands \<times> int) option) \<Rightarrow> int \<Rightarrow> int \<Rightarrow> cands \<Rightarrow> (cands \<times> int) option" where
  "planar_grid cell grid_h grid_w st =
     for_up (\<lambda>a s. map_option Nxt (
       for_up (\<lambda>i s. map_option Nxt (
         for_up (\<lambda>j s. map_option Nxt (cell a i j s)) 0 grid_w s)) 0 grid_h s)) 0 3 (st, 0)"

definition process_i8 ::
    "int list \<Rightarrow> int list \<Rightarrow> int \<Rightarrow> int \<Rightarrow> int \<Rightarrow> fl \<Rightarrow> int \<Rightarrow> fl \<Rightarrow> cands \<Rightarrow> (cands \<times> int) option" where
  "process_i8 input anchor grid_h grid_w stride threshold zp scale st =
     do {
       thres_i8 \<leftarrow> qnt_f32_to_affine threshold zp scale;
       planar_grid
         (planar_cell (>) (\<lambda>c. thres_i8 \<le> c) (\<lambda>p. thres_i8 < p) (\<lambda>q. deqnt_affine_to_f32 q zp scale)
            input anchor grid_h grid_w stride) grid_h grid_w st
     }"

definition process_fp32 ::
    "fl list \<Rightarrow> int list \<Rightarrow> int \<Rightarrow> int \<Rightarrow> int \<Rightarrow> fl \<Rightarrow> cands \<Rightarrow> (cands \<times> int) option" where
  "process_fp32 input anchor grid_h grid_w stride threshold st =
     planar_grid
       (planar_cell (\<lambda>x y. fl_less y x) (\<lambda>c. fl_le threshold c) (\<lambda>p. fl_less threshold p) (\<lambda>v. v)
          input anchor grid_h grid_w stride) grid_h grid_w st"

section \<open>The class loop\<close>

text \<open>The class loop reads the 80 values and returns one of them with its index.\<close>

lemma max_class_some:
  assumes "\<And>k. 0 \<le> k \<Longrightarrow> k < OBJ_CLASS_NUM \<Longrightarrow> prob k = Some (f k)"
  shows "\<exists>c. max_class gt prob = Some (c, f c) \<and> 0 \<le> c \<and> c < OBJ_CLASS_NUM"
proof -
  let ?P = "\<lambda>i (c, v). 0 \<le> c \<and> c < i \<and> v = f c"
  let ?body = "\<lambda>k (c, v). do { p \<leftarrow> prob k; Some (Nxt (if gt p v then (k, p) else (c, v))) }"
  have "\<exists>s'. for_up ?body 1 OBJ_CLASS_NUM (0, f 0) = Some s' \<and> ?P (max 1 OBJ_CLASS_NUM) s'"
    by (rule for_up_rule) (use assms in auto)
  then show ?thesis using assms[of 0] by (auto simp: max_class_def OBJ_CLASS_NUM_def)
qed

text \<open>For a linear order: the first index among the 80 whose value is greatest.\<close>

lemma max_class_spec:
  fixes prob :: "int \<Rightarrow> 'a::linorder option"
  assumes "\<And>k. 0 \<le> k \<Longrightarrow> k < OBJ_CLASS_NUM \<Longrightarrow> prob k = Some (f k)"
  shows "\<exists>c. max_class (>) prob = Some (c, f c) \<and> 0 \<le> c \<and> c < OBJ_CLASS_NUM \<and>
    (\<forall>k. 0 \<le> k \<and> k < OBJ_CLASS_NUM \<longrightarrow> f k \<le> f c) \<and> (\<forall>k. 0 \<le> k \<and> k < c \<longrightarrow> f k < f c)"
proof -
  let ?P = "\<lambda>i (c, v). 0 \<le> c \<and> c < i \<and> v = f c \<and> (\<forall>k. 0 \<le> k \<and> k < i \<longrightarrow> f k \<le> f c) \<and>
    (\<forall>k. 0 \<le> k \<and> k < c \<longrightarrow> f k < f c)"
  let ?body = "\<lambda>k (c, v). do { p \<leftarrow> prob k; Some (Nxt (if p > v then (k, p) else (c, v))) }"
  have "\<exists>s'. for_up ?body 1 OBJ_CLASS_NUM (0, f 0) = Some s' \<and> ?P (max 1 OBJ_CLASS_NUM) s'"
  proof (rule for_up_rule)
    have "f k \<le> f 0" if "0 \<le> k" "k < 1" for k using that by (cases "k = 0") auto
    then show "?P 1 (0, f 0)" by auto
  next
    fix j t assume j: "1 \<le> j" "j < OBJ_CLASS_NUM" and inv: "?P j t"
    obtain c v where t: "t = (c, v)" by fastforce
    have c: "0 \<le> c" "c < j" "v = f c" and le: "\<And>k. 0 \<le> k \<Longrightarrow> k < j \<Longrightarrow> f k \<le> f c"
      and first: "\<And>k. 0 \<le> k \<Longrightarrow> k < c \<Longrightarrow> f k < f c"
      using inv unfolding t by auto
    have "?P (j + 1) (if f j > v then (j, f j) else (c, v))"
    proof (cases "f j > v")
      case True
      have lt: "f k < f j" if "0 \<le> k" "k < j" for k
        using le[OF that] True c(3) by simp
      then have "f k \<le> f j" if "0 \<le> k" "k < j + 1" for k
        using that by (cases "k = j") (auto simp: less_imp_le)
      then show ?thesis using True j lt by simp
    next
      case False
      then have "f k \<le> f c" if "0 \<le> k" "k < j + 1" for k
        using that le c(3) by (cases "k = j") auto
      then show ?thesis using False c first by simp
    qed
    then show "(\<exists>t'. ?body j t = Some (Nxt t') \<and> ?P (j + 1) t') \<or>
        (\<exists>t'. ?body j t = Some (Brk t') \<and> ?P OBJ_CLASS_NUM t')"
      using assms[of j] j by (simp add: t)
  qed
  then show ?thesis using assms[of 0] by (auto simp: max_class_def OBJ_CLASS_NUM_def)
qed

section \<open>The candidate vectors stay consistent\<close>

text \<open>
  Four box values and one class for every score, class numbers in range, every score accepted by
  \<open>good\<close>; \<open>counted n\<close> adds that the returned count is the number of scores appended
  to the \<open>n\<close> there were before.
\<close>

text \<open>
  A corner is usable with its size when adding the size does not move it back: the only other
  corners are NaN and minus infinity, which the clamping of the caller sends to its minimum.
\<close>

definition edge_ok :: "fl \<Rightarrow> fl \<Rightarrow> bool" where
  "edge_ok x sz \<longleftrightarrow> x = NaN \<or> x = MInf \<or> fl_le x (fl_add rnd32 x sz)"

definition edges_ok :: "fl list \<Rightarrow> bool" where
  "edges_ok bs \<longleftrightarrow> (\<forall>k. 4 * k + 3 < length bs \<longrightarrow>
     edge_ok (bs ! (4 * k)) (bs ! (4 * k + 2)) \<and> edge_ok (bs ! (4 * k + 1)) (bs ! (4 * k + 3)))"

definition cands_ok :: "(fl \<Rightarrow> bool) \<Rightarrow> cands \<Rightarrow> bool" where
  "cands_ok good st \<longleftrightarrow>
     length (boxes st) = 4 * length (scores st) \<and> length (classes st) = length (scores st) \<and>
     edges_ok (boxes st) \<and>
     (\<forall>s \<in> set (scores st). good s) \<and> (\<forall>c \<in> set (classes st). 0 \<le> c \<and> c < OBJ_CLASS_NUM)"

definition counted :: "(fl \<Rightarrow> bool) \<Rightarrow> nat \<Rightarrow> cands \<times> int \<Rightarrow> bool" where
  "counted good n s \<longleftrightarrow> cands_ok good (fst s) \<and> int (length (scores (fst s))) = int n + snd s"

lemma length_decode_box [simp]: "length (decode_box vx vy vw vh col row stride aw ah) = 4"
  by (simp add: decode_box_def Let_def)

lemma fl_mul_nonneg:
  "fl_le (Fin 0) x \<Longrightarrow> fl_le (Fin 0) y \<Longrightarrow> fl_le (Fin 0) (fl_mul rnd32 x y) \<or> fl_mul rnd32 x y = NaN"
  using rnd32_int[of 0] rnd32_mono[of 0] by (cases x; cases y) (auto simp: inf_mul_def)

lemma fl_mul_square: "fl_le (Fin 0) (fl_mul rnd32 x x) \<or> fl_mul rnd32 x x = NaN"
  using rnd32_int[of 0] rnd32_mono[of 0] by (cases x) auto

lemma i2f_nonneg: "0 \<le> n \<Longrightarrow> fl_le (Fin 0) (i2f n)"
  using rnd32_int[of 0] rnd32_mono[of 0 "of_int n"] by (simp add: i2f_def)

lemma decode_size_nonneg: "0 \<le> anc \<Longrightarrow> fl_le (Fin 0) (decode_size v anc) \<or> decode_size v anc = NaN"
  using fl_mul_square[of "d2f (fl_mul rnd64 v (Fin 2))"]
    fl_mul_nonneg[OF _ i2f_nonneg, of "fl_mul rnd32 (d2f (fl_mul rnd64 v (Fin 2))) (d2f (fl_mul rnd64 v (Fin 2)))" anc]
  by (auto simp: decode_size_def Let_def)

lemma d2f_Fin: "d2f x = Fin r \<Longrightarrow> rnd32 r = Fin r"
  by (cases x) (auto dest: rnd32_idem)

lemma edge_ok_corner:
  assumes "0 \<le> anc"
  shows "edge_ok (to_corner c (decode_size v anc)) (decode_size v anc)"
proof (cases "decode_size v anc")
  case NaN
  then show ?thesis by (cases c) (auto simp: edge_ok_def to_corner_def fl_sub_def)
next
  case PInf
  then show ?thesis by (cases c) (auto simp: edge_ok_def to_corner_def fl_sub_def inf_div_def)
next
  case MInf
  then show ?thesis using decode_size_nonneg[OF assms, of v] by auto
next
  case (Fin q)
  then have q: "0 \<le> q" using decode_size_nonneg[OF assms, of v] by auto
  show ?thesis
  proof (cases "to_corner c (decode_size v anc)")
    case (Fin x)
    then have "rnd32 x = Fin x" by (auto simp: to_corner_def dest: d2f_Fin)
    then show ?thesis using rnd32_mono[of x "x + q"] q Fin \<open>decode_size v anc = Fin q\<close>
      by (simp add: edge_ok_def)
  qed (use Fin in \<open>auto simp: edge_ok_def\<close>)
qed

lemma edges_ok_append:
  assumes "edges_ok bs" "length bs = 4 * n" "edge_ok x w" "edge_ok y h"
  shows "edges_ok (bs @ [x, y, w, h])"
  unfolding edges_ok_def
proof (intro allI impI)
  fix k assume k: "4 * k + 3 < length (bs @ [x, y, w, h])"
  show "edge_ok ((bs @ [x, y, w, h]) ! (4 * k)) ((bs @ [x, y, w, h]) ! (4 * k + 2)) \<and>
      edge_ok ((bs @ [x, y, w, h]) ! (4 * k + 1)) ((bs @ [x, y, w, h]) ! (4 * k + 3))"
  proof (cases "k < n")
    case True
    then show ?thesis using assms(1,2) by (auto simp: edges_ok_def nth_append)
  next
    case False
    then have "k = n" using k assms(2) by simp
    then show ?thesis using assms(2-4) by (simp add: nth_append numeral_eq_Suc)
  qed
qed

lemma counted_push:
  assumes "counted good n (st, k)" "good s" "0 \<le> c" "c < OBJ_CLASS_NUM" "0 \<le> aw" "0 \<le> ah"
  shows "counted good n (push_cand (decode_box vx vy vw vh col row stride aw ah) s c st, k + 1)"
  using assms edge_ok_corner edges_ok_append[of "boxes st" "length (scores st)"]
  by (auto simp: counted_def cands_ok_def push_cand_def decode_box_def Let_def)

text \<open>The six anchor sizes of an output, all positive.\<close>

definition anchor_ok :: "int list \<Rightarrow> bool" where
  "anchor_ok anchor \<longleftrightarrow> length anchor = 6 \<and> (\<forall>x \<in> set anchor. 0 \<le> x)"

lemma anchor_read:
  assumes "anchor_ok anchor" "0 \<le> a" "a < 3"
  shows "rd anchor (a * 2) = Some (anchor ! nat (a * 2))" "0 \<le> anchor ! nat (a * 2)"
    "rd anchor (a * 2 + 1) = Some (anchor ! nat (a * 2 + 1))" "0 \<le> anchor ! nat (a * 2 + 1)"
proof -
  show r: "rd anchor (a * 2) = Some (anchor ! nat (a * 2))"
    "rd anchor (a * 2 + 1) = Some (anchor ! nat (a * 2 + 1))"
    using assms by (simp_all add: rd_Some anchor_ok_def)
  show "0 \<le> anchor ! nat (a * 2)" "0 \<le> anchor ! nat (a * 2 + 1)"
    using rd_in_set[OF r(1)] rd_in_set[OF r(2)] assms(1) by (simp_all add: anchor_ok_def)
qed

lemma rv1106_offset:
  assumes "0 \<le> h" "h < grid_h" "0 \<le> w" "w < grid_w" "0 \<le> a" "a < 3" "0 \<le> k" "k < 85"
  shows "0 \<le> h * grid_w * (PROP_BOX_SIZE * 3) + w * (PROP_BOX_SIZE * 3) + a * PROP_BOX_SIZE + k"
    and "h * grid_w * (PROP_BOX_SIZE * 3) + w * (PROP_BOX_SIZE * 3) + a * PROP_BOX_SIZE + k
      < grid_h * grid_w * (PROP_BOX_SIZE * 3)"
  using grid_index[OF assms(1-4)] assms(5-8)
  by (simp_all add: PROP_BOX_SIZE_def OBJ_CLASS_NUM_def algebra_simps)

lemma rv1106_cell_ok:
  assumes len: "int (length input) = grid_h * grid_w * (PROP_BOX_SIZE * 3)" "anchor_ok anchor"
    and pos: "0 \<le> h" "h < grid_h" "0 \<le> w" "w < grid_w" "0 \<le> a" "a < 3"
    and inv: "counted (fl_less threshold) n s"
  shows "\<exists>s'. rv1106_cell input anchor grid_w stride threshold thres zp scale h w a s = Some s' \<and>
    counted (fl_less threshold) n s'"
proof -
  obtain st k where s: "s = (st, k)" by fastforce
  define hw where "hw = h * grid_w * (PROP_BOX_SIZE * 3) + w * (PROP_BOX_SIZE * 3) + a * PROP_BOX_SIZE"
  have r: "rd input (hw + i) = Some (input ! nat (hw + i))" if "0 \<le> i" "i < 85" for i
    using rv1106_offset[OF pos that] len(1) by (intro rd_Some) (simp_all add: hw_def)
  note anc = anchor_read[OF len(2) pos(5,6)]
  obtain c v where c: "max_class (>) (\<lambda>k. rd input (hw + (5 + k))) = Some (c, v)"
      "0 \<le> c" "c < OBJ_CLASS_NUM"
    using max_class_some[of "\<lambda>k. rd input (hw + (5 + k))" "\<lambda>k. input ! nat (hw + (5 + k))" "(>)"] r
    by (auto simp: OBJ_CLASS_NUM_def)
  show ?thesis
    using r[of 0] r[of 1] r[of 2] r[of 3] r[of 4] anc c inv
    by (auto simp: rv1106_cell_def s Let_def hw_def[symmetric] intro!: counted_push)
qed

lemma process_i8_rv1106_ok:
  assumes len: "int (length input) = grid_h * grid_w * (PROP_BOX_SIZE * 3)" "anchor_ok anchor"
    and qnt: "qnt_f32_to_affine threshold zp scale = Some thres"
    and st: "cands_ok (fl_less threshold) st"
  shows "\<exists>s. process_i8_rv1106 input anchor grid_h grid_w stride threshold zp scale st = Some s \<and>
    counted (fl_less threshold) (length (scores st)) s"
proof -
  have "counted (fl_less threshold) (length (scores st)) (st, 0)" using st by (simp add: counted_def)
  then show ?thesis
    unfolding process_i8_rv1106_def qnt bind.bind_lunit
    by (intro for_each_inv) (use rv1106_cell_ok[OF len] in auto)
qed

lemma planar_offset:
  assumes "0 \<le> i" "i < grid_h" "0 \<le> j" "j < grid_w" "0 \<le> a" "a < 3" "0 \<le> k" "k < 85"
  shows "0 \<le> (PROP_BOX_SIZE * a + k) * (grid_h * grid_w) + (i * grid_w + j)"
    and "(PROP_BOX_SIZE * a + k) * (grid_h * grid_w) + (i * grid_w + j)
      < grid_h * grid_w * (PROP_BOX_SIZE * 3)"
  using grid_index[of "PROP_BOX_SIZE * a + k" "PROP_BOX_SIZE * 3" "i * grid_w + j" "grid_h * grid_w"]
    grid_index[OF assms(1-4)] assms(5-8)
  by (auto simp: PROP_BOX_SIZE_def OBJ_CLASS_NUM_def mult.commute)

lemma planar_cell_ok:
  assumes len: "int (length input) = grid_h * grid_w * (PROP_BOX_SIZE * 3)" "anchor_ok anchor"
    and pos: "0 \<le> i" "i < grid_h" "0 \<le> j" "j < grid_w" "0 \<le> a" "a < 3"
    and good: "\<And>c p. conf_ok c \<Longrightarrow> prob_ok p \<Longrightarrow> good (fl_mul rnd32 (val p) (val c))"
    and inv: "counted good n s"
  shows "\<exists>s'. planar_cell gt conf_ok prob_ok val input anchor grid_h grid_w stride a i j s = Some s' \<and>
    counted good n s'"
proof -
  obtain st k where s: "s = (st, k)" by fastforce
  define g where "g = grid_h * grid_w"
  define off where "off = PROP_BOX_SIZE * a * g + i * grid_w + j"
  have e: "(PROP_BOX_SIZE * a + 4) * g + i * grid_w + j = off + 4 * g"
    by (simp add: off_def algebra_simps)
  have r: "rd input (off + q * g) = Some (input ! nat (off + q * g))" if "0 \<le> q" "q < 85" for q
    using planar_offset[OF pos that] len(1)
    by (intro rd_Some) (simp_all add: off_def g_def algebra_simps)
  note anc = anchor_read[OF len(2) pos(5,6)]
  obtain c v where c: "max_class gt (\<lambda>k. rd input (off + (5 + k) * g)) = Some (c, v)"
      "0 \<le> c" "c < OBJ_CLASS_NUM"
    using max_class_some[of "\<lambda>k. rd input (off + (5 + k) * g)" "\<lambda>k. input ! nat (off + (5 + k) * g)" gt] r
    by (auto simp: OBJ_CLASS_NUM_def)
  show ?thesis
    unfolding planar_cell_def s g_def[symmetric] Let_def prod.case off_def[symmetric] e
    using r[of 0] r[of 1] r[of 2] r[of 3] r[of 4] anc c inv
    by (auto simp: s intro!: counted_push good)
qed

lemma planar_grid_inv:
  assumes "cands_ok good st"
    and "\<And>a i j s. 0 \<le> a \<Longrightarrow> a < 3 \<Longrightarrow> 0 \<le> i \<Longrightarrow> i < grid_h \<Longrightarrow> 0 \<le> j \<Longrightarrow> j < grid_w \<Longrightarrow>
      counted good (length (scores st)) s \<Longrightarrow>
      \<exists>s'. cell a i j s = Some s' \<and> counted good (length (scores st)) s'"
  shows "\<exists>s. planar_grid cell grid_h grid_w st = Some s \<and> counted good (length (scores st)) s"
proof -
  have "counted good (length (scores st)) (st, 0)" using assms(1) by (simp add: counted_def)
  then show ?thesis unfolding planar_grid_def by (intro for_each_inv) (use assms(2) in auto)
qed

lemma process_i8_ok:
  assumes len: "int (length input) = grid_h * grid_w * (PROP_BOX_SIZE * 3)" "anchor_ok anchor"
    and qnt: "qnt_f32_to_affine threshold zp scale = Some thres"
    and st: "cands_ok (\<lambda>_. True) st"
  shows "\<exists>s. process_i8 input anchor grid_h grid_w stride threshold zp scale st = Some s \<and>
    counted (\<lambda>_. True) (length (scores st)) s"
  unfolding process_i8_def qnt bind.bind_lunit
  by (intro planar_grid_inv planar_cell_ok[OF len]) (use st in auto)

lemma fl_mul_pos_not_nan: "fl_less (Fin 0) x \<Longrightarrow> fl_less (Fin 0) y \<Longrightarrow> fl_mul rnd32 x y \<noteq> NaN"
  by (cases x; cases y) (auto simp: inf_mul_def)

lemma process_fp32_ok:
  assumes len: "int (length input) = grid_h * grid_w * (PROP_BOX_SIZE * 3)" "anchor_ok anchor"
    and thr: "fl_less (Fin 0) threshold"
    and st: "cands_ok (\<lambda>s. s \<noteq> NaN) st"
  shows "\<exists>s. process_fp32 input anchor grid_h grid_w stride threshold st = Some s \<and>
    counted (\<lambda>s. s \<noteq> NaN) (length (scores st)) s"
  unfolding process_fp32_def
  by (intro planar_grid_inv planar_cell_ok[OF len] fl_mul_pos_not_nan)
     (use st thr in \<open>auto intro: fl_less_le_trans fl_less_imp_le\<close>)

text \<open>Clamping the two corners of a usable edge keeps them in order.\<close>

lemma clamp_edge:
  assumes "edge_ok x w" and "0 \<le> mx" and "mx < 16777216"
  shows "\<exists>a b. clamp x 0 mx = Some a \<and> clamp (fl_add rnd32 x w) 0 mx = Some b \<and>
    0 \<le> a \<and> a \<le> b \<and> b \<le> mx"
proof -
  obtain a b where a: "clamp x 0 mx = Some a" "0 \<le> a" "a \<le> mx"
    and b: "clamp (fl_add rnd32 x w) 0 mx = Some b" "0 \<le> b" "b \<le> mx"
    using clamp_range[of 0 mx x] clamp_range[of 0 mx "fl_add rnd32 x w"] assms by auto
  have "a \<le> b"
  proof (cases "x = NaN \<or> x = MInf")
    case True
    then show ?thesis using clamp_low[of x 0 mx] a b by simp
  next
    case False
    then have "fl_le x (fl_add rnd32 x w)" using assms(1) by (auto simp: edge_ok_def)
    then show ?thesis by (rule clamp_mono[OF _ _ _ _ a(1) b(1)]) (use assms in auto)
  qed
  then show ?thesis using a b by blast
qed

section \<open>Properties\<close>

text \<open>
  C26. The class loop of every decoder, over a linearly ordered element type: it reads exactly
  the 80 probabilities of the cell and returns the first class whose probability is greatest,
  with that probability.
\<close>

theorem class_loop_argmax:
  fixes prob :: "int \<Rightarrow> 'a::linorder option"
  assumes "\<And>k. 0 \<le> k \<Longrightarrow> k < OBJ_CLASS_NUM \<Longrightarrow> prob k = Some (f k)"
  shows "\<exists>c. max_class (>) prob = Some (c, f c) \<and> 0 \<le> c \<and> c < OBJ_CLASS_NUM \<and>
    (\<forall>k. 0 \<le> k \<and> k < OBJ_CLASS_NUM \<longrightarrow> f k \<le> f c) \<and> (\<forall>k. 0 \<le> k \<and> k < c \<longrightarrow> f k < f c)"
  by (rule max_class_spec[OF assms])

theorem class_loop_argmax_witness:
  "\<exists>c. max_class (>) (\<lambda>k. Some (min k (7::int))) = Some (c, min c 7) \<and> 0 \<le> c \<and> c < OBJ_CLASS_NUM \<and>
    (\<forall>k. 0 \<le> k \<and> k < OBJ_CLASS_NUM \<longrightarrow> min k 7 \<le> min c 7) \<and> (\<forall>k. 0 \<le> k \<and> k < c \<longrightarrow> min k 7 < min c 7)"
  by (rule class_loop_argmax[where f = "\<lambda>k. min k (7::int)"]) simp

text \<open>
  C27. The \<open>float\<close> decoder never appends a NaN score (a positive threshold filters every
  NaN confidence and probability), so the sort that follows returns; it reads only inside the
  tensor, and its return value is the number of candidates it appended.
\<close>

theorem process_fp32_scores:
  assumes "int (length input) = grid_h * grid_w * (PROP_BOX_SIZE * 3)" and "anchor_ok anchor"
    and "fl_less (Fin 0) threshold" and "cands_ok (\<lambda>s. s \<noteq> NaN) st"
  shows "\<exists>st' n. process_fp32 input anchor grid_h grid_w stride threshold st = Some (st', n) \<and>
    NaN \<notin> set (scores st') \<and> length (boxes st') = 4 * length (scores st') \<and>
    length (classes st') = length (scores st') \<and>
    int (length (scores st')) = int (length (scores st)) + n"
proof -
  obtain st' n where "process_fp32 input anchor grid_h grid_w stride threshold st = Some (st', n)"
    "counted (\<lambda>s. s \<noteq> NaN) (length (scores st)) (st', n)"
    using process_fp32_ok[OF assms] by (metis prod.collapse)
  then show ?thesis by (auto simp: counted_def cands_ok_def)
qed

theorem process_fp32_scores_witness:
  "\<exists>st' n. process_fp32 (replicate 255 NaN) [10, 13, 16, 30, 33, 23] 1 1 8 (Fin (1/4))
      \<lparr>boxes = [], scores = [], classes = []\<rparr> = Some (st', n) \<and>
    NaN \<notin> set (scores st') \<and> length (boxes st') = 4 * length (scores st') \<and>
    length (classes st') = length (scores st') \<and>
    int (length (scores st')) = int (length (scores \<lparr>boxes = [], scores = [], classes = []\<rparr>)) + n"
  by (rule process_fp32_scores)
     (simp_all add: PROP_BOX_SIZE_def OBJ_CLASS_NUM_def anchor_ok_def cands_ok_def edges_ok_def)

end
