(* ===== verification/Nms.thy ===== *)
theory Nms
  imports CFloat
begin

text \<open>
  \<open>CalculateOverlap\<close> and \<open>nms\<close> of \<^verbatim>\<open>postprocess.cc\<close>: suppression of overlapping
  detections in the index vector \<open>order\<close>, in which a suppressed entry becomes -1.
\<close>

section \<open>The code\<close>

text \<open>
  Intersection over union with inclusive pixel bounds.  \<open>fmin\<close> and \<open>fmax\<close> are the
  C++ \<open>float\<close> overloads; the literal 1.0 makes the widths \<open>double\<close>.
\<close>

definition CalculateOverlap ::
    "fl \<Rightarrow> fl \<Rightarrow> fl \<Rightarrow> fl \<Rightarrow> fl \<Rightarrow> fl \<Rightarrow> fl \<Rightarrow> fl \<Rightarrow> fl" where
  "CalculateOverlap xmin0 ymin0 xmax0 ymax0 xmin1 ymin1 xmax1 ymax1 =
     (let plus1 = (\<lambda>x. fl_add rnd64 x (Fin 1));
          w = d2f (fl_max (Fin 0) (plus1 (fl_sub rnd32 (fl_min xmax0 xmax1) (fl_max xmin0 xmin1))));
          h = d2f (fl_max (Fin 0) (plus1 (fl_sub rnd32 (fl_min ymax0 ymax1) (fl_max ymin0 ymin1))));
          i = fl_mul rnd32 w h;
          area0 = fl_mul rnd64 (plus1 (fl_sub rnd32 xmax0 xmin0)) (plus1 (fl_sub rnd32 ymax0 ymin0));
          area1 = fl_mul rnd64 (plus1 (fl_sub rnd32 xmax1 xmin1)) (plus1 (fl_sub rnd32 ymax1 ymin1));
          u = d2f (fl_sub rnd64 (fl_add rnd64 area0 area1) i)
      in if fl_le u (Fin 0) then Fin 0 else fl_div rnd32 i u)"

text \<open>The corners of box \<open>n\<close> of the location vector (x, y, width, height per box).\<close>

definition corners :: "fl list \<Rightarrow> int \<Rightarrow> (fl \<times> fl \<times> fl \<times> fl) option" where
  "corners outputLocations n =
     do {
       x \<leftarrow> rd outputLocations (n * 4 + 0);
       y \<leftarrow> rd outputLocations (n * 4 + 1);
       w \<leftarrow> rd outputLocations (n * 4 + 2);
       h \<leftarrow> rd outputLocations (n * 4 + 3);
       Some (x, y, fl_add rnd32 x w, fl_add rnd32 y h)
     }"

definition iou :: "fl list \<Rightarrow> int \<Rightarrow> int \<Rightarrow> fl option" where
  "iou outputLocations n m =
     do {
       (xmin0, ymin0, xmax0, ymax0) \<leftarrow> corners outputLocations n;
       (xmin1, ymin1, xmax1, ymax1) \<leftarrow> corners outputLocations m;
       Some (CalculateOverlap xmin0 ymin0 xmax0 ymax0 xmin1 ymin1 xmax1 ymax1)
     }"

text \<open>
  The class test of the inner loop reads \<open>classIds[i]\<close> again, as the code does, and not the
  class of the candidate \<open>j\<close>.
\<close>

definition nms_inner ::
    "int \<Rightarrow> fl list \<Rightarrow> int list \<Rightarrow> int \<Rightarrow> fl \<Rightarrow> int \<Rightarrow> int \<Rightarrow> int list \<Rightarrow> int list option" where
  "nms_inner validCount outputLocations classIds filterId threshold i n order =
     for_up (\<lambda>j order.
       do {
         m \<leftarrow> rd order j;
         ci \<leftarrow> rd classIds i;
         if m = -1 \<or> ci \<noteq> filterId then Some (Nxt order)
         else
           do {
             v \<leftarrow> iou outputLocations n m;
             if fl_less threshold v then map_option Nxt (wr order j (-1)) else Some (Nxt order)
           }
       }) (i + 1) validCount order"

definition nms :: "int \<Rightarrow> fl list \<Rightarrow> int list \<Rightarrow> int list \<Rightarrow> int \<Rightarrow> fl \<Rightarrow> int list option" where
  "nms validCount outputLocations classIds order filterId threshold =
     for_up (\<lambda>i order.
       do {
         n \<leftarrow> rd order i;
         ci \<leftarrow> rd classIds i;
         if n = -1 \<or> ci \<noteq> filterId then Some (Nxt order)
         else map_option Nxt
           (nms_inner validCount outputLocations classIds filterId threshold i n order)
       }) 0 validCount order"

text \<open>The caller runs it for every class that occurs, in ascending order (\<open>std::set\<close>).\<close>

fun nms_classes :: "int list \<Rightarrow> int \<Rightarrow> fl list \<Rightarrow> int list \<Rightarrow> int list \<Rightarrow> fl \<Rightarrow> int list option" where
  "nms_classes [] validCount outputLocations classIds order threshold = Some order"
| "nms_classes (c # cs) validCount outputLocations classIds order threshold =
     do {
       order' \<leftarrow> nms validCount outputLocations classIds order c threshold;
       nms_classes cs validCount outputLocations classIds order' threshold
     }"

section \<open>Specification\<close>

definition overlaps :: "fl list \<Rightarrow> fl \<Rightarrow> int \<Rightarrow> int \<Rightarrow> bool" where
  "overlaps outputLocations threshold n m \<longleftrightarrow>
     (case iou outputLocations n m of None \<Rightarrow> False | Some v \<Rightarrow> fl_less threshold v)"

text \<open>An index vector: every entry is -1 or the number of a box.\<close>

definition index_vec :: "nat \<Rightarrow> fl list \<Rightarrow> int list \<Rightarrow> bool" where
  "index_vec n outputLocations order \<longleftrightarrow>
     length order = n \<and> length outputLocations = 4 * n \<and> (\<forall>v \<in> set order. -1 \<le> v \<and> v < int n)"

text \<open>Entries only change to -1.\<close>

definition suppressed_from :: "int list \<Rightarrow> int list \<Rightarrow> bool" where
  "suppressed_from order order' \<longleftrightarrow>
     length order' = length order \<and> (\<forall>k < length order. order' ! k = order ! k \<or> order' ! k = -1)"

lemma suppressed_from_refl [simp]: "suppressed_from order order"
  by (simp add: suppressed_from_def)

lemma suppressed_from_trans:
  "suppressed_from a b \<Longrightarrow> suppressed_from b c \<Longrightarrow> suppressed_from a c"
  by (auto simp: suppressed_from_def) metis

lemma suppressed_from_kept:
  "suppressed_from a b \<Longrightarrow> k < length a \<Longrightarrow> b ! k \<noteq> -1 \<Longrightarrow> b ! k = a ! k"
  by (auto simp: suppressed_from_def)

lemma corners_some:
  "0 \<le> n \<Longrightarrow> n < int k \<Longrightarrow> length outputLocations = 4 * k \<Longrightarrow> corners outputLocations n \<noteq> None"
  by (simp add: corners_def rd_Some)

lemma iou_some:
  assumes "0 \<le> n" "n < int k" "0 \<le> m" "m < int k" "length outputLocations = 4 * k"
  shows "\<exists>v. iou outputLocations n m = Some v"
  using corners_some[of n k outputLocations] corners_some[of m k outputLocations] assms
  by (auto simp: iou_def)

lemma index_vec_entry:
  assumes "index_vec n locs order" and "k < n"
  shows "order ! k = -1 \<or> 0 \<le> order ! k \<and> order ! k < int n"
proof -
  have "order ! k \<in> set order" using assms by (simp add: index_vec_def)
  then have "-1 \<le> order ! k" "order ! k < int n" using assms by (auto simp: index_vec_def)
  then show ?thesis by auto
qed

lemma index_vec_suppressed:
  assumes "index_vec n locs order" "suppressed_from order order'"
  shows "index_vec n locs order'"
proof -
  have len: "length order' = n" using assms by (simp add: index_vec_def suppressed_from_def)
  have "-1 \<le> order' ! k \<and> order' ! k < int n" if "k < n" for k
    using index_vec_entry[OF assms(1) that] assms that
    by (auto simp: index_vec_def suppressed_from_def)
  then show ?thesis using assms len by (auto simp: index_vec_def in_set_conv_nth)
qed

text \<open>
  The inner loop, exactly: of the entries behind \<open>i\<close> those that overlap box \<open>n\<close> are
  suppressed, all others are kept.
\<close>

definition inner_result ::
    "fl list \<Rightarrow> fl \<Rightarrow> int \<Rightarrow> int \<Rightarrow> int list \<Rightarrow> int \<Rightarrow> int list \<Rightarrow> bool" where
  "inner_result locs threshold i n order j cur \<longleftrightarrow>
     length cur = length order \<and>
     (\<forall>k < length order. cur ! k =
        (if i < int k \<and> int k < j \<and> order ! k \<noteq> -1 \<and> overlaps locs threshold n (order ! k)
         then -1 else order ! k))"

lemma inner_result_step:
  assumes "inner_result locs threshold i n order j cur" and "i < j" "0 \<le> i" "j < int (length order)"
  shows "inner_result locs threshold i n order (j + 1)
    (if cur ! nat j \<noteq> -1 \<and> overlaps locs threshold n (cur ! nat j) then cur[nat j := -1] else cur)"
proof -
  have "int k < j + 1 \<longleftrightarrow> int k < j \<or> k = nat j" for k using assms(2,3) by auto
  moreover have "\<not> int (nat j) < j" using assms(2,3) by simp
  ultimately show ?thesis
    using assms unfolding inner_result_def by (auto simp: nth_list_update)
qed

lemma nms_inner_spec:
  assumes vec: "index_vec vc locs order" "length classIds = vc"
    and i: "0 \<le> i" "i < int vc" "classIds ! nat i = filterId" and n: "0 \<le> n" "n < int vc"
  shows "\<exists>order'. nms_inner (int vc) locs classIds filterId threshold i n order = Some order' \<and>
    inner_result locs threshold i n order (int vc) order'"
proof -
  let ?body = "\<lambda>j order. do {
         m \<leftarrow> rd order j;
         ci \<leftarrow> rd classIds i;
         if m = -1 \<or> ci \<noteq> filterId then Some (Nxt order)
         else do { v \<leftarrow> iou locs n m;
             if fl_less threshold v then map_option Nxt (wr order j (-1)) else Some (Nxt order) } }"
  have len: "length order = vc" "length locs = 4 * vc" using vec by (simp_all add: index_vec_def)
  have "\<exists>s'. for_up ?body (i + 1) (int vc) order = Some s' \<and>
      inner_result locs threshold i n order (max (i + 1) (int vc)) s'"
  proof (rule for_up_rule)
    show "inner_result locs threshold i n order (i + 1) order" by (auto simp: inner_result_def)
  next
    fix j cur assume j: "i + 1 \<le> j" "j < int vc" and inv: "inner_result locs threshold i n order j cur"
    have j': "i < j" "j < int (length order)" and cur: "length cur = vc"
      using j inv len by (auto simp: inner_result_def)
    have "cur ! nat j = order ! nat j"
      using inv j' i by (auto simp: inner_result_def)
    then have rng: "cur ! nat j = -1 \<or> 0 \<le> cur ! nat j \<and> cur ! nat j < int vc"
      using index_vec_entry[OF vec(1), of "nat j"] j i(1) by auto
    have rds: "rd cur j = Some (cur ! nat j)" "rd classIds i = Some filterId"
      "\<And>v. wr cur j v = Some (cur[nat j := v])"
      using j i cur vec(2) by (simp_all add: rd_Some wr_Some)
    have "?body j cur = Some (Nxt (if cur ! nat j \<noteq> -1 \<and> overlaps locs threshold n (cur ! nat j)
        then cur[nat j := -1] else cur))"
      using rng iou_some[OF n, of "cur ! nat j" locs] len(2) by (auto simp: rds overlaps_def)
    then show "(\<exists>t'. ?body j cur = Some (Nxt t') \<and> inner_result locs threshold i n order (j + 1) t') \<or>
        (\<exists>t'. ?body j cur = Some (Brk t') \<and> inner_result locs threshold i n order (int vc) t')"
      using inner_result_step[OF inv j'(1) i(1) j'(2)] by simp
  qed
  then show ?thesis using i by (simp add: nms_inner_def max_def)
qed

lemma inner_result_suppressed:
  "inner_result locs threshold i n order j cur \<Longrightarrow> suppressed_from order cur"
  by (auto simp: inner_result_def suppressed_from_def)

lemma inner_result_before:
  "inner_result locs threshold i n order j cur \<Longrightarrow> k < length order \<Longrightarrow> int k \<le> i \<Longrightarrow> cur ! k = order ! k"
  by (auto simp: inner_result_def)

text \<open>
  The contract of one pass for a class: nothing but suppression; no survivor behind a survivor
  of the class overlaps it; and every suppressed entry is overlapped by a survivor of the class
  in front of it.  \<open>i\<close> is the number of entries already used as suppressors.
\<close>

definition pass_result ::
    "fl list \<Rightarrow> int list \<Rightarrow> int \<Rightarrow> fl \<Rightarrow> int list \<Rightarrow> int \<Rightarrow> int list \<Rightarrow> bool" where
  "pass_result locs classIds filterId threshold order i cur \<longleftrightarrow>
     suppressed_from order cur \<and>
     (\<forall>a b. a < b \<and> b < length order \<and> int a < i \<and> classIds ! a = filterId \<and>
        cur ! a \<noteq> -1 \<and> cur ! b \<noteq> -1 \<longrightarrow> \<not> overlaps locs threshold (cur ! a) (cur ! b)) \<and>
     (\<forall>b < length order. order ! b \<noteq> -1 \<and> cur ! b = -1 \<longrightarrow>
        (\<exists>a < b. int a < i \<and> classIds ! a = filterId \<and> cur ! a \<noteq> -1 \<and>
           overlaps locs threshold (order ! a) (order ! b)))"

lemma pass_result_skip:
  assumes "pass_result locs classIds filterId threshold order i cur" and "0 \<le> i"
    and "cur ! nat i = -1 \<or> classIds ! nat i \<noteq> filterId"
  shows "pass_result locs classIds filterId threshold order (i + 1) cur"
proof -
  note d = assms(1)[unfolded pass_result_def]
  have "\<not> overlaps locs threshold (cur ! a) (cur ! b)"
    if "a < b" "b < length order" "int a < i + 1" "classIds ! a = filterId" "cur ! a \<noteq> -1" "cur ! b \<noteq> -1"
    for a b
  proof -
    have "a \<noteq> nat i" using assms(3) that by auto
    then have "int a < i" using that(3) assms(2) by auto
    then show ?thesis using d that by blast
  qed
  moreover have "\<exists>a < b. int a < i + 1 \<and> classIds ! a = filterId \<and> cur ! a \<noteq> -1 \<and>
      overlaps locs threshold (order ! a) (order ! b)"
    if "b < length order" "order ! b \<noteq> -1" "cur ! b = -1" for b
    using d that by (meson zless_add1_eq)
  ultimately show ?thesis using d unfolding pass_result_def by blast
qed

lemma pass_result_use:
  assumes inv: "pass_result locs classIds filterId threshold order i cur"
    and i: "0 \<le> i" "i < int (length order)" and n: "cur ! nat i \<noteq> -1" "classIds ! nat i = filterId"
    and inner: "inner_result locs threshold i (cur ! nat i) cur (int (length order)) cur'"
  shows "pass_result locs classIds filterId threshold order (i + 1) cur'"
proof -
  have sup: "suppressed_from order cur" using inv by (simp add: pass_result_def)
  have sup': "suppressed_from cur cur'" by (rule inner_result_suppressed[OF inner])
  have len: "length cur = length order" using sup by (simp add: suppressed_from_def)
  have split: "int a < i + 1 \<longleftrightarrow> int a < i \<or> a = nat i" for a using i by auto
  have before: "cur' ! a = cur ! a" if "a < length order" "int a \<le> i" for a
    using inner_result_before[OF inner] that len by simp
  have kept: "cur' ! a = cur ! a" if "a < length order" "cur' ! a \<noteq> -1" for a
    using suppressed_from_kept[OF sup'] that len by simp
  have behind: "cur' ! b = -1 \<longleftrightarrow> cur ! b = -1 \<or> overlaps locs threshold (cur ! nat i) (cur ! b)"
    if b: "nat i < b" "b < length order" for b
  proof -
    have "cur' ! b = (if i < int b \<and> int b < int (length order) \<and> cur ! b \<noteq> -1 \<and>
        overlaps locs threshold (cur ! nat i) (cur ! b) then -1 else cur ! b)"
      using inner b(2) len unfolding inner_result_def by simp
    moreover have "i < int b" using b(1) i(1) by simp
    ultimately show ?thesis using b(2) by simp
  qed
  have "\<not> overlaps locs threshold (cur' ! a) (cur' ! b)"
    if ab: "a < b" "b < length order" "int a < i + 1" "classIds ! a = filterId"
      "cur' ! a \<noteq> -1" "cur' ! b \<noteq> -1" for a b
  proof -
    have e: "cur' ! a = cur ! a" "cur' ! b = cur ! b" using kept[of a] kept[of b] ab by simp_all
    show ?thesis
    proof (cases "a = nat i")
      case True
      then show ?thesis using behind[of b] ab(1,2,6) e by simp
    next
      case False
      then have "int a < i" using ab(3) unfolding split by simp
      then show ?thesis using inv ab e unfolding pass_result_def by simp
    qed
  qed
  moreover have "\<exists>a < b. int a < i + 1 \<and> classIds ! a = filterId \<and> cur' ! a \<noteq> -1 \<and>
      overlaps locs threshold (order ! a) (order ! b)"
    if b: "b < length order" "order ! b \<noteq> -1" "cur' ! b = -1" for b
  proof (cases "cur ! b = -1")
    case True
    then obtain a where "a < b" "int a < i" "classIds ! a = filterId" "cur ! a \<noteq> -1"
        "overlaps locs threshold (order ! a) (order ! b)"
      using inv b unfolding pass_result_def by blast
    then show ?thesis using before[of a] b(1) by (intro exI[of _ a]) auto
  next
    case False
    then have lt: "nat i < b" using before[of b] b i by force
    then have "overlaps locs threshold (cur ! nat i) (cur ! b)" using behind[of b] b False by simp
    moreover have "cur ! nat i = order ! nat i" "cur ! b = order ! b"
      using suppressed_from_kept[OF sup] n(1) False i b(1) by auto
    ultimately show ?thesis using lt i n before[of "nat i"] b(1)
      by (intro exI[of _ "nat i"]) auto
  qed
  ultimately show ?thesis
    using suppressed_from_trans[OF sup sup'] unfolding pass_result_def by blast
qed

lemma nms_spec:
  assumes vec: "index_vec vc locs order" "length classIds = vc"
  shows "\<exists>order'. nms (int vc) locs classIds order filterId threshold = Some order' \<and>
    pass_result locs classIds filterId threshold order (int vc) order'"
proof -
  let ?body = "\<lambda>i order. do {
         n \<leftarrow> rd order i;
         ci \<leftarrow> rd classIds i;
         if n = -1 \<or> ci \<noteq> filterId then Some (Nxt order)
         else map_option Nxt (nms_inner (int vc) locs classIds filterId threshold i n order) }"
  have len: "length order = vc" using vec by (simp add: index_vec_def)
  have "\<exists>s'. for_up ?body 0 (int vc) order = Some s' \<and>
      pass_result locs classIds filterId threshold order (max 0 (int vc)) s'"
  proof (rule for_up_rule)
    show "pass_result locs classIds filterId threshold order 0 order" by (auto simp: pass_result_def)
  next
    fix i cur assume i: "0 \<le> i" "i < int vc"
      and inv: "pass_result locs classIds filterId threshold order i cur"
    have vec': "index_vec vc locs cur"
      using index_vec_suppressed[OF vec(1)] inv by (simp add: pass_result_def)
    have rds: "rd cur i = Some (cur ! nat i)" "rd classIds i = Some (classIds ! nat i)"
      using i vec(2) vec' by (simp_all add: rd_Some index_vec_def)
    show "(\<exists>t'. ?body i cur = Some (Nxt t') \<and> pass_result locs classIds filterId threshold order (i + 1) t') \<or>
        (\<exists>t'. ?body i cur = Some (Brk t') \<and> pass_result locs classIds filterId threshold order (int vc) t')"
    proof (cases "cur ! nat i = -1 \<or> classIds ! nat i \<noteq> filterId")
      case True
      then show ?thesis using pass_result_skip[OF inv i(1)] by (auto simp: rds)
    next
      case False
      then have "0 \<le> cur ! nat i" "cur ! nat i < int vc"
        using index_vec_entry[OF vec', of "nat i"] i by auto
      then obtain cur' where "nms_inner (int vc) locs classIds filterId threshold i (cur ! nat i) cur = Some cur'"
          "inner_result locs threshold i (cur ! nat i) cur (int vc) cur'"
        using nms_inner_spec[OF vec' vec(2) i] False by blast
      then show ?thesis using False pass_result_use[OF inv i(1)] i len by (simp add: rds)
    qed
  qed
  then show ?thesis by (simp add: nms_def max_def)
qed

section \<open>Properties\<close>

text \<open>
  C3. One pass of \<open>nms\<close> for a class is greedy non-maximum suppression: it returns without an
  access outside the vectors and changes entries only to -1; two entries that are left and of
  which the first stands at a position of the class do not overlap beyond the threshold; and an
  entry is suppressed only when one that is left in front of it, at a position of the class,
  overlaps it beyond the threshold.
\<close>

theorem nms_greedy:
  assumes "index_vec vc locs order" and "length classIds = vc"
  shows "\<exists>order'. nms (int vc) locs classIds order filterId threshold = Some order' \<and>
    suppressed_from order order' \<and>
    (\<forall>a b. a < b \<and> b < vc \<and> classIds ! a = filterId \<and> order' ! a \<noteq> -1 \<and> order' ! b \<noteq> -1 \<longrightarrow>
       \<not> overlaps locs threshold (order' ! a) (order' ! b)) \<and>
    (\<forall>b < vc. order ! b \<noteq> -1 \<and> order' ! b = -1 \<longrightarrow>
       (\<exists>a < b. classIds ! a = filterId \<and> order' ! a \<noteq> -1 \<and> overlaps locs threshold (order ! a) (order ! b)))"
proof -
  have len: "length order = vc" using assms(1) by (simp add: index_vec_def)
  obtain order' where "nms (int vc) locs classIds order filterId threshold = Some order'"
    "pass_result locs classIds filterId threshold order (int vc) order'"
    using nms_spec[OF assms] by blast
  then show ?thesis unfolding pass_result_def len by (intro exI[of _ order']) auto
qed

theorem nms_greedy_witness:
  "\<exists>order'. nms (int 2) [Fin 0, Fin 0, Fin 3, Fin 3, Fin 0, Fin 0, Fin 3, Fin 3] [15, 15] [1, 0] 15
      (Fin (1/2)) = Some order' \<and>
    suppressed_from [1, 0] order' \<and>
    (\<forall>a b. a < b \<and> b < 2 \<and> [15, 15] ! a = (15::int) \<and> order' ! a \<noteq> -1 \<and> order' ! b \<noteq> -1 \<longrightarrow>
       \<not> overlaps [Fin 0, Fin 0, Fin 3, Fin 3, Fin 0, Fin 0, Fin 3, Fin 3] (Fin (1/2)) (order' ! a) (order' ! b)) \<and>
    (\<forall>b < 2. [1, 0] ! b \<noteq> (-1::int) \<and> order' ! b = -1 \<longrightarrow>
       (\<exists>a < b. [15, 15] ! a = (15::int) \<and> order' ! a \<noteq> -1 \<and>
          overlaps [Fin 0, Fin 0, Fin 3, Fin 3, Fin 0, Fin 0, Fin 3, Fin 3] (Fin (1/2)) ([1, 0] ! a) ([1, 0] ! b)))"
  by (rule nms_greedy) (simp_all add: index_vec_def)

end
