(* ===== verification/Postprocess.thy ===== *)
theory Postprocess
  imports Score_Sort Yolo_Decode Nms
begin

text \<open>
  \<open>post_process\<close> of \<^verbatim>\<open>postprocess.cc\<close> in the configured build (RV1106_1103): the
  three quantised outputs are decoded, the candidates sorted by score, overlapping ones
  suppressed class by class, and at most \<open>OBJ_NUMB_MAX_SIZE\<close> results reported in model
  coordinates.
\<close>

section \<open>Data\<close>

text \<open>What the code reads of \<open>rknn_tensor_attr\<close> and \<open>rknn_app_context_t\<close>.\<close>

record tensor_attr =
  dims :: "int list"
  zp :: int
  scale :: fl

record rknn_app_context =
  model_width :: int
  model_height :: int
  is_quant :: bool
  output_attrs :: "tensor_attr list"

text \<open>\<open>image_rect_t\<close>, \<open>object_detect_result\<close> and \<open>object_detect_result_list\<close>.\<close>

record image_rect =
  left :: int
  top :: int
  right :: int
  bottom :: int

record object_detect_result =
  obj_box :: image_rect
  obj_prop :: fl
  cls_id :: int

text \<open>Only the first \<open>count\<close> slots of the result array are kept; the rest stay zero.\<close>

record object_detect_result_list =
  count :: int
  results :: "object_detect_result list"

section \<open>The code\<close>

definition decode_output ::
    "rknn_app_context \<Rightarrow> int list list \<Rightarrow> fl \<Rightarrow> int \<Rightarrow> cands \<times> int \<Rightarrow> (cands \<times> int) option" where
  "decode_output app_ctx outputs conf_threshold i = (\<lambda>(st, validCount).
     do {
       attr \<leftarrow> rd (output_attrs app_ctx) i;
       grid_h \<leftarrow> rd (dims attr) 2;
       grid_w \<leftarrow> rd (dims attr) 1;
       if grid_h = 0 then None
       else
         (let stride = model_height app_ctx sdiv grid_h
          in if is_quant app_ctx then
               do {
                 output \<leftarrow> rd outputs i;
                 anchor \<leftarrow> rd anchors i;
                 (st', n) \<leftarrow> process_i8_rv1106 output anchor grid_h grid_w stride conf_threshold
                   (zp attr) (scale attr) st;
                 Some (st', validCount + n)
               }
             else Some (st, validCount))
     })"

definition report_box :: "rknn_app_context \<Rightarrow> fl list \<Rightarrow> int \<Rightarrow> image_rect option" where
  "report_box app_ctx filterBoxes n =
     do {
       x1 \<leftarrow> rd filterBoxes (n * 4 + 0);
       y1 \<leftarrow> rd filterBoxes (n * 4 + 1);
       w \<leftarrow> rd filterBoxes (n * 4 + 2);
       h \<leftarrow> rd filterBoxes (n * 4 + 3);
       l \<leftarrow> clamp x1 0 (model_width app_ctx);
       t \<leftarrow> clamp y1 0 (model_height app_ctx);
       r \<leftarrow> clamp (fl_add rnd32 x1 w) 0 (model_width app_ctx);
       b \<leftarrow> clamp (fl_add rnd32 y1 h) 0 (model_height app_ctx);
       Some \<lparr>left = l, top = t, right = r, bottom = b\<rparr>
     }"

definition report_step ::
    "rknn_app_context \<Rightarrow> fl list \<Rightarrow> int list \<Rightarrow> fl list \<Rightarrow> int list \<Rightarrow> int \<Rightarrow>
     object_detect_result list \<Rightarrow> object_detect_result list option" where
  "report_step app_ctx filterBoxes classId objProbs indexArray i res =
     do {
       n \<leftarrow> rd indexArray i;
       if n = -1 \<or> int (length res) \<ge> OBJ_NUMB_MAX_SIZE then Some res
       else
         do {
           b \<leftarrow> report_box app_ctx filterBoxes n;
           c \<leftarrow> rd classId n;
           obj_conf \<leftarrow> rd objProbs i;
           Some (res @ [\<lparr>obj_box = b, obj_prop = obj_conf, cls_id = c\<rparr>])
         }
     }"

definition post_process ::
    "rknn_app_context \<Rightarrow> int list list \<Rightarrow> fl \<Rightarrow> fl \<Rightarrow> object_detect_result_list option" where
  "post_process app_ctx outputs conf_threshold nms_threshold =
     do {
       (st, validCount) \<leftarrow> for_up (\<lambda>i s. map_option Nxt (decode_output app_ctx outputs conf_threshold i s))
         0 3 (\<lparr>boxes = [], scores = [], classes = []\<rparr>, 0);
       if validCount \<le> 0 then Some \<lparr>count = 0, results = []\<rparr>
       else
         do {
           let indexArray = map int [0..<nat validCount];
           (objProbs, indexArray, _) \<leftarrow>
             quick_sort_indice_inverse (scores st) 0 (validCount - 1) indexArray;
           let class_set = sorted_list_of_set (set (classes st));
           indexArray \<leftarrow> nms_classes class_set validCount (boxes st) (classes st) indexArray nms_threshold;
           res \<leftarrow> for_up (\<lambda>i res. map_option Nxt
             (report_step app_ctx (boxes st) (classes st) objProbs indexArray i res)) 0 validCount [];
           Some \<lparr>count = int (length res), results = res\<rparr>
         }
     }"

section \<open>Suppression over all classes\<close>

lemma nms_classes_spec:
  assumes "index_vec vc locs order" and "length classIds = vc"
  shows "\<exists>order'. nms_classes cs (int vc) locs classIds order threshold = Some order' \<and>
    suppressed_from order order' \<and>
    (\<forall>a b. a < b \<and> b < vc \<and> classIds ! a \<in> set cs \<and> order' ! a \<noteq> -1 \<and> order' ! b \<noteq> -1 \<longrightarrow>
       \<not> overlaps locs threshold (order' ! a) (order' ! b)) \<and>
    (\<forall>b < vc. order ! b \<noteq> -1 \<and> order' ! b = -1 \<longrightarrow>
       (\<exists>a < b. order ! a \<noteq> -1 \<and> overlaps locs threshold (order ! a) (order ! b)))"
  using assms
proof (induction cs arbitrary: order)
  case Nil
  then show ?case by auto
next
  case (Cons c cs)
  have len: "length order = vc" using Cons.prems by (simp add: index_vec_def)
  obtain o1 where o1: "nms (int vc) locs classIds order c threshold = Some o1"
    "pass_result locs classIds c threshold order (int vc) o1"
    using nms_spec[OF Cons.prems] by blast
  note d1 = o1(2)[unfolded pass_result_def len]
  have "index_vec vc locs o1" using index_vec_suppressed[OF Cons.prems(1)] d1 by blast
  then obtain o2 where o2: "nms_classes cs (int vc) locs classIds o1 threshold = Some o2"
    "suppressed_from o1 o2"
    "\<And>a b. a < b \<Longrightarrow> b < vc \<Longrightarrow> classIds ! a \<in> set cs \<Longrightarrow> o2 ! a \<noteq> -1 \<Longrightarrow> o2 ! b \<noteq> -1 \<Longrightarrow>
       \<not> overlaps locs threshold (o2 ! a) (o2 ! b)"
    "\<And>b. b < vc \<Longrightarrow> o1 ! b \<noteq> -1 \<Longrightarrow> o2 ! b = -1 \<Longrightarrow>
       \<exists>a < b. o1 ! a \<noteq> -1 \<and> overlaps locs threshold (o1 ! a) (o1 ! b)"
    using Cons.IH[OF _ Cons.prems(2), of o1] by blast
  have len1: "length o1 = vc" using d1 len by (simp add: suppressed_from_def)
  have k1: "o1 ! k = order ! k" if "k < vc" "o1 ! k \<noteq> -1" for k
    using d1 suppressed_from_kept len that by metis
  have k2: "o2 ! k = o1 ! k" if "k < vc" "o2 ! k \<noteq> -1" for k
    using o2(2) suppressed_from_kept len1 that by metis
  have "\<not> overlaps locs threshold (o2 ! a) (o2 ! b)"
    if ab: "a < b" "b < vc" "classIds ! a \<in> set (c # cs)" "o2 ! a \<noteq> -1" "o2 ! b \<noteq> -1" for a b
  proof (cases "classIds ! a \<in> set cs")
    case True
    then show ?thesis using o2(3) ab by blast
  next
    case False
    then have "classIds ! a = c" using ab(3) by simp
    moreover have "o2 ! a = o1 ! a" "o2 ! b = o1 ! b" using k2 ab by auto
    ultimately show ?thesis using d1 ab by auto
  qed
  moreover have "\<exists>a < b. order ! a \<noteq> -1 \<and> overlaps locs threshold (order ! a) (order ! b)"
    if b: "b < vc" "order ! b \<noteq> -1" "o2 ! b = -1" for b
  proof (cases "o1 ! b = -1")
    case True
    then obtain a where "a < b" "o1 ! a \<noteq> -1" "overlaps locs threshold (order ! a) (order ! b)"
      using d1 b by blast
    then show ?thesis using k1[of a] b(1) by (intro exI[of _ a]) auto
  next
    case False
    then obtain a where "a < b" "o1 ! a \<noteq> -1" "overlaps locs threshold (o1 ! a) (o1 ! b)"
      using o2(4) b by blast
    then show ?thesis using k1[of a] k1[of b] False b(1) by (intro exI[of _ a]) auto
  qed
  ultimately show ?case using o1(1) o2(1) suppressed_from_trans[OF _ o2(2)] d1 by auto
qed

section \<open>The whole pipeline\<close>

text \<open>
  What the pipeline relies on of the model file: three output attributes with NHWC dimensions
  that match the tensors handed over, a zero point within the exact integers of \<open>float\<close>, a scale that is a number,
  and model sizes a \<open>float\<close> represents exactly.
\<close>

definition model_io_ok :: "rknn_app_context \<Rightarrow> int list list \<Rightarrow> bool" where
  "model_io_ok app_ctx outputs \<longleftrightarrow>
     0 \<le> model_width app_ctx \<and> model_width app_ctx < 16777216 \<and>
     0 \<le> model_height app_ctx \<and> model_height app_ctx < 16777216 \<and>
     length (output_attrs app_ctx) = 3 \<and> length outputs = 3 \<and>
     (\<forall>i < 3. let attr = output_attrs app_ctx ! i in
        length (dims attr) = 4 \<and> 0 < dims attr ! 2 \<and> scale attr \<noteq> NaN \<and> \<bar>zp attr\<bar> < 16777216 \<and>
        int (length (outputs ! i)) = dims attr ! 2 * dims attr ! 1 * (PROP_BOX_SIZE * 3))"

lemma anchors_ok: "i < 3 \<Longrightarrow> anchor_ok (anchors ! i)"
  by (auto simp: anchors_def anchor_ok_def less_Suc_eq numeral_3_eq_3)

lemma decode_output_ok:
  assumes io: "model_io_ok app_ctx outputs" and t: "t \<noteq> 0" and i: "0 \<le> i" "i < 3"
    and inv: "counted (fl_less (Fin t)) 0 s"
  shows "\<exists>s'. decode_output app_ctx outputs (Fin t) i s = Some s' \<and> counted (fl_less (Fin t)) 0 s'"
proof -
  obtain st n where s: "s = (st, n)" by fastforce
  define attr where "attr = output_attrs app_ctx ! nat i"
  have a: "length (dims attr) = 4" "0 < dims attr ! 2" "scale attr \<noteq> NaN" "\<bar>zp attr\<bar> < 16777216"
    "int (length (outputs ! nat i)) = dims attr ! 2 * dims attr ! 1 * (PROP_BOX_SIZE * 3)"
    using io i unfolding model_io_ok_def attr_def Let_def by (auto dest!: spec[of _ "nat i"])
  have r: "rd (output_attrs app_ctx) i = Some attr" "rd outputs i = Some (outputs ! nat i)"
    "rd anchors i = Some (anchors ! nat i)"
    "rd (dims attr) 2 = Some (dims attr ! 2)" "rd (dims attr) 1 = Some (dims attr ! 1)"
    using io i a(1) by (simp_all add: rd_Some model_io_ok_def attr_def anchors_def)
  obtain q where q: "qnt_f32_to_affine (Fin t) (zp attr) (scale attr) = Some q"
    using qnt_range[OF t a(3,4)] by blast
  have st: "cands_ok (fl_less (Fin t)) st" using inv by (simp add: s counted_def)
  have i3: "nat i < 3" using i by simp
  obtain st' n' where p: "process_i8_rv1106 (outputs ! nat i) (anchors ! nat i) (dims attr ! 2) (dims attr ! 1)
      (model_height app_ctx sdiv (dims attr ! 2)) (Fin t) (zp attr) (scale attr) st = Some (st', n')"
    "counted (fl_less (Fin t)) (length (scores st)) (st', n')"
    using process_i8_rv1106_ok[OF a(5) anchors_ok[OF i3] q st, of "model_height app_ctx sdiv dims attr ! 2"]
    by (metis prod.collapse)
  have "decode_output app_ctx outputs (Fin t) i s =
      Some (if is_quant app_ctx then (st', n + n') else (st, n))"
    unfolding decode_output_def s prod.case r bind.bind_lunit Let_def p(1)
    using a(2) by simp
  then show ?thesis
    using p(2) inv by (cases "is_quant app_ctx") (auto simp: s counted_def)
qed

definition result_ok :: "rknn_app_context \<Rightarrow> fl \<Rightarrow> object_detect_result \<Rightarrow> bool" where
  "result_ok app_ctx conf d \<longleftrightarrow>
     0 \<le> left (obj_box d) \<and> left (obj_box d) \<le> right (obj_box d) \<and> right (obj_box d) \<le> model_width app_ctx \<and>
     0 \<le> top (obj_box d) \<and> top (obj_box d) \<le> bottom (obj_box d) \<and> bottom (obj_box d) \<le> model_height app_ctx \<and>
     0 \<le> cls_id d \<and> cls_id d < OBJ_CLASS_NUM \<and> fl_less conf (obj_prop d)"

lemma report_box_ok:
  assumes "edges_ok bs" and "length bs = 4 * vc" and "0 \<le> n" and "n < int vc"
    and "0 \<le> model_width app_ctx" "model_width app_ctx < 16777216"
    and "0 \<le> model_height app_ctx" "model_height app_ctx < 16777216"
  shows "\<exists>b. report_box app_ctx bs n = Some b \<and>
     0 \<le> left b \<and> left b \<le> right b \<and> right b \<le> model_width app_ctx \<and>
     0 \<le> top b \<and> top b \<le> bottom b \<and> bottom b \<le> model_height app_ctx"
proof -
  define k where "k = nat n"
  have k: "n = int k" "4 * k + 3 < length bs" using assms(2-4) by (auto simp: k_def)
  have r: "rd bs (n * 4 + 0) = Some (bs ! (4 * k))" "rd bs (n * 4 + 1) = Some (bs ! (4 * k + 1))"
    "rd bs (n * 4 + 2) = Some (bs ! (4 * k + 2))" "rd bs (n * 4 + 3) = Some (bs ! (4 * k + 3))"
    using k by (auto simp: rd_def nat_add_distrib nat_mult_distrib mult.commute)
  have e: "edge_ok (bs ! (4 * k)) (bs ! (4 * k + 2))" "edge_ok (bs ! (4 * k + 1)) (bs ! (4 * k + 3))"
    using assms(1) k(2) by (auto simp: edges_ok_def)
  show ?thesis
    using clamp_edge[OF e(1) assms(5,6)] clamp_edge[OF e(2) assms(7,8)] unfolding report_box_def r by auto
qed

section \<open>The report loop\<close>

definition report_of ::
    "rknn_app_context \<Rightarrow> cands \<Rightarrow> fl list \<Rightarrow> int list \<Rightarrow> nat \<Rightarrow> object_detect_result" where
  "report_of app_ctx st objProbs order k =
     \<lparr>obj_box = the (report_box app_ctx (boxes st) (order ! k)),
      obj_prop = objProbs ! k, cls_id = classes st ! nat (order ! k)\<rparr>"

text \<open>The positions of the entries that are not suppressed, and the reports of the first 128 of them.\<close>

definition survivors :: "int list \<Rightarrow> nat \<Rightarrow> nat list" where
  "survivors order n = [k \<leftarrow> [0..<n]. order ! k \<noteq> -1]"

definition report_upto ::
    "rknn_app_context \<Rightarrow> cands \<Rightarrow> fl list \<Rightarrow> int list \<Rightarrow> nat \<Rightarrow> object_detect_result list" where
  "report_upto app_ctx st objProbs order n =
     map (report_of app_ctx st objProbs order) (take 128 (survivors order n))"

lemma survivors_Suc:
  "survivors order (Suc n) = survivors order n @ (if order ! n = -1 then [] else [n])"
  by (simp add: survivors_def)

lemma report_step_upto:
  assumes vec: "index_vec vc (boxes st) order" and len: "length (classes st) = vc" "length objProbs = vc"
    and e: "edges_ok (boxes st)" and k: "k < vc"
    and m: "0 \<le> model_width app_ctx" "model_width app_ctx < 16777216"
      "0 \<le> model_height app_ctx" "model_height app_ctx < 16777216"
  shows "report_step app_ctx (boxes st) (classes st) objProbs order (int k)
      (report_upto app_ctx st objProbs order k) = Some (report_upto app_ctx st objProbs order (Suc k))"
proof -
  have rds: "rd order (int k) = Some (order ! k)" "rd objProbs (int k) = Some (objProbs ! k)"
    using vec k len by (simp_all add: rd_Some index_vec_def)
  consider "order ! k = -1" | "order ! k \<noteq> -1" "128 \<le> length (survivors order k)"
    | "order ! k \<noteq> -1" "length (survivors order k) < 128" by linarith
  then show ?thesis
  proof cases
    case 3
    then have n: "0 \<le> order ! k" "order ! k < int vc" using index_vec_entry[OF vec k] by auto
    have "length (boxes st) = 4 * vc" using vec by (simp add: index_vec_def)
    from report_box_ok[OF e this n m] obtain b
      where b: "report_box app_ctx (boxes st) (order ! k) = Some b" by blast
    have "rd (classes st) (order ! k) = Some (classes st ! nat (order ! k))"
      using n len by (simp add: rd_Some)
    then show ?thesis
      using 3 b by (simp add: report_step_def rds report_upto_def survivors_Suc OBJ_NUMB_MAX_SIZE_def report_of_def)
  qed (simp_all add: report_step_def rds report_upto_def survivors_Suc OBJ_NUMB_MAX_SIZE_def)
qed

lemma report_loop:
  assumes "index_vec vc (boxes st) order" and "length (classes st) = vc" "length objProbs = vc"
    and "edges_ok (boxes st)"
    and "0 \<le> model_width app_ctx" "model_width app_ctx < 16777216"
      "0 \<le> model_height app_ctx" "model_height app_ctx < 16777216"
  shows "for_up (\<lambda>i res. map_option Nxt
      (report_step app_ctx (boxes st) (classes st) objProbs order i res)) 0 (int vc) [] =
    Some (report_upto app_ctx st objProbs order vc)"
proof -
  let ?P = "\<lambda>i res. res = report_upto app_ctx st objProbs order (nat i)"
  have "\<exists>s'. for_up (\<lambda>i res. map_option Nxt
      (report_step app_ctx (boxes st) (classes st) objProbs order i res)) 0 (int vc) [] = Some s' \<and>
    ?P (max 0 (int vc)) s'"
  proof (rule for_each_rule)
    show "[] = report_upto app_ctx st objProbs order (nat 0)"
      by (simp add: report_upto_def survivors_def)
  next
    fix j t assume j: "0 \<le> j" "j < int vc" and t: "?P j t"
    have "Suc (nat j) = nat (j + 1)" using j by simp
    then show "\<exists>t'. report_step app_ctx (boxes st) (classes st) objProbs order j t = Some t' \<and> ?P (j + 1) t'"
      using report_step_upto[OF assms(1-4) _ assms(5-8), of "nat j"] j t by simp
  qed
  then show ?thesis by (simp add: max_def)
qed

lemma survivors_sorted: "sorted_wrt (<) (survivors order n)"
  unfolding survivors_def by (rule sorted_wrt_filter) (rule sorted_wrt_upt)

lemma report_upto_ok:
  assumes vec: "index_vec (length (scores st)) (boxes st) order" and st: "cands_ok (fl_less conf) st"
    and probs: "length objProbs = length (scores st)" "set objProbs \<subseteq> set (scores st)"
      "\<And>i j. i \<le> j \<Longrightarrow> j < length (scores st) \<Longrightarrow> fl_le (objProbs ! j) (objProbs ! i)"
    and m: "0 \<le> model_width app_ctx" "model_width app_ctx < 16777216"
      "0 \<le> model_height app_ctx" "model_height app_ctx < 16777216"
  shows "length (report_upto app_ctx st objProbs order (length (scores st))) \<le> 128"
    and "\<And>d. d \<in> set (report_upto app_ctx st objProbs order (length (scores st))) \<Longrightarrow> result_ok app_ctx conf d"
    and "sorted_wrt (\<lambda>d e. fl_le (obj_prop e) (obj_prop d))
      (report_upto app_ctx st objProbs order (length (scores st)))"
proof -
  let ?n = "length (scores st)" and ?ks = "take 128 (survivors order (length (scores st)))"
  show "length (report_upto app_ctx st objProbs order ?n) \<le> 128" by (simp add: report_upto_def)
  have mem: "k < ?n" "order ! k \<noteq> -1" if "k \<in> set ?ks" for k
    using set_take_subset[of 128 "survivors order ?n"] that by (auto simp: survivors_def)
  show "sorted_wrt (\<lambda>d e. fl_le (obj_prop e) (obj_prop d)) (report_upto app_ctx st objProbs order ?n)"
    unfolding report_upto_def sorted_wrt_map
    by (rule sorted_wrt_mono_rel[OF _ sorted_wrt_take[OF survivors_sorted]])
       (use mem(1) probs(3) in \<open>simp add: report_of_def\<close>)
  fix d assume "d \<in> set (report_upto app_ctx st objProbs order ?n)"
  then obtain k where d: "d = report_of app_ctx st objProbs order k" and k: "k \<in> set ?ks"
    by (auto simp: report_upto_def)
  have n: "0 \<le> order ! k" "order ! k < int ?n" using index_vec_entry[OF vec mem(1)[OF k]] mem(2)[OF k] by auto
  have st': "length (boxes st) = 4 * ?n" "length (classes st) = ?n" "edges_ok (boxes st)"
    using st by (auto simp: cands_ok_def)
  have "classes st ! nat (order ! k) \<in> set (classes st)" "objProbs ! k \<in> set (scores st)"
    using n st'(2) probs(1,2) mem(1)[OF k] by (auto intro!: nth_mem)
  then have "0 \<le> cls_id d" "cls_id d < OBJ_CLASS_NUM" "fl_less conf (obj_prop d)"
    using st by (auto simp: cands_ok_def d report_of_def)
  moreover obtain b where "report_box app_ctx (boxes st) (order ! k) = Some b"
     "0 \<le> left b \<and> left b \<le> right b \<and> right b \<le> model_width app_ctx \<and>
     0 \<le> top b \<and> top b \<le> bottom b \<and> bottom b \<le> model_height app_ctx"
    using report_box_ok[OF st'(3,1) n m] by blast
  ultimately show "result_ok app_ctx conf d" by (simp add: result_ok_def d report_of_def)
qed

section \<open>The pipeline\<close>

lemma decode_loop:
  assumes "model_io_ok app_ctx outputs" and "t \<noteq> 0"
  shows "\<exists>st. for_up (\<lambda>i s. map_option Nxt (decode_output app_ctx outputs (Fin t) i s))
      0 3 (\<lparr>boxes = [], scores = [], classes = []\<rparr>, 0) = Some (st, int (length (scores st))) \<and>
    cands_ok (fl_less (Fin t)) st"
proof -
  let ?s0 = "(\<lparr>boxes = [], scores = [], classes = []\<rparr>, 0)"
  have "counted (fl_less (Fin t)) 0 ?s0" by (simp add: counted_def cands_ok_def edges_ok_def)
  then have "\<exists>s. for_up (\<lambda>i s. map_option Nxt (decode_output app_ctx outputs (Fin t) i s)) 0 3 ?s0 = Some s \<and>
      counted (fl_less (Fin t)) 0 s"
    by (rule for_each_inv) (use decode_output_ok[OF assms] in auto)
  then obtain st n where "for_up (\<lambda>i s. map_option Nxt (decode_output app_ctx outputs (Fin t) i s)) 0 3 ?s0 =
      Some (st, n)" "counted (fl_less (Fin t)) 0 (st, n)"
    by (metis prod.collapse)
  then show ?thesis by (auto simp: counted_def)
qed

lemma no_nan_scores: "cands_ok (fl_less (Fin t)) st \<Longrightarrow> NaN \<notin> set (scores st)"
  by (auto simp: cands_ok_def)

lemma index_vec_perm:
  assumes "mset order = mset (map int [0..<n])" and "length bs = 4 * n"
  shows "index_vec n bs order"
proof -
  have "set order = int ` {0..<n}" using mset_eq_setD[OF assms(1)] by auto
  moreover have "length order = n" using arg_cong[OF assms(1), of size] by simp
  ultimately show ?thesis using assms(2) by (auto simp: index_vec_def)
qed

text \<open>
  The run in terms of its stages: the decoded candidates \<open>st\<close>, their scores in descending
  order with the permutation \<open>order\<close>, and the suppressed index vector the reports are read
  from.
\<close>

lemma post_process_stages:
  assumes io: "model_io_ok app_ctx outputs" and t: "t \<noteq> 0"
  shows "\<exists>st objProbs order order'.
    let n = length (scores st); res = report_upto app_ctx st objProbs order' n in
    post_process app_ctx outputs (Fin t) nms_t = Some \<lparr>count = int (length res), results = res\<rparr> \<and>
    cands_ok (fl_less (Fin t)) st \<and>
    mset order = mset (map int [0..<n]) \<and> length objProbs = n \<and>
    (\<forall>k < n. objProbs ! k = scores st ! nat (order ! k)) \<and>
    (\<forall>i j. i \<le> j \<and> j < n \<longrightarrow> fl_le (objProbs ! j) (objProbs ! i)) \<and>
    index_vec n (boxes st) order' \<and>
    nms_classes (sorted_list_of_set (set (classes st))) (int n) (boxes st) (classes st) order nms_t = Some order'"
proof -
  obtain st where st: "for_up (\<lambda>i s. map_option Nxt (decode_output app_ctx outputs (Fin t) i s))
      0 3 (\<lparr>boxes = [], scores = [], classes = []\<rparr>, 0) = Some (st, int (length (scores st)))"
    "cands_ok (fl_less (Fin t)) st"
    using decode_loop[OF assms] by blast
  define n where "n = length (scores st)"
  have len: "length (boxes st) = 4 * n" "length (classes st) = n" "edges_ok (boxes st)"
    using st(2) by (auto simp: cands_ok_def n_def)
  obtain objProbs order low where q:
    "quick_sort_indice_inverse (scores st) 0 (int n - 1) (map int [0..<n]) = Some (objProbs, order, low)"
    "length objProbs = n" "mset order = mset (map int [0..<n])"
    "\<forall>k < n. objProbs ! k = scores st ! nat (order ! k)"
    "\<forall>i j. i \<le> j \<and> j < n \<longrightarrow> fl_le (objProbs ! j) (objProbs ! i)"
    using qs.sort_iota[OF no_nan_scores[OF st(2)]] by (auto simp: n_def)
  have vec: "index_vec n (boxes st) order" by (rule index_vec_perm[OF q(3) len(1)])
  obtain order' where o: "nms_classes (sorted_list_of_set (set (classes st))) (int n) (boxes st) (classes st)
      order nms_t = Some order'" "suppressed_from order order'"
    using nms_classes_spec[OF vec len(2)] by blast
  have vec': "index_vec n (boxes st) order'" by (rule index_vec_suppressed[OF vec o(2)])
  have m: "0 \<le> model_width app_ctx" "model_width app_ctx < 16777216"
      "0 \<le> model_height app_ctx" "model_height app_ctx < 16777216"
    using io by (auto simp: model_io_ok_def)
  note rep = report_loop[OF vec' len(2) q(2) len(3) m]
  have "post_process app_ctx outputs (Fin t) nms_t =
      Some \<lparr>count = int (length (report_upto app_ctx st objProbs order' n)),
            results = report_upto app_ctx st objProbs order' n\<rparr>"
  proof (cases "n = 0")
    case True
    then show ?thesis by (simp add: post_process_def st(1) n_def report_upto_def survivors_def)
  next
    case False
    then show ?thesis
      unfolding post_process_def st(1)[folded n_def] bind.bind_lunit prod.case Let_def nat_int q(1) o(1) rep
      by simp
  qed
  with st(2) q(2-5) o(1) vec' show ?thesis
    unfolding Let_def n_def by (intro exI[of _ st] exI[of _ objProbs] exI[of _ order] exI[of _ order'] conjI)
qed

text \<open>
  Two equal boxes of different classes, 15 (cat) with the higher score and 16 (dog): the second
  is suppressed although no box of its class competes with it.
\<close>

definition twin_boxes :: "fl list" where
  "twin_boxes = [Fin 0, Fin 0, Fin 3, Fin 3, Fin 0, Fin 0, Fin 3, Fin 3]"

lemma twin_iou: "iou twin_boxes 0 1 = Some (Fin 1)" "iou twin_boxes 1 0 = Some (Fin 1)"
  by (simp_all add: iou_def corners_def rd_def twin_boxes_def CalculateOverlap_def Let_def
      fl_sub_def fl_max_def fl_min_def is_nan_def)

lemma cross_class_example:
  "nms_classes [15, 16] 2 twin_boxes [16, 15] [1, 0] (Fin (9/20)) = Some [1, -1]"
  by (simp add: nms_def nms_inner_def for_up_step for_up_done rd_Some wr_Some twin_iou)

section \<open>Properties\<close>

text \<open>
  C25. Suppression as the pipeline runs it is class-agnostic: once \<open>nms\<close> has run for every
  class that occurs, no two entries that are left overlap beyond the threshold, whatever their
  classes (the code compares the class stored at the position of the suppressor, never the class
  of the candidate), and every entry that was suppressed is overlapped by an entry in front of it.
\<close>

theorem suppression_ignores_class:
  assumes "index_vec vc locs order" and "length classIds = vc" and "set classIds \<subseteq> set cs"
  shows "\<exists>order'. nms_classes cs (int vc) locs classIds order threshold = Some order' \<and>
    suppressed_from order order' \<and>
    (\<forall>a b. a < b \<and> b < vc \<and> order' ! a \<noteq> -1 \<and> order' ! b \<noteq> -1 \<longrightarrow>
       \<not> overlaps locs threshold (order' ! a) (order' ! b)) \<and>
    (\<forall>b < vc. order ! b \<noteq> -1 \<and> order' ! b = -1 \<longrightarrow>
       (\<exists>a < b. order ! a \<noteq> -1 \<and> overlaps locs threshold (order ! a) (order ! b)))"
proof -
  have "classIds ! a \<in> set cs" if "a < b" "b < vc" for a b
    using assms(2,3) that by (metis nth_mem order_less_trans subsetD)
  then show ?thesis using nms_classes_spec[OF assms(1,2), of cs threshold] by blast
qed

theorem suppression_ignores_class_witness:
  "\<exists>order'. nms_classes [15, 16] (int 2) twin_boxes [16, 15] [1, 0] (Fin (9/20)) = Some order' \<and>
    suppressed_from [1, 0] order' \<and>
    (\<forall>a b. a < b \<and> b < 2 \<and> order' ! a \<noteq> -1 \<and> order' ! b \<noteq> -1 \<longrightarrow>
       \<not> overlaps twin_boxes (Fin (9/20)) (order' ! a) (order' ! b)) \<and>
    (\<forall>b < 2. [1, 0] ! b \<noteq> (-1::int) \<and> order' ! b = -1 \<longrightarrow>
       (\<exists>a < b. [1, 0] ! a \<noteq> (-1::int) \<and> overlaps twin_boxes (Fin (9/20)) ([1, 0] ! a) ([1, 0] ! b)))"
  by (rule suppression_ignores_class) (simp_all add: index_vec_def twin_boxes_def)

lemma post_process_spec:
  assumes "model_io_ok app_ctx outputs" and "t \<noteq> 0"
  shows "\<exists>r. post_process app_ctx outputs (Fin t) nms_t = Some r \<and>
    count r = int (length (results r)) \<and> count r \<le> OBJ_NUMB_MAX_SIZE \<and>
    (\<forall>d \<in> set (results r). result_ok app_ctx (Fin t) d) \<and>
    sorted_wrt (\<lambda>d e. fl_le (obj_prop e) (obj_prop d)) (results r)"
proof -
  obtain st objProbs order order' where s:
    "post_process app_ctx outputs (Fin t) nms_t =
      Some \<lparr>count = int (length (report_upto app_ctx st objProbs order' (length (scores st)))),
            results = report_upto app_ctx st objProbs order' (length (scores st))\<rparr>"
    "cands_ok (fl_less (Fin t)) st" "mset order = mset (map int [0..<length (scores st)])"
    "length objProbs = length (scores st)"
    "\<And>k. k < length (scores st) \<Longrightarrow> objProbs ! k = scores st ! nat (order ! k)"
    "\<And>i j. i \<le> j \<Longrightarrow> j < length (scores st) \<Longrightarrow> fl_le (objProbs ! j) (objProbs ! i)"
    "index_vec (length (scores st)) (boxes st) order'"
    using post_process_stages[OF assms, of nms_t] unfolding Let_def by blast
  have "index_vec (length (scores st)) (boxes st) order"
    by (rule index_vec_perm[OF s(3)]) (use s(2) in \<open>simp add: cands_ok_def\<close>)
  moreover have "-1 \<notin> set order" using mset_eq_setD[OF s(3)] by auto
  ultimately have "objProbs ! k \<in> set (scores st)" if k: "k < length (scores st)" for k
  proof -
    assume vec: "index_vec (length (scores st)) (boxes st) order" and no: "-1 \<notin> set order"
    have "order ! k \<noteq> -1" using no k vec by (metis index_vec_def nth_mem)
    then have "nat (order ! k) < length (scores st)" using index_vec_entry[OF vec k] by auto
    then show ?thesis using s(5)[OF k] by simp
  qed
  then have sub: "set objProbs \<subseteq> set (scores st)" using s(4) by (auto simp: in_set_conv_nth)
  have m: "0 \<le> model_width app_ctx" "model_width app_ctx < 16777216"
      "0 \<le> model_height app_ctx" "model_height app_ctx < 16777216"
    using assms(1) by (auto simp: model_io_ok_def)
  show ?thesis
    using s(1) report_upto_ok[OF s(7,2,4) sub s(6) m] by (simp add: OBJ_NUMB_MAX_SIZE_def)
qed

text \<open>
  C2. The detection pipeline as a whole: on tensors that match the model file, for every
  non-zero confidence threshold and whatever the tensor contents, \<open>post_process\<close> returns
  without an access outside its buffers; it reports at most 128 detections, \<open>count\<close> is their
  number, each has ordered corners inside the model input, a class number in range and a score
  above the threshold, and the scores descend.
\<close>

theorem post_process_ok:
  assumes "model_io_ok app_ctx outputs" and "t \<noteq> 0"
  shows "\<exists>r. post_process app_ctx outputs (Fin t) nms_t = Some r \<and>
    count r = int (length (results r)) \<and> count r \<le> OBJ_NUMB_MAX_SIZE \<and>
    (\<forall>d \<in> set (results r). result_ok app_ctx (Fin t) d) \<and>
    sorted_wrt (\<lambda>d e. fl_le (obj_prop e) (obj_prop d)) (results r)"
  by (rule post_process_spec[OF assms])

text \<open>A model with three outputs of one cell each and an all-positive tensor.\<close>

definition small_model :: rknn_app_context where
  "small_model = \<lparr>model_width = 640, model_height = 640, is_quant = True,
     output_attrs = replicate 3 \<lparr>dims = [1, 1, 1, 255], zp = -128, scale = Fin (1/256)\<rparr>\<rparr>"

theorem post_process_ok_witness:
  "\<exists>r. post_process small_model (replicate 3 (replicate 255 100)) (Fin (1/4)) (Fin (9/20)) = Some r \<and>
    count r = int (length (results r)) \<and> count r \<le> OBJ_NUMB_MAX_SIZE \<and>
    (\<forall>d \<in> set (results r). result_ok small_model (Fin (1/4)) d) \<and>
    sorted_wrt (\<lambda>d e. fl_le (obj_prop e) (obj_prop d)) (results r)"
  by (rule post_process_ok)
     (simp_all add: model_io_ok_def small_model_def PROP_BOX_SIZE_def OBJ_CLASS_NUM_def)

end
