(* ===== verification/Yolov5.thy ===== *)
theory Yolov5
  imports Postprocess
begin

text \<open>
  \<^verbatim>\<open>yolov5.cc\<close>: loading the model into the NPU runtime, releasing it and running one inference.  The
  runtime (\<^verbatim>\<open>rknn_api.h\<close>) is a parameter: the record of its answers.  What the functions acquire is
  explicit state: the open contexts and the live \<open>rknn_tensor_mem\<close> blocks.  A handle and a pointer are
  numbers, 0 the null pointer.
\<close>

section \<open>Data\<close>

datatype tensor_format = RKNN_TENSOR_NCHW | RKNN_TENSOR_NHWC | RKNN_TENSOR_NC1HWC2 | RKNN_TENSOR_UNDEFINED

datatype tensor_type = RKNN_TENSOR_FLOAT32 | RKNN_TENSOR_FLOAT16 | RKNN_TENSOR_INT8 | RKNN_TENSOR_UINT8 |
  RKNN_TENSOR_INT16 | RKNN_TENSOR_UINT16 | RKNN_TENSOR_INT32 | RKNN_TENSOR_UINT32 | RKNN_TENSOR_INT64 |
  RKNN_TENSOR_BOOL | RKNN_TENSOR_INT4

datatype tensor_qnt_type = RKNN_TENSOR_QNT_NONE | RKNN_TENSOR_QNT_DFP | RKNN_TENSOR_QNT_AFFINE_ASYMMETRIC

record rknn_tensor_attr = tensor_attr +
  index :: nat
  fmt :: tensor_format
  type :: tensor_type
  qnt_type :: tensor_qnt_type
  size_with_stride :: int

text \<open>
  The whole \<open>rknn_app_context_t\<close>; the two attribute arrays are \<open>None\<close> for the null pointer.
  \<open>app_view\<close> is the part \<open>post_process\<close> reads.
\<close>

record app_context =
  rknn_ctx :: int
  io_num :: "nat \<times> nat"
  in_attrs :: "rknn_tensor_attr list option"
  out_attrs :: "rknn_tensor_attr list option"
  input_mems :: "int list"
  output_mems :: "int list"
  app_channel :: int
  app_width :: int
  app_height :: int
  app_quant :: bool

definition zero_context :: app_context where
  "zero_context = \<lparr>rknn_ctx = 0, io_num = (0, 0), in_attrs = None, out_attrs = None,
     input_mems = [0, 0], output_mems = [0, 0, 0], app_channel = 0, app_width = 0, app_height = 0, app_quant = False\<rparr>"

definition app_view :: "app_context \<Rightarrow> rknn_app_context option" where
  "app_view app = map_option (\<lambda>attrs. \<lparr>model_width = app_width app, model_height = app_height app,
     is_quant = app_quant app, output_attrs = map tensor_attr.truncate attrs\<rparr>) (out_attrs app)"

text \<open>
  The runtime's answers.  \<open>lib_create_mem\<close> and \<open>lib_destroy_mem\<close> see the live blocks; the latter gives
  the blocks that remain.
\<close>

record rknn_lib =
  lib_init :: "string \<Rightarrow> int \<times> int"
  lib_in_out_num :: "int \<Rightarrow> int \<times> nat \<times> nat"
  lib_input_attr :: "int \<Rightarrow> nat \<Rightarrow> int \<times> rknn_tensor_attr"
  lib_output_attr :: "int \<Rightarrow> nat \<Rightarrow> int \<times> rknn_tensor_attr"
  lib_create_mem :: "int list \<Rightarrow> int \<Rightarrow> int \<Rightarrow> int"
  lib_destroy_mem :: "int \<Rightarrow> int \<Rightarrow> int list \<Rightarrow> int list"
  lib_set_io_mem :: "int \<Rightarrow> int \<Rightarrow> rknn_tensor_attr \<Rightarrow> int"
  lib_run :: "int \<Rightarrow> int \<times> int list list"

record npu =
  contexts :: "int list"
  blocks :: "int list"

section \<open>The code\<close>

text \<open>The two query loops; \<open>None\<close> is the failed query.\<close>

fun query_attrs :: "(nat \<Rightarrow> int \<times> rknn_tensor_attr) \<Rightarrow> nat list \<Rightarrow> rknn_tensor_attr list option" where
  "query_attrs q [] = Some []"
| "query_attrs q (i # is) =
     (case q i of (ret, attr) \<Rightarrow>
       if ret \<noteq> 0 then None else map_option ((#) (attr\<lparr>index := i\<rparr>)) (query_attrs q is))"

definition create_mem :: "rknn_lib \<Rightarrow> int \<Rightarrow> int \<Rightarrow> npu \<Rightarrow> int \<times> npu" where
  "create_mem lib ctx n st =
     (let p = lib_create_mem lib (blocks st) ctx n
      in (p, if p = 0 then st else st\<lparr>blocks := p # blocks st\<rparr>))"

text \<open>The loop over the outputs; \<open>output_mems\<close> has room for three.\<close>

fun bind_outputs ::
    "rknn_lib \<Rightarrow> int \<Rightarrow> int \<Rightarrow> rknn_tensor_attr list \<Rightarrow> app_context \<Rightarrow> npu \<Rightarrow> (int \<times> app_context \<times> npu) option" where
  "bind_outputs lib ctx i [] app st = Some (0, app, st)"
| "bind_outputs lib ctx i (attr # attrs) app st =
     (case create_mem lib ctx (size_with_stride attr) st of (p, st') \<Rightarrow> do {
        mems \<leftarrow> wr (output_mems app) i p;
        if lib_set_io_mem lib ctx p attr < 0 then Some (-1, app\<lparr>output_mems := mems\<rparr>, st')
        else bind_outputs lib ctx (i + 1) attrs (app\<lparr>output_mems := mems\<rparr>) st'
      })"

text \<open>The assignments after the buffers are bound.\<close>

definition set_context ::
    "int \<Rightarrow> nat \<times> nat \<Rightarrow> rknn_tensor_attr list \<Rightarrow> rknn_tensor_attr list \<Rightarrow> app_context \<Rightarrow> app_context option" where
  "set_context ctx num inputs outputs app =
     do {
       first_out \<leftarrow> rd outputs 0;
       first_in \<leftarrow> rd inputs 0;
       d1 \<leftarrow> rd (dims first_in) 1;
       d2 \<leftarrow> rd (dims first_in) 2;
       d3 \<leftarrow> rd (dims first_in) 3;
       let app' = app\<lparr>rknn_ctx := ctx, app_quant := (qnt_type first_out = RKNN_TENSOR_QNT_AFFINE_ASYMMETRIC),
         io_num := num, in_attrs := Some inputs, out_attrs := Some outputs\<rparr>;
       Some (if fmt first_in = RKNN_TENSOR_NCHW
             then app'\<lparr>app_channel := d1, app_height := d2, app_width := d3\<rparr>
             else app'\<lparr>app_height := d1, app_width := d2, app_channel := d3\<rparr>)
     }"

definition init_yolov5_model ::
    "rknn_lib \<Rightarrow> string \<Rightarrow> app_context \<Rightarrow> npu \<Rightarrow> (int \<times> app_context \<times> npu) option" where
  "init_yolov5_model lib model_path app st =
     (case lib_init lib model_path of (ret, ctx) \<Rightarrow>
        if ret < 0 then Some (-1, app, st)
        else let st = st\<lparr>contexts := ctx # contexts st\<rparr> in
     (case lib_in_out_num lib ctx of (ret, n_input, n_output) \<Rightarrow>
        if ret \<noteq> 0 then Some (-1, app, st)
        else
     (case query_attrs (lib_input_attr lib ctx) [0..<n_input] of
        None \<Rightarrow> Some (-1, app, st)
      | Some inputs \<Rightarrow>
     (case query_attrs (lib_output_attr lib ctx) [0..<n_output] of
        None \<Rightarrow> Some (-1, app, st)
      | Some outputs \<Rightarrow> do {
          a0 \<leftarrow> rd inputs 0;
          let a0 = a0\<lparr>type := RKNN_TENSOR_UINT8, fmt := RKNN_TENSOR_NHWC\<rparr>;
          inputs \<leftarrow> wr inputs 0 a0;
          let (p, st) = create_mem lib ctx (size_with_stride a0) st;
          mems \<leftarrow> wr (input_mems app) 0 p;
          let app = app\<lparr>input_mems := mems\<rparr>;
          if lib_set_io_mem lib ctx p a0 < 0 then Some (-1, app, st)
          else do {
            (ret, app, st) \<leftarrow> bind_outputs lib ctx 0 outputs app st;
            if ret < 0 then Some (-1, app, st)
            else map_option (\<lambda>app. (0, app, st)) (set_context ctx (n_input, n_output) inputs outputs app)
          }
        }))))"

definition free_block :: "int \<Rightarrow> npu \<Rightarrow> npu option" where
  "free_block p st = map_option (\<lambda>heap. st\<lparr>blocks := heap\<rparr>) (c_free p (blocks st))"

definition release_mems :: "rknn_lib \<Rightarrow> int \<Rightarrow> int list \<Rightarrow> nat \<Rightarrow> npu \<Rightarrow> npu option" where
  "release_mems lib ctx mems n st =
     for_up (\<lambda>i st. map_option Nxt (do {
       p \<leftarrow> rd mems i;
       if p \<noteq> 0 then free_block p (st\<lparr>blocks := lib_destroy_mem lib ctx p (blocks st)\<rparr>) else Some st
     })) 0 (int n) st"

definition release_yolov5_model :: "rknn_lib \<Rightarrow> app_context \<Rightarrow> npu \<Rightarrow> (int \<times> app_context \<times> npu) option" where
  "release_yolov5_model lib app st =
     (let st = (if rknn_ctx app \<noteq> 0 then st\<lparr>contexts := remove1 (rknn_ctx app) (contexts st)\<rparr> else st);
          app = app\<lparr>rknn_ctx := 0, in_attrs := None, out_attrs := None\<rparr>
      in do {
        st \<leftarrow> release_mems lib (rknn_ctx app) (input_mems app) (fst (io_num app)) st;
        st \<leftarrow> release_mems lib (rknn_ctx app) (output_mems app) (snd (io_num app)) st;
        Some (0, app, st)
      })"

definition NMS_THRESH :: fl where "NMS_THRESH = d2f (rnd64 (9/20))"

definition BOX_THRESH :: fl where "BOX_THRESH = Fin (1/4)"

text \<open>The result list is only written when the run succeeded.\<close>

definition inference_yolov5_model ::
    "rknn_lib \<Rightarrow> app_context \<Rightarrow> object_detect_result_list \<Rightarrow> (int \<times> object_detect_result_list) option" where
  "inference_yolov5_model lib app od_results =
     (case lib_run lib (rknn_ctx app) of (ret, outputs) \<Rightarrow>
        if ret < 0 then Some (-1, od_results)
        else do {
          view \<leftarrow> app_view app;
          r \<leftarrow> post_process view outputs BOX_THRESH NMS_THRESH;
          Some (ret, r)
        })"

section \<open>A loaded model\<close>

lemma query_attrs_spec:
  "query_attrs q is = Some attrs \<Longrightarrow> length attrs = length is \<and>
     (\<forall>k < length is. \<exists>a. q (is ! k) = (0, a) \<and> attrs ! k = a\<lparr>index := is ! k\<rparr>)"
proof (induction "is" arbitrary: attrs)
  case (Cons i "is")
  then obtain a rest where a: "q i = (0, a)" "query_attrs q is = Some rest" "attrs = a\<lparr>index := i\<rparr> # rest"
    by (auto split: prod.splits if_splits)
  with Cons.IH[OF a(2)] show ?case by (auto simp: nth_Cons split: nat.split)
qed simp

definition owns :: "npu \<Rightarrow> int \<Rightarrow> bool" where
  "owns st p \<longleftrightarrow> p = 0 \<or> p \<in> set (blocks st)"

lemma create_mem_spec:
  "create_mem lib ctx n st = (p, st') \<Longrightarrow>
     owns st' p \<and> (\<forall>q. owns st q \<longrightarrow> owns st' q) \<and> contexts st' = contexts st"
  by (auto simp: create_mem_def owns_def Let_def split: if_splits)

lemma bind_outputs_spec:
  assumes "bind_outputs lib ctx (int k) attrs app st = Some (ret, app', st')"
    and "\<forall>j < k. owns st (output_mems app ! j)" and "k \<le> length (output_mems app)"
  shows "(\<forall>q. owns st q \<longrightarrow> owns st' q) \<and> contexts st' = contexts st \<and>
    (\<exists>mems. app' = app\<lparr>output_mems := mems\<rparr> \<and> length mems = length (output_mems app) \<and>
       (ret = 0 \<longrightarrow> k + length attrs \<le> length mems \<and> (\<forall>j < k + length attrs. owns st' (mems ! j))))"
  using assms
proof (induction attrs arbitrary: k app st)
  case Nil
  then show ?case by (auto intro!: exI[of _ "output_mems app"])
next
  case (Cons attr attrs)
  obtain p st1 where c: "create_mem lib ctx (size_with_stride attr) st = (p, st1)" by fastforce
  note c' = create_mem_spec[OF c]
  have k: "k < length (output_mems app)" using Cons.prems(1) c
    by (auto simp: wr_def split: if_splits)
  let ?app = "app\<lparr>output_mems := (output_mems app)[k := p]\<rparr>"
  have w: "wr (output_mems app) (int k) p = Some ((output_mems app)[k := p])" using k by (simp add: wr_def)
  have o: "\<forall>j < Suc k. owns st1 (output_mems ?app ! j)"
    using Cons.prems(2) c' k by (auto simp: nth_list_update less_Suc_eq)
  show ?case
  proof (cases "lib_set_io_mem lib ctx p attr < 0")
    case True
    then show ?thesis using Cons.prems(1) c c' w by auto
  next
    case False
    then have b: "bind_outputs lib ctx (int (Suc k)) attrs ?app st1 = Some (ret, app', st')"
      using Cons.prems(1) c w by (simp add: add.commute)
    from Cons.IH[OF b o] k c' show ?thesis by (auto intro!: exI[of _ "output_mems app'"])
  qed
qed

lemma bind_outputs_result: "bind_outputs lib ctx i attrs app st = Some (ret, app', st') \<Longrightarrow> ret = 0 \<or> ret = -1"
  by (induction lib ctx i attrs app st rule: bind_outputs.induct) (auto split: bind_splits prod.splits if_splits)

text \<open>The end of \<open>init_yolov5_model\<close>, from the first created buffer \<open>p\<close> on.\<close>

lemma bind_stage:
  assumes "(if lib_set_io_mem lib ctx p a < 0 then Some (-1, app1, st1)
      else do {
        (ret, app, st) \<leftarrow> bind_outputs lib ctx 0 outputs app1 st1;
        if ret < 0 then Some (-1, app, st)
        else map_option (\<lambda>app. (0, app, st)) (set_context ctx num inputs outputs app)
      }) = Some (ret, app', st')"
  shows "contexts st' = contexts st1 \<and> (\<forall>q. owns st1 q \<longrightarrow> owns st' q) \<and>
    ((ret = -1 \<and> (\<exists>outs. app' = app1\<lparr>output_mems := outs\<rparr>)) \<or>
     (ret = 0 \<and> (\<exists>outs. length outs = length (output_mems app1) \<and> length outputs \<le> length outs \<and>
        (\<forall>j < length outputs. owns st' (outs ! j)) \<and>
        set_context ctx num inputs outputs (app1\<lparr>output_mems := outs\<rparr>) = Some app')))"
proof (cases "lib_set_io_mem lib ctx p a < 0")
  case True
  then show ?thesis using assms by (auto intro!: exI[of _ "output_mems app1"])
next
  case False
  then obtain r2 app2 st2 where b: "bind_outputs lib ctx (int 0) outputs app1 st1 = Some (r2, app2, st2)"
    using assms by (auto split: bind_splits)
  obtain mems where m: "app2 = app1\<lparr>output_mems := mems\<rparr>" "length mems = length (output_mems app1)"
      "r2 = 0 \<Longrightarrow> length outputs \<le> length mems" "r2 = 0 \<Longrightarrow> \<forall>j < length outputs. owns st2 (mems ! j)"
      "\<And>q. owns st1 q \<Longrightarrow> owns st2 q" "contexts st2 = contexts st1"
    using bind_outputs_spec[OF b] by auto
  show ?thesis
  proof (cases "r2 < 0")
    case True
    then have "ret = -1" "app' = app2" "st' = st2" using assms b False by simp_all
    then show ?thesis using m(1,5,6) by auto
  next
    case r2: False
    then have "r2 = 0" using bind_outputs_result[OF b] by simp
    moreover obtain "ret = 0" "st' = st2" "set_context ctx num inputs outputs app2 = Some app'"
      using assms b False r2 by auto
    ultimately show ?thesis using m by auto
  qed
qed

text \<open>What \<open>init_yolov5_model\<close> went through once the runtime has given a context.\<close>

lemma init_steps:
  assumes "init_yolov5_model lib path app st = Some (ret, app', st')" and "lib_init lib path = (r, ctx)" "0 \<le> r"
  shows "contexts st' = ctx # contexts st \<and>
    ((ret = -1 \<and> (\<exists>ins outs. app' = app\<lparr>input_mems := ins, output_mems := outs\<rparr>)) \<or>
     (ret = 0 \<and> (\<exists>n_input n_output a0 inputs outputs ins outs.
        query_attrs (lib_input_attr lib ctx) [0..<n_input] = Some (a0 # inputs) \<and>
        query_attrs (lib_output_attr lib ctx) [0..<n_output] = Some outputs \<and>
        length ins = length (input_mems app) \<and> ins \<noteq> [] \<and> owns st' (ins ! 0) \<and>
        length outs = length (output_mems app) \<and> n_output \<le> length outs \<and> (\<forall>j < n_output. owns st' (outs ! j)) \<and>
        set_context ctx (n_input, n_output) (a0\<lparr>type := RKNN_TENSOR_UINT8, fmt := RKNN_TENSOR_NHWC\<rparr> # inputs)
          outputs (app\<lparr>input_mems := ins, output_mems := outs\<rparr>) = Some app')))"
proof -
  let ?st = "st\<lparr>contexts := ctx # contexts st\<rparr>"
  have i: "lib_init lib path = (r, ctx)" "\<not> r < 0" using assms(2,3) by simp_all
  have "\<exists>ins outs. app = app\<lparr>input_mems := ins, output_mems := outs\<rparr>"
    by (rule exI[of _ "input_mems app"], rule exI[of _ "output_mems app"]) simp
  then have early: ?thesis if "ret = -1" "app' = app" "st' = ?st" using that by simp
  obtain r1 n_input n_output where n: "lib_in_out_num lib ctx = (r1, n_input, n_output)" by (cases "lib_in_out_num lib ctx") auto
  consider (early) "ret = -1" "app' = app" "st' = ?st"
    | (bound) inputs outputs where "r1 = 0" "query_attrs (lib_input_attr lib ctx) [0..<n_input] = Some inputs"
        "query_attrs (lib_output_attr lib ctx) [0..<n_output] = Some outputs"
    using assms(1) i n by (auto simp: init_yolov5_model_def Let_def split: if_splits option.splits)
  then show ?thesis
  proof cases
    case early
    then show ?thesis by (rule \<open>ret = -1 \<Longrightarrow> app' = app \<Longrightarrow> st' = ?st \<Longrightarrow> ?thesis\<close>)
  next
    case bound
    obtain a0 rest where a0: "inputs = a0 # rest"
      using assms(1) i n bound by (cases inputs) (auto simp: init_yolov5_model_def rd_def)
    let ?a = "a0\<lparr>type := RKNN_TENSOR_UINT8, fmt := RKNN_TENSOR_NHWC\<rparr>"
    obtain p st1 where c: "create_mem lib ctx (size_with_stride a0) ?st = (p, st1)" by fastforce
    define app1 where "app1 = app\<lparr>input_mems := (input_mems app)[0 := p]\<rparr>"
    have stage: "input_mems app \<noteq> []" "(if lib_set_io_mem lib ctx p ?a < 0 then Some (-1, app1, st1)
        else do {
          (ret, app, st) \<leftarrow> bind_outputs lib ctx 0 outputs app1 st1;
          if ret < 0 then Some (-1, app, st)
          else map_option (\<lambda>app. (0, app, st)) (set_context ctx (n_input, n_output) (?a # rest) outputs app)
        }) = Some (ret, app', st')"
      using assms(1) i n bound a0 c
      by (auto simp: init_yolov5_model_def Let_def rd_def wr_def app1_def split: if_splits)
    have ins: "length ((input_mems app)[0 := p]) = length (input_mems app)" "(input_mems app)[0 := p] \<noteq> []"
      "(input_mems app)[0 := p] ! 0 = p" "length outputs = n_output"
      using stage(1) query_attrs_spec[OF bound(3)] by auto
    have app1: "app1\<lparr>output_mems := outs\<rparr> = app\<lparr>input_mems := (input_mems app)[0 := p], output_mems := outs\<rparr>"
        "length (output_mems app1) = length (output_mems app)" for outs
      by (simp_all add: app1_def)
    note st = bind_stage[OF stage(2)] and c' = create_mem_spec[OF c]
    from st consider (failed) outs where "ret = -1" "app' = app1\<lparr>output_mems := outs\<rparr>"
      | (success) outs where "ret = 0" "length outs = length (output_mems app1)" "length outputs \<le> length outs"
          "\<forall>j < length outputs. owns st' (outs ! j)"
          "set_context ctx (n_input, n_output) (?a # rest) outputs (app1\<lparr>output_mems := outs\<rparr>) = Some app'"
      by blast
    then show ?thesis
    proof cases
      case failed
      then show ?thesis using st c' unfolding app1 by auto
    next
      case success
      have "owns st' p" using st c' by blast
      then show ?thesis
        using success st c' bound(2,3) a0 ins unfolding app1
        by (intro conjI disjI2 exI[of _ n_input] exI[of _ n_output] exI[of _ a0] exI[of _ rest] exI[of _ outputs]
              exI[of _ "(input_mems app)[0 := p]"] exI[of _ outs]) simp_all
    qed
  qed
qed

lemma set_context_spec:
  assumes "set_context ctx num inputs outputs app = Some app'"
  shows "inputs \<noteq> [] \<and> outputs \<noteq> [] \<and> rknn_ctx app' = ctx \<and> io_num app' = num \<and>
    in_attrs app' = Some inputs \<and> out_attrs app' = Some outputs \<and>
    input_mems app' = input_mems app \<and> output_mems app' = output_mems app \<and>
    app_quant app' = (qnt_type (outputs ! 0) = RKNN_TENSOR_QNT_AFFINE_ASYMMETRIC) \<and>
    (fmt (inputs ! 0) = RKNN_TENSOR_NHWC \<longrightarrow> app_height app' = dims (inputs ! 0) ! 1 \<and>
       app_width app' = dims (inputs ! 0) ! 2 \<and> app_channel app' = dims (inputs ! 0) ! 3)"
proof -
  from assms have "inputs \<noteq> []" "outputs \<noteq> []"
    by (auto simp: set_context_def rd_def)
  moreover obtain d1 d2 d3 where "rd (dims (inputs ! 0)) 1 = Some d1" "rd (dims (inputs ! 0)) 2 = Some d2"
      "rd (dims (inputs ! 0)) 3 = Some d3"
    using assms calculation by (auto simp: set_context_def rd_Some split: bind_splits)
  moreover have "rd xs i = Some d \<Longrightarrow> xs ! nat i = d" for xs :: "int list" and i d by (simp add: rd_eq_Some_iff)
  ultimately show ?thesis
    using assms by (cases "fmt (inputs ! 0) = RKNN_TENSOR_NCHW") (fastforce simp: set_context_def rd_Some Let_def)+
qed

text \<open>
  The type of a loaded context: the arrays have the announced lengths, at least one input and between
  one and three outputs, every attribute carries its index, the input is \<open>uint8\<close> in NHWC order and
  gives the model's size, the context is open, and every recorded buffer is live or null.
\<close>

definition context_ok :: "app_context \<Rightarrow> npu \<Rightarrow> bool" where
  "context_ok app st \<longleftrightarrow>
     (case (in_attrs app, out_attrs app) of
        (Some ins, Some outs) \<Rightarrow>
          io_num app = (length ins, length outs) \<and> 1 \<le> length ins \<and> 1 \<le> length outs \<and> length outs \<le> 3 \<and>
          list_all (\<lambda>k. index (ins ! k) = k) [0..<length ins] \<and>
          list_all (\<lambda>k. index (outs ! k) = k) [0..<length outs] \<and>
          type (ins ! 0) = RKNN_TENSOR_UINT8 \<and> fmt (ins ! 0) = RKNN_TENSOR_NHWC \<and>
          app_height app = dims (ins ! 0) ! 1 \<and> app_width app = dims (ins ! 0) ! 2 \<and>
          app_channel app = dims (ins ! 0) ! 3 \<and>
          rknn_ctx app \<in> set (contexts st) \<and>
          length (input_mems app) = 2 \<and> length (output_mems app) = 3 \<and> owns st (input_mems app ! 0) \<and>
          list_all (\<lambda>j. owns st (output_mems app ! j)) [0..<length outs]
      | _ \<Rightarrow> False)"

lemma init_success:
  assumes "init_yolov5_model lib path zero_context st = Some (0, app, st')"
  shows "context_ok app st'"
proof -
  obtain r ctx where i: "lib_init lib path = (r, ctx)" by fastforce
  then have r: "0 \<le> r" using assms by (cases "r < 0") (simp_all add: init_yolov5_model_def)
  have zc: "length (input_mems zero_context) = 2" "length (output_mems zero_context) = 3" by (simp_all add: zero_context_def)
  let ?set = "\<lambda>a. a\<lparr>type := RKNN_TENSOR_UINT8, fmt := RKNN_TENSOR_NHWC\<rparr>"
  obtain n_input n_output a0 inputs outputs ins outs where s:
    "contexts st' = ctx # contexts st"
    "query_attrs (lib_input_attr lib ctx) [0..<n_input] = Some (a0 # inputs)"
    "query_attrs (lib_output_attr lib ctx) [0..<n_output] = Some outputs"
    "length ins = 2" "owns st' (ins ! 0)" "length outs = 3" "n_output \<le> 3" "\<forall>j < n_output. owns st' (outs ! j)"
    "set_context ctx (n_input, n_output) (?set a0 # inputs) outputs (zero_context\<lparr>input_mems := ins, output_mems := outs\<rparr>) = Some app"
    using init_steps[OF assms i r] zc by auto
  note c = set_context_spec[OF s(9)] and qi = query_attrs_spec[OF s(2)] and qo = query_attrs_spec[OF s(3)]
  have idx: "index ((?set a0 # inputs) ! k) = k" if "k < n_input" for k
    using qi that by (cases k) auto
  have odx: "index (outputs ! k) = k" if "k < n_output" for k using qo that by auto
  show ?thesis
    using c s idx odx qi qo by (auto simp: context_ok_def list_all_iff Suc_le_eq)
qed

lemma init_failure:
  assumes "init_yolov5_model lib path zero_context st = Some (-1, app, st')"
    and "lib_init lib path = (r, ctx)" "0 \<le> r"
  shows "contexts st' = ctx # contexts st \<and> release_yolov5_model lib app st' = Some (0, app, st')"
proof -
  obtain ins outs where app: "app = zero_context\<lparr>input_mems := ins, output_mems := outs\<rparr>"
    and st: "contexts st' = ctx # contexts st"
    using init_steps[OF assms] by auto
  show ?thesis
    using st by (simp add: app release_yolov5_model_def release_mems_def zero_context_def Let_def for_up_done)
qed

lemma release_frees_twice:
  assumes "init_yolov5_model lib path zero_context st = Some (0, app, st')"
    and "\<And>ctx p bs. p \<notin> set (lib_destroy_mem lib ctx p bs)" and "input_mems app ! 0 \<noteq> 0"
  shows "release_yolov5_model lib app st'' = None"
proof -
  from init_success[OF assms(1)] have c: "1 \<le> fst (io_num app)" "length (input_mems app) = 2"
    by (auto simp: context_ok_def split: option.splits)
  then have "release_mems lib ctx (input_mems app) (fst (io_num app)) s = None" for ctx s
    using assms(2,3) by (simp add: release_mems_def for_up_step rd_def free_block_def c_free_dead)
  then show ?thesis by (simp add: release_yolov5_model_def Let_def)
qed

lemma inference_spec:
  assumes "init_yolov5_model lib path zero_context st = Some (0, app, st')"
    and "lib_run lib (rknn_ctx app) = (ret, outputs)"
    and "\<And>view. app_view app = Some view \<Longrightarrow> model_io_ok view outputs"
  shows "\<exists>view r. app_view app = Some view \<and>
    inference_yolov5_model lib app old = Some (if ret < 0 then (-1, old) else (ret, r)) \<and>
    count r = int (length (results r)) \<and> count r \<le> OBJ_NUMB_MAX_SIZE \<and>
    (\<forall>d \<in> set (results r). result_ok view BOX_THRESH d) \<and>
    sorted_wrt (\<lambda>d e. fl_le (obj_prop e) (obj_prop d)) (results r)"
proof -
  obtain view where v: "app_view app = Some view"
    using init_success[OF assms(1)] by (auto simp: context_ok_def app_view_def split: option.splits)
  have "(1/4 :: rat) \<noteq> 0" by simp
  from post_process_spec[OF assms(3)[OF v] this, of NMS_THRESH] obtain r where r:
    "post_process view outputs BOX_THRESH NMS_THRESH = Some r"
    "count r = int (length (results r)) \<and> count r \<le> OBJ_NUMB_MAX_SIZE \<and>
      (\<forall>d \<in> set (results r). result_ok view BOX_THRESH d) \<and>
      sorted_wrt (\<lambda>d e. fl_le (obj_prop e) (obj_prop d)) (results r)"
    unfolding BOX_THRESH_def by blast
  have "inference_yolov5_model lib app old = Some (if ret < 0 then (-1, old) else (ret, r))"
    using v r(1) assms(2) by (simp add: inference_yolov5_model_def)
  with v r(2) show ?thesis by blast
qed


text \<open>Loading the model does not run it.\<close>

lemma create_mem_ignores_run: "create_mem (lib\<lparr>lib_run := f\<rparr>) = create_mem lib"
  by (intro ext) (simp add: create_mem_def)

lemma bind_outputs_ignores_run: "bind_outputs (lib\<lparr>lib_run := f\<rparr>) ctx i attrs app st = bind_outputs lib ctx i attrs app st"
  by (induction attrs arbitrary: i app st) (simp_all add: create_mem_ignores_run cong: if_cong split: prod.split)

lemma init_ignores_run: "init_yolov5_model (lib\<lparr>lib_run := f\<rparr>) path app st = init_yolov5_model lib path app st"
  unfolding init_yolov5_model_def by (simp add: create_mem_ignores_run bind_outputs_ignores_run cong: if_cong option.case_cong prod.case_cong)

section \<open>Properties\<close>

text \<open>
  C17. A successful \<open>init_yolov5_model\<close> leaves a well-formed context: the attribute arrays have the
  announced lengths, with at least one input and one to three outputs, every attribute under its own
  index; the input is \<open>uint8\<close> in NHWC order and its dimensions are the model's size; the runtime
  context is open and every recorded buffer is live or null.
\<close>

theorem init_context_well_formed:
  assumes "init_yolov5_model lib path zero_context st = Some (0, app, st')"
  shows "context_ok app st'"
  by (rule init_success[OF assms])

text \<open>A runtime with one input and three outputs.\<close>

definition demo_lib :: rknn_lib where
  "demo_lib = \<lparr>lib_init = \<lambda>_. (0, 7), lib_in_out_num = \<lambda>_. (0, 1, 3),
     lib_input_attr = \<lambda>_ _. (0, \<lparr>dims = [1, 640, 640, 3], zp = 0, scale = Fin 1, index = 0,
       fmt = RKNN_TENSOR_NHWC, type = RKNN_TENSOR_INT8, qnt_type = RKNN_TENSOR_QNT_NONE, size_with_stride = 1228800\<rparr>),
     lib_output_attr = \<lambda>_ _. (0, \<lparr>dims = [1, 1, 1, 255], zp = -128, scale = Fin (1/256), index = 0,
       fmt = RKNN_TENSOR_NHWC, type = RKNN_TENSOR_INT8, qnt_type = RKNN_TENSOR_QNT_AFFINE_ASYMMETRIC, size_with_stride = 255\<rparr>),
     lib_create_mem = \<lambda>bs _ _. int (length bs) + 1, lib_destroy_mem = \<lambda>_ p bs. filter (\<lambda>q. q \<noteq> p) bs,
     lib_set_io_mem = \<lambda>_ _ _. 0, lib_run = \<lambda>_. (0, replicate 3 (replicate 255 100))\<rparr>"

definition demo_out :: "nat \<Rightarrow> rknn_tensor_attr" where
  "demo_out k = \<lparr>dims = [1, 1, 1, 255], zp = -128, scale = Fin (1/256), index = k,
     fmt = RKNN_TENSOR_NHWC, type = RKNN_TENSOR_INT8, qnt_type = RKNN_TENSOR_QNT_AFFINE_ASYMMETRIC, size_with_stride = 255\<rparr>"

definition demo_app :: app_context where
  "demo_app = \<lparr>rknn_ctx = 7, io_num = (1, 3),
     in_attrs = Some [\<lparr>dims = [1, 640, 640, 3], zp = 0, scale = Fin 1, index = 0,
       fmt = RKNN_TENSOR_NHWC, type = RKNN_TENSOR_UINT8, qnt_type = RKNN_TENSOR_QNT_NONE, size_with_stride = 1228800\<rparr>],
     out_attrs = Some [demo_out 0, demo_out 1, demo_out 2],
     input_mems = [1, 0], output_mems = [2, 3, 4], app_channel = 3, app_width = 640, app_height = 640, app_quant = True\<rparr>"

lemma demo_init:
  "init_yolov5_model demo_lib path zero_context \<lparr>contexts = [], blocks = []\<rparr> =
     Some (0, demo_app, \<lparr>contexts = [7], blocks = [4, 3, 2, 1]\<rparr>)"
  by (simp add: init_yolov5_model_def demo_lib_def demo_app_def demo_out_def zero_context_def create_mem_def set_context_def
      Let_def rd_def wr_def upt_rec numeral_3_eq_3)

theorem init_context_well_formed_witness:
  "context_ok demo_app \<lparr>contexts = [7], blocks = [4, 3, 2, 1]\<rparr>"
  by (rule init_context_well_formed[OF demo_init])

text \<open>
  C23. A failed \<open>init_yolov5_model\<close> keeps what it acquired: once the runtime has opened a context, every
  later failure leaves it open, and because the context is only recorded at the end,
  \<open>release_yolov5_model\<close> on the application's context closes nothing and frees nothing.
\<close>

theorem init_failure_leaks:
  assumes "init_yolov5_model lib path zero_context st = Some (-1, app, st')"
    and "lib_init lib path = (r, ctx)" and "0 \<le> r"
  shows "contexts st' = ctx # contexts st \<and> release_yolov5_model lib app st' = Some (0, app, st')"
  by (rule init_failure[OF assms])

theorem init_failure_leaks_witness:
  "contexts \<lparr>contexts = [7], blocks = []\<rparr> = 7 # contexts \<lparr>contexts = [], blocks = []\<rparr> \<and>
   release_yolov5_model (demo_lib\<lparr>lib_in_out_num := \<lambda>_. (-5, 0, 0)\<rparr>) zero_context \<lparr>contexts = [7], blocks = []\<rparr> =
     Some (0, zero_context, \<lparr>contexts = [7], blocks = []\<rparr>)"
  by (rule init_failure_leaks[of _ "''m''" _ _ _ 0]) (simp_all add: init_yolov5_model_def demo_lib_def)

text \<open>
  C18. Releasing a loaded model frees its buffers twice: \<open>rknn_destroy_mem\<close> frees a buffer the runtime
  allocated, as its interface documents, and \<open>release_yolov5_model\<close> frees it again.
\<close>

theorem release_double_free:
  assumes "init_yolov5_model lib path zero_context st = Some (0, app, st')"
    and frees_inside: "\<And>ctx p bs. p \<notin> set (lib_destroy_mem lib ctx p bs)"
    and "input_mems app ! 0 \<noteq> 0"
  shows "release_yolov5_model lib app st' = None"
  by (rule release_frees_twice[OF assms])

theorem release_double_free_witness:
  "release_yolov5_model demo_lib demo_app \<lparr>contexts = [7], blocks = [4, 3, 2, 1]\<rparr> = None"
  by (rule release_double_free[OF demo_init]) (simp_all add: demo_lib_def demo_app_def)

text \<open>
  C22. An inference with a loaded model: when the runtime has run and left tensors of the shapes the
  model announced, the result list is the one of \<open>post_process\<close> at the fixed thresholds: at most 128
  detections, each inside the model's input with a score above 0.25, in descending order.  A failed
  run returns -1 and leaves the old list.
\<close>

theorem inference_in_range:
  assumes "init_yolov5_model lib path zero_context st = Some (0, app, st')"
    and "lib_run lib (rknn_ctx app) = (ret, outputs)"
    and "\<And>view. app_view app = Some view \<Longrightarrow> model_io_ok view outputs"
  shows "\<exists>view r. app_view app = Some view \<and>
    inference_yolov5_model lib app old = Some (if ret < 0 then (-1, old) else (ret, r)) \<and>
    count r = int (length (results r)) \<and> count r \<le> OBJ_NUMB_MAX_SIZE \<and>
    (\<forall>d \<in> set (results r). result_ok view BOX_THRESH d) \<and>
    sorted_wrt (\<lambda>d e. fl_le (obj_prop e) (obj_prop d)) (results r)"
  by (rule inference_spec[OF assms])

theorem inference_in_range_witness:
  "\<exists>view r. app_view demo_app = Some view \<and>
    inference_yolov5_model demo_lib demo_app \<lparr>count = 0, results = []\<rparr> =
      Some (if (0::int) < 0 then (-1, \<lparr>count = 0, results = []\<rparr>) else (0, r)) \<and>
    count r = int (length (results r)) \<and> count r \<le> OBJ_NUMB_MAX_SIZE \<and>
    (\<forall>d \<in> set (results r). result_ok view BOX_THRESH d) \<and>
    sorted_wrt (\<lambda>d e. fl_le (obj_prop e) (obj_prop d)) (results r)"
  by (rule inference_in_range[OF demo_init])
     (auto simp: demo_lib_def demo_app_def demo_out_def app_view_def model_io_ok_def tensor_attr.defs
        PROP_BOX_SIZE_def OBJ_CLASS_NUM_def less_Suc_eq numeral_3_eq_3 Let_def)

end
