(* ===== verification/File_Utils.thy ===== *)
theory File_Utils
  imports Prelude
begin

text \<open>
  \<^verbatim>\<open>utils/file_utils.c\<close>: whole-file reads and writes, and the line reader.  The first
  section is the part of \<open>stdio\<close> these functions and the label loader of
  \<^verbatim>\<open>postprocess.cc\<close> use: a file is its byte sequence, a stream a position and the
  end-of-file flag.  An allocation of \<open>n\<close> bytes succeeds when \<open>alloc n\<close> holds.  A
  pointer a function stores through an output parameter is the second component of its result.
\<close>

section \<open>Streams\<close>

type_synonym path = string

record file_system =
  files :: "path \<Rightarrow> byte list option"
  may_write :: "path \<Rightarrow> bool"

record FILE =
  content :: "byte list"
  fpos :: nat
  at_eof :: bool

definition fopen :: "file_system \<Rightarrow> path \<Rightarrow> FILE option" where
  "fopen fs p = map_option (\<lambda>bs. \<lparr>content = bs, fpos = 0, at_eof = False\<rparr>) (files fs p)"

definition rewind :: "FILE \<Rightarrow> FILE" where
  "rewind fp = fp\<lparr>fpos := 0, at_eof := False\<rparr>"

text \<open>The value of \<open>fgetc\<close> is the byte or \<open>EOF\<close>, here \<open>None\<close>.\<close>

definition fgetc :: "FILE \<Rightarrow> byte option \<times> FILE" where
  "fgetc fp = (if fpos fp < length (content fp)
     then (Some (content fp ! fpos fp), fp\<lparr>fpos := fpos fp + 1\<rparr>)
     else (None, fp\<lparr>at_eof := True\<rparr>))"

definition rest :: "FILE \<Rightarrow> byte list" where
  "rest fp = drop (fpos fp) (content fp)"

definition fread :: "nat \<Rightarrow> FILE \<Rightarrow> byte list \<times> FILE" where
  "fread n fp = (take n (rest fp),
     fp\<lparr>fpos := fpos fp + min n (length (rest fp)), at_eof := at_eof fp \<or> length (rest fp) < n\<rparr>)"

abbreviation newline :: byte where "newline \<equiv> 10"

text \<open>\<open>fgets\<close> with a buffer of \<open>size\<close> bytes: at most \<open>size - 1\<close> bytes, up to and including a newline.\<close>

fun fgets_take :: "nat \<Rightarrow> byte list \<Rightarrow> byte list" where
  "fgets_take 0 bs = []"
| "fgets_take (Suc n) [] = []"
| "fgets_take (Suc n) (b # bs) = (if b = newline then [b] else b # fgets_take n bs)"

definition fgets :: "nat \<Rightarrow> FILE \<Rightarrow> byte list option \<times> FILE" where
  "fgets n_bytes fp =
     (let bs = fgets_take (n_bytes - 1) (rest fp);
          fp' = fp\<lparr>fpos := fpos fp + length bs, at_eof := at_eof fp \<or> length (rest fp) = length bs \<and>
            length bs < n_bytes - 1 \<and> (bs = [] \<or> last bs \<noteq> newline)\<rparr>
      in (if bs = [] then None else Some bs, fp'))"

section \<open>Whole files\<close>

text \<open>
  A C string in a buffer: the bytes before the first NUL.
\<close>

definition c_string :: "byte list \<Rightarrow> byte list" where
  "c_string = takeWhile (\<lambda>b. b \<noteq> 0)"

text \<open>
  \<open>load_model\<close>: \<open>Some None\<close> is the returned NULL; a failed allocation is read into, which is
  undefined.
\<close>

definition load_model :: "(nat \<Rightarrow> bool) \<Rightarrow> file_system \<Rightarrow> path \<Rightarrow> (byte list \<times> int) option option" where
  "load_model alloc fs filename =
     (case fopen fs filename of
        None \<Rightarrow> Some None
      | Some fp \<Rightarrow>
          let model_len = length (content fp) in
          if \<not> alloc model_len then None
          else (case fread model_len fp of (model, fp') \<Rightarrow>
            if model_len \<noteq> length model then Some None else Some (Some (model, int model_len))))"

definition read_data_from_file ::
    "(nat \<Rightarrow> bool) \<Rightarrow> file_system \<Rightarrow> path \<Rightarrow> (int \<times> byte list option) option" where
  "read_data_from_file alloc fs path =
     (case fopen fs path of
        None \<Rightarrow> Some (-1, None)
      | Some fp \<Rightarrow>
          let file_size = length (content fp) in
          if \<not> alloc (file_size + 1) then None
          else (case fread file_size fp of (data, fp') \<Rightarrow>
            if file_size \<noteq> length data then Some (-1, None)
            else Some (int file_size, Some (data @ [0]))))"

definition write_data_to_file :: "file_system \<Rightarrow> path \<Rightarrow> byte list \<Rightarrow> nat \<Rightarrow> (int \<times> file_system) option" where
  "write_data_to_file fs path data n_bytes =
     (if \<not> may_write fs path then Some (-1, fs)
      else if n_bytes \<le> length data then Some (0, fs\<lparr>files := (files fs)(path \<mapsto> take n_bytes data)\<rparr>)
      else None)"

section \<open>Lines\<close>

definition MAX_TEXT_LINE_LENGTH :: nat where "MAX_TEXT_LINE_LENGTH = 1024"

text \<open>The loop of \<open>count_lines\<close> runs until a read has set the end-of-file flag.\<close>

function count_newlines :: "FILE \<Rightarrow> int \<Rightarrow> int \<times> FILE" where
  "count_newlines fp cnt =
     (if at_eof fp then (cnt, fp)
      else (case fgetc fp of
          (Some ch, fp') \<Rightarrow> count_newlines fp' (if ch = newline then cnt + 1 else cnt)
        | (None, fp') \<Rightarrow> count_newlines fp' cnt))"
  by pat_completeness auto
termination
  by (relation "measure (\<lambda>(fp, _). 2 * (length (content fp) - fpos fp) + (if at_eof fp then 0 else 1))")
     (auto simp: fgetc_def split: if_splits)

declare count_newlines.simps [simp del]

definition count_lines :: "FILE \<Rightarrow> int \<times> FILE" where
  "count_lines file = (case count_newlines file 0 of (cnt, fp) \<Rightarrow> (cnt + 1, rewind fp))"

text \<open>
  The reading loop of \<open>read_lines_from_file\<close>: every chunk \<open>fgets\<close> delivers becomes an entry of
  \<open>lines\<close>, whose length was fixed before; each is cut at the newline and copied as a C string.
\<close>

function store_lines ::
    "(nat \<Rightarrow> bool) \<Rightarrow> FILE \<Rightarrow> byte list option list \<Rightarrow> int \<Rightarrow> byte list option list option" where
  "store_lines alloc file lines line_index =
     (case fgets MAX_TEXT_LINE_LENGTH file of
        (None, file') \<Rightarrow> Some lines
      | (Some buffer, file') \<Rightarrow>
          let s = c_string (takeWhile (\<lambda>b. b \<noteq> newline) buffer) in
          if \<not> alloc (length s + 1) then None
          else do {
            lines' \<leftarrow> wr lines line_index (Some s);
            store_lines alloc file' lines' (line_index + 1)
          })"
  by pat_completeness auto

lemma fgets_progress:
  assumes "fgets n_bytes fp = (Some bs, fp')"
  shows "rest fp' = drop (length bs) (rest fp)" "bs = fgets_take (n_bytes - 1) (rest fp)" "bs \<noteq> []"
  using assms by (auto simp: fgets_def rest_def Let_def drop_drop add.commute split: if_splits)

lemma fgets_take_prefix: "fgets_take n bs = take (length (fgets_take n bs)) bs"
  by (induction n bs rule: fgets_take.induct) auto

lemma fgets_take_length: "length (fgets_take n bs) \<le> length bs"
  by (induction n bs rule: fgets_take.induct) auto

lemma fgets_shorter:
  assumes "fgets n_bytes fp = (Some bs, fp')"
  shows "length (rest fp') < length (rest fp)"
proof -
  have "length bs \<le> length (rest fp)" "bs \<noteq> []"
    using fgets_progress[OF assms] fgets_take_length by simp_all
  then show ?thesis using fgets_progress(1)[OF assms] by (cases bs) auto
qed

termination store_lines
  by (relation "measure (\<lambda>(_, file, _, _). length (rest file))") (auto dest!: sym[of "(_, _)"] dest: fgets_shorter)

declare store_lines.simps [simp del]

definition read_lines_from_file ::
    "(nat \<Rightarrow> bool) \<Rightarrow> file_system \<Rightarrow> path \<Rightarrow> (byte list option list \<times> int) option option" where
  "read_lines_from_file alloc fs filename =
     (case fopen fs filename of
        None \<Rightarrow> Some None
      | Some file \<Rightarrow>
          (case count_lines file of (num_lines, file') \<Rightarrow>
             if \<not> alloc (nat num_lines * 4) then None
             else do {
               lines \<leftarrow> store_lines alloc file' (replicate (nat num_lines) None) 0;
               Some (Some (lines, num_lines))
             }))"

text \<open>
  \<open>free_lines\<close>: \<open>table\<close> is the address of the array, \<open>lines\<close> the pointers in it, \<open>heap\<close> the live blocks.
\<close>

definition free_lines :: "int \<Rightarrow> int list \<Rightarrow> int \<Rightarrow> int list \<Rightarrow> int list option" where
  "free_lines table lines line_count heap =
     do {
       heap \<leftarrow> for_up (\<lambda>i heap. map_option Nxt (do {
         p \<leftarrow> rd lines i;
         if p \<noteq> 0 then c_free p heap else Some heap
       })) 0 line_count heap;
       c_free table heap
     }"

text \<open>It releases the table and the lines, and nothing else, when the heap holds each of them.\<close>

lemma free_lines_releases:
  assumes "mset heap = mset (filter (\<lambda>p. p \<noteq> 0) lines) + {#table#} + others" and "table \<noteq> 0"
  shows "\<exists>heap'. free_lines table lines (int (length lines)) heap = Some heap' \<and> mset heap' = others"
proof -
  let ?P = "\<lambda>i h. mset h = mset (filter (\<lambda>p. p \<noteq> 0) (drop (nat i) lines)) + {#table#} + others"
  let ?body = "\<lambda>i heap. do { p \<leftarrow> rd lines i; if p \<noteq> 0 then c_free p heap else Some heap }"
  have "\<exists>h'. for_up (\<lambda>i h. map_option Nxt (?body i h)) 0 (int (length lines)) heap = Some h' \<and>
      ?P (max 0 (int (length lines))) h'"
  proof (rule for_each_rule)
    fix i h assume i: "0 \<le> i" "i < int (length lines)" and P: "?P i h"
    have d: "drop (nat i) lines = lines ! nat i # drop (nat (i + 1)) lines"
      using i by (simp add: Cons_nth_drop_Suc nat_add_distrib)
    show "\<exists>h'. ?body i h = Some h' \<and> ?P (i + 1) h'"
    proof (cases "lines ! nat i = 0")
      case True
      then show ?thesis using i P d by (simp add: mem_simps)
    next
      case False
      have "lines ! nat i \<in># mset h" using P d False by simp
      then have "c_free (lines ! nat i) h = Some (remove1 (lines ! nat i) h)" using False by (simp add: c_free_live)
      then show ?thesis using i P d False by (simp add: mem_simps)
    qed
  qed (use assms in simp)
  then obtain h' where h: "for_up (\<lambda>i h. map_option Nxt (?body i h)) 0 (int (length lines)) heap = Some h'"
    "mset h' = {#table#} + others" by auto
  then have "table \<in># mset h'" by simp
  then have "c_free table h' = Some (remove1 table h')" using assms(2) by (simp add: c_free_live)
  then show ?thesis using h by (simp add: free_lines_def)
qed

section \<open>Reading\<close>

lemma fopen_Some: "files fs p = Some bs \<Longrightarrow> fopen fs p = Some \<lparr>content = bs, fpos = 0, at_eof = False\<rparr>"
  by (simp add: fopen_def)

lemma count_newlines_eq:
  assumes "fpos fp \<le> length (content fp)"
  shows "\<exists>fp'. count_newlines fp cnt =
      (if at_eof fp then cnt else cnt + int (count_list (rest fp) newline), fp') \<and> content fp' = content fp"
  using assms
proof (induction fp cnt rule: count_newlines.induct)
  case (1 fp cnt)
  consider "at_eof fp" | "\<not> at_eof fp" "fpos fp < length (content fp)"
    | "\<not> at_eof fp" "fpos fp = length (content fp)"
    using "1.prems" by linarith
  then show ?case
  proof cases
    case 1
    then show ?thesis by (subst count_newlines.simps) simp
  next
    case 2
    let ?ch = "content fp ! fpos fp" and ?fp' = "fp\<lparr>fpos := fpos fp + 1\<rparr>"
    have g: "fgetc fp = (Some ?ch, ?fp')" using 2 by (simp add: fgetc_def)
    have "rest fp = ?ch # rest ?fp'" using 2 by (simp add: rest_def Cons_nth_drop_Suc)
    then show ?thesis
      using "1.IH"(2)[OF 2(1) g[symmetric] refl] 2 by (subst count_newlines.simps) (auto simp: g)
  next
    case 3
    have g: "fgetc fp = (None, fp\<lparr>at_eof := True\<rparr>)" using 3 by (simp add: fgetc_def)
    then show ?thesis
      using 3 "1.IH"(1)[OF 3(1) g[symmetric] refl] by (subst count_newlines.simps) (auto simp: g rest_def)
  qed
qed

lemma count_lines_eq:
  "count_lines \<lparr>content = bs, fpos = 0, at_eof = False\<rparr> =
    (int (count_list bs newline) + 1, \<lparr>content = bs, fpos = 0, at_eof = False\<rparr>)"
proof -
  obtain fp' where "count_newlines \<lparr>content = bs, fpos = 0, at_eof = False\<rparr> 0 = (int (count_list bs newline), fp')"
    "content fp' = bs"
    using count_newlines_eq[of "\<lparr>content = bs, fpos = 0, at_eof = False\<rparr>" 0] by (auto simp: rest_def)
  then show ?thesis by (simp add: count_lines_def rewind_def)
qed

text \<open>The chunks \<open>fgets\<close> cuts a byte sequence into.\<close>

function chunks :: "nat \<Rightarrow> byte list \<Rightarrow> byte list list" where
  "chunks n bs = (case fgets_take n bs of [] \<Rightarrow> [] | c # cs \<Rightarrow> (c # cs) # chunks n (drop (length (c # cs)) bs))"
  by pat_completeness auto
termination
proof (relation "measure (\<lambda>(n, bs). length bs)")
  fix n bs and c :: byte and cs assume "fgets_take n bs = c # cs"
  then have "bs \<noteq> []" by (cases n) auto
  then show "((n, drop (length (c # cs)) bs), (n, bs)) \<in> measure (\<lambda>(n, bs). length bs)" by simp
qed simp

declare chunks.simps [simp del]

definition entry_of :: "byte list \<Rightarrow> byte list" where
  "entry_of buffer = c_string (takeWhile (\<lambda>b. b \<noteq> newline) buffer)"

lemma chunks_split: "fgets_take n bs = c \<Longrightarrow> c \<noteq> [] \<Longrightarrow> chunks n bs = c # chunks n (drop (length c) bs)"
  by (subst chunks.simps) (cases c, auto)

lemma store_lines_eq:
  assumes "\<And>n. alloc n" and "0 \<le> i" and "i \<le> int (length lines)"
  shows "store_lines alloc fp lines i =
    (let es = map entry_of (chunks (MAX_TEXT_LINE_LENGTH - 1) (rest fp)) in
     if i + int (length es) \<le> int (length lines)
     then Some (take (nat i) lines @ map Some es @ drop (nat i + length es) lines) else None)"
  using assms
proof (induction alloc fp lines i rule: store_lines.induct)
  case (1 alloc fp lines i)
  let ?N = "MAX_TEXT_LINE_LENGTH - 1"
  show ?case
  proof (cases "fgets MAX_TEXT_LINE_LENGTH fp")
    case (Pair r fp')
    show ?thesis
    proof (cases r)
      case None
      then have "fgets_take ?N (rest fp) = []" using Pair by (auto simp: fgets_def Let_def split: if_splits)
      then have "chunks ?N (rest fp) = []" by (subst chunks.simps) simp
      then show ?thesis using Pair None "1.prems" by (subst store_lines.simps) (simp add: Let_def)
    next
      case (Some buf)
      note g = fgets_progress[OF Pair[unfolded Some]]
      have ch: "chunks ?N (rest fp) = buf # chunks ?N (rest fp')"
        using chunks_split[OF g(2)[symmetric] g(3)] g(1) by simp
      show ?thesis
      proof (cases "i < int (length lines)")
        case False
        then show ?thesis using "1.prems" Pair Some ch
          by (subst store_lines.simps) (simp add: Let_def wr_def)
      next
        case True
        let ?e = "c_string (takeWhile (\<lambda>b. b \<noteq> newline) buf)"
        let ?l = "lines[nat i := Some (?e)]"
        have w: "wr lines i (Some (?e)) = Some ?l" using True "1.prems" by (simp add: wr_Some)
        have IH: "store_lines alloc fp' ?l (i + 1) =
          (let es = map entry_of (chunks ?N (rest fp')) in
           if i + 1 + int (length es) \<le> int (length ?l)
           then Some (take (nat (i + 1)) ?l @ map Some es @ drop (nat (i + 1) + length es) ?l) else None)"
          by (rule "1.IH"[OF Pair[symmetric] Some refl _ w])
             (use True "1.prems" in auto)
        have n: "nat (i + 1) = Suc (nat i)" "nat i < length lines" using True "1.prems" by auto
        have "take (Suc (nat i)) ?l = take (nat i) lines @ [Some ?e]"
          using n by (simp add: take_Suc_conv_app_nth)
        moreover have "entry_of buf = ?e" by (simp add: entry_of_def)
        ultimately show ?thesis using "1.prems" Pair Some IH w ch n
          by (subst store_lines.simps) (auto simp: Let_def)
      qed
    qed
  qed
qed

text \<open>The lines of a file, each with its newline; the last one may lack it.\<close>

fun file_lines :: "byte list \<Rightarrow> byte list list" where
  "file_lines [] = []"
| "file_lines (b # bs) = (if b = newline then [b] # file_lines bs
     else (case file_lines bs of [] \<Rightarrow> [[b]] | l # ls \<Rightarrow> (b # l) # ls))"

lemma file_lines_nonempty [simp]: "file_lines bs = [] \<longleftrightarrow> bs = []"
  by (cases bs) (auto split: list.splits)

lemma file_lines_length: "length (file_lines bs) \<le> count_list bs newline + 1"
  by (induction bs) (auto split: list.splits)

lemma fgets_take_line:
  "file_lines bs = l # ls \<Longrightarrow> length l \<le> n \<Longrightarrow> fgets_take n bs = l \<and> file_lines (drop (length l) bs) = ls"
proof (induction bs arbitrary: l n)
  case (Cons b bs)
  then obtain n' where n: "n = Suc n'" by (cases n) (auto split: if_splits list.splits)
  show ?case
  proof (cases "b = newline \<or> bs = []")
    case True
    then show ?thesis using Cons.prems n by (cases n') auto
  next
    case False
    then obtain l' where l': "file_lines bs = l' # ls" "l = b # l'"
      using Cons.prems(1) by (auto split: list.splits)
    then show ?thesis using Cons.IH[OF l'(1), of n'] Cons.prems(2) n False by simp
  qed
qed simp

lemma chunks_lines: "\<forall>l \<in> set (file_lines bs). length l \<le> n \<Longrightarrow> chunks n bs = file_lines bs"
proof (induction "length (file_lines bs)" arbitrary: bs)
  case 0
  then show ?case by (cases n) (simp_all add: chunks.simps)
next
  case (Suc k)
  then obtain l ls where l: "file_lines bs = l # ls" by (cases "file_lines bs") auto
  then have f: "fgets_take n bs = l" "file_lines (drop (length l) bs) = ls"
    using fgets_take_line[OF l, of n] Suc.prems by auto
  have "l \<noteq> []" using l by (cases bs) (auto split: if_splits list.splits)
  then have "chunks n bs = l # chunks n (drop (length l) bs)" using chunks_split[OF f(1)] by simp
  also have "chunks n (drop (length l) bs) = ls" using Suc.hyps(1)[of "drop (length l) bs"] Suc.hyps(2) Suc.prems f(2) l by simp
  finally show ?case using l by simp
qed

lemma read_lines_eq:
  assumes "\<And>n. alloc n" and "files fs p = Some bs"
  shows "read_lines_from_file alloc fs p =
    (let es = map entry_of (chunks (MAX_TEXT_LINE_LENGTH - 1) bs); n = count_list bs newline + 1 in
     if length es \<le> n then Some (Some (map Some es @ replicate (n - length es) None, int n)) else None)"
proof -
  have e: "store_lines alloc \<lparr>content = bs, fpos = 0, at_eof = False\<rparr> (replicate (count_list bs newline + 1) None) 0 =
      (let es = map entry_of (chunks (MAX_TEXT_LINE_LENGTH - 1) bs); n = count_list bs newline + 1 in
       if length es \<le> n then Some (map Some es @ replicate (n - length es) None) else None)"
    by (subst store_lines_eq) (simp_all add: assms(1) rest_def Let_def drop_replicate del: replicate_Suc)
  have n: "nat (int (count_list bs newline) + 1) = count_list bs newline + 1" by simp
  show ?thesis
    unfolding read_lines_from_file_def fopen_Some[OF assms(2)] option.case count_lines_eq prod.case n e Let_def
    by (simp add: assms(1) del: replicate_Suc)
qed

lemma fgets_take_no_newline: "newline \<notin> set bs \<Longrightarrow> fgets_take n bs = take n bs"
  by (induction n bs rule: fgets_take.induct) auto

section \<open>Properties\<close>

text \<open>
  \<open>read_lines_from_file\<close> on a file whose lines have at most 1023 bytes (newline included):
  every line comes back in order, cut at its newline (and at an embedded NUL); the reported
  number is the number of newlines plus one, and the entries beyond the last line are NULL.
\<close>

theorem read_lines_short:
  assumes "\<And>n. alloc n" and "files fs p = Some bs"
    and "\<forall>l \<in> set (file_lines bs). length l < MAX_TEXT_LINE_LENGTH"
  shows "read_lines_from_file alloc fs p =
    Some (Some (map (Some \<circ> entry_of) (file_lines bs) @
                  replicate (count_list bs newline + 1 - length (file_lines bs)) None,
                int (count_list bs newline) + 1))"
proof -
  have "chunks (MAX_TEXT_LINE_LENGTH - 1) bs = file_lines bs" by (rule chunks_lines) (use assms(3) in auto)
  then show ?thesis
    unfolding read_lines_eq[OF assms(1,2)] Let_def using file_lines_length[of bs] by (simp del: replicate_Suc)
qed

theorem read_lines_short_witness:
  "read_lines_from_file (\<lambda>_. True)
      \<lparr>files = [''labels'' \<mapsto> [99, 97, 116, 10, 100, 111, 103, 10]], may_write = \<lambda>_. False\<rparr> ''labels'' =
    Some (Some (map (Some \<circ> entry_of) (file_lines [99, 97, 116, 10, 100, 111, 103, 10]) @
                  replicate (count_list [99, 97, 116, 10, 100, 111, 103, 10] newline + 1 -
                    length (file_lines [99, 97, 116, 10, 100, 111, 103, 10])) None,
                int (count_list [99, 97, 116, 10, 100, 111, 103, 10] newline) + 1))"
  by (rule read_lines_short) (simp_all add: MAX_TEXT_LINE_LENGTH_def)



text \<open>
  Writing a file and reading it back: the bytes written come back with their number and a
  terminating NUL, and \<open>load_model\<close> finds the same bytes.
\<close>

theorem write_read_roundtrip:
  assumes "may_write fs p" and "\<And>n. alloc n"
  shows "\<exists>fs'. write_data_to_file fs p data (length data) = Some (0, fs') \<and>
    read_data_from_file alloc fs' p = Some (int (length data), Some (data @ [0])) \<and>
    load_model alloc fs' p = Some (Some (data, int (length data)))"
  using assms by (simp add: write_data_to_file_def read_data_from_file_def load_model_def fopen_def fread_def
      rest_def Let_def)

theorem write_read_roundtrip_witness:
  "\<exists>fs'. write_data_to_file \<lparr>files = Map.empty, may_write = \<lambda>_. True\<rparr> ''a'' [1, 2, 3] (length [1, 2, 3 :: byte]) = Some (0, fs') \<and>
    read_data_from_file (\<lambda>_. True) fs' ''a'' = Some (int (length [1, 2, 3 :: byte]), Some ([1, 2, 3] @ [0])) \<and>
    load_model (\<lambda>_. True) fs' ''a'' = Some (Some ([1, 2, 3], int (length [1, 2, 3 :: byte])))"
  by (rule write_read_roundtrip) simp_all

end
