(* ===== verification/Labels.thy ===== *)
theory Labels
  imports File_Utils Yolo_Decode
begin

text \<open>
  The label table of \<^verbatim>\<open>postprocess.cc\<close>: reading the class names line by line into a
  table of 80 pointers, looking a name up and freeing the table.  A NULL pointer is \<open>None\<close>;
  where an access may leave the table an outer \<open>option\<close> says so.
\<close>

section \<open>The code\<close>

text \<open>
  The loop of \<open>readLine\<close>: it grows the buffer by one byte per character and ends at a newline
  or at the end of the file, the second component of its result.
\<close>

function read_line_loop :: "(nat \<Rightarrow> bool) \<Rightarrow> FILE \<Rightarrow> byte list \<Rightarrow> (byte list \<times> bool \<times> FILE) option" where
  "read_line_loop alloc fp buffer =
     (case fgetc fp of
        (None, fp') \<Rightarrow> Some (buffer, True, fp')
      | (Some ch, fp') \<Rightarrow>
          if ch = newline then Some (buffer, False, fp')
          else if \<not> alloc (length buffer + 2) then None
          else read_line_loop alloc fp' (buffer @ [ch]))"
  by pat_completeness auto
termination
  by (relation "measure (\<lambda>(_, fp, _). length (content fp) - fpos fp)") (auto simp: fgetc_def split: if_splits)

declare read_line_loop.simps [simp del]

definition readLine :: "(nat \<Rightarrow> bool) \<Rightarrow> FILE \<Rightarrow> (byte list \<times> FILE) option" where
  "readLine alloc fp =
     (if \<not> alloc 1 then None
      else case read_line_loop alloc fp [] of
          None \<Rightarrow> None
        | Some (buffer, ended, fp') \<Rightarrow> if ended \<and> buffer = [] then None else Some (buffer, fp'))"

lemma read_line_loop_rest:
  "read_line_loop alloc fp buffer = Some (buffer', ended, fp') \<Longrightarrow>
   length (rest fp') \<le> length (rest fp) \<and>
   (\<not> ended \<or> buffer' \<noteq> buffer \<longrightarrow> length (rest fp') < length (rest fp))"
proof (induction alloc fp buffer rule: read_line_loop.induct)
  case (1 alloc fp buffer)
  show ?case
  proof (cases "fpos fp < length (content fp)")
    case True
    then have g: "fgetc fp = (Some (content fp ! fpos fp), fp\<lparr>fpos := fpos fp + 1\<rparr>)" by (simp add: fgetc_def)
    have r: "length (rest (fp\<lparr>fpos := fpos fp + 1\<rparr>)) < length (rest fp)" using True by (simp add: rest_def)
    show ?thesis
    proof (cases "content fp ! fpos fp = newline \<or> \<not> alloc (length buffer + 2)")
      case True
      then show ?thesis using "1.prems" r g by (subst (asm) read_line_loop.simps) (auto split: if_splits)
    next
      case False
      then have "read_line_loop alloc (fp\<lparr>fpos := fpos fp + 1\<rparr>) (buffer @ [content fp ! fpos fp]) =
          Some (buffer', ended, fp')"
        using "1.prems" g by (subst (asm) read_line_loop.simps) auto
      then show ?thesis using "1.IH"[OF g[symmetric] refl] False r by fastforce
    qed
  next
    case False
    then have g: "fgetc fp = (None, fp\<lparr>at_eof := True\<rparr>)" by (simp add: fgetc_def)
    have "rest (fp\<lparr>at_eof := True\<rparr>) = rest fp" by (simp add: rest_def)
    then show ?thesis using "1.prems" g by (subst (asm) read_line_loop.simps) auto
  qed
qed

lemma readLine_shorter:
  "readLine alloc fp = Some (s, fp') \<Longrightarrow> length (rest fp') < length (rest fp)"
  by (auto simp: readLine_def split: if_splits option.splits prod.splits dest: read_line_loop_rest)

function read_lines_loop ::
    "(nat \<Rightarrow> bool) \<Rightarrow> FILE \<Rightarrow> byte list option list \<Rightarrow> int \<Rightarrow> int \<Rightarrow> (int \<times> byte list option list) option" where
  "read_lines_loop alloc file lines i max_line =
     (case readLine alloc file of
        None \<Rightarrow> Some (i, lines)
      | Some (s, file') \<Rightarrow>
          do {
            lines' \<leftarrow> wr lines i (Some s);
            if i + 1 \<ge> max_line then Some (i + 1, lines')
            else read_lines_loop alloc file' lines' (i + 1) max_line
          })"
  by pat_completeness auto
termination
  by (relation "measure (\<lambda>(_, file, _). length (rest file))") (auto dest: readLine_shorter)

declare read_lines_loop.simps [simp del]

definition readLines ::
    "(nat \<Rightarrow> bool) \<Rightarrow> file_system \<Rightarrow> path \<Rightarrow> byte list option list \<Rightarrow> int \<Rightarrow> (int \<times> byte list option list) option" where
  "readLines alloc fs fileName lines max_line =
     (case fopen fs fileName of
        None \<Rightarrow> Some (-1, lines)
      | Some file \<Rightarrow> read_lines_loop alloc file lines 0 max_line)"

text \<open>\<open>loadLabelName\<close> drops the result of \<open>readLines\<close>.\<close>

definition loadLabelName ::
    "(nat \<Rightarrow> bool) \<Rightarrow> file_system \<Rightarrow> path \<Rightarrow> byte list option list \<Rightarrow> (int \<times> byte list option list) option" where
  "loadLabelName alloc fs locationFilename label =
     do {
       (_, label') \<leftarrow> readLines alloc fs locationFilename label OBJ_CLASS_NUM;
       Some (0, label')
     }"

definition LABEL_NALE_TXT_PATH :: path where
  "LABEL_NALE_TXT_PATH = ''./model/coco_80_labels_list.txt''"

definition init_post_process ::
    "(nat \<Rightarrow> bool) \<Rightarrow> file_system \<Rightarrow> byte list option list \<Rightarrow> (int \<times> byte list option list) option" where
  "init_post_process alloc fs labels =
     do {
       (ret, labels') \<leftarrow> loadLabelName alloc fs LABEL_NALE_TXT_PATH labels;
       if ret < 0 then Some (-1, labels') else Some (0, labels')
     }"

definition null_name :: "byte list" where
  "null_name = [110, 117, 108, 108]"

text \<open>The name is read through the returned pointer, up to the first NUL.\<close>

definition coco_cls_to_name :: "byte list option list \<Rightarrow> int \<Rightarrow> byte list option" where
  "coco_cls_to_name labels cls_id =
     (if cls_id \<ge> OBJ_CLASS_NUM then Some null_name
      else do {
        l \<leftarrow> rd labels cls_id;
        Some (case l of Some name \<Rightarrow> c_string name | None \<Rightarrow> null_name)
      })"

definition deinit_post_process :: "byte list option list \<Rightarrow> byte list option list option" where
  "deinit_post_process labels =
     for_up (\<lambda>i labels. map_option Nxt (do {
       l \<leftarrow> rd labels i;
       if l \<noteq> None then wr labels i None else Some labels
     })) 0 OBJ_CLASS_NUM labels"

text \<open>The static table before the first load.\<close>

definition labels0 :: "byte list option list" where
  "labels0 = replicate 80 None"

section \<open>Reading lines\<close>

lemma fgetc_Cons:
  assumes "rest fp = b # bs"
  shows "fgetc fp = (Some b, fp\<lparr>fpos := fpos fp + 1\<rparr>)" "rest (fp\<lparr>fpos := fpos fp + 1\<rparr>) = bs"
proof -
  have lt: "fpos fp < length (content fp)" using assms by (metis drop_all linorder_not_le list.distinct(1) rest_def)
  then have "drop (fpos fp) (content fp) = content fp ! fpos fp # drop (Suc (fpos fp)) (content fp)"
    by (simp add: Cons_nth_drop_Suc)
  then show "fgetc fp = (Some b, fp\<lparr>fpos := fpos fp + 1\<rparr>)" "rest (fp\<lparr>fpos := fpos fp + 1\<rparr>) = bs"
    using assms lt by (auto simp: rest_def fgetc_def)
qed

lemma fgetc_Nil: "rest fp = [] \<Longrightarrow> fgetc fp = (None, fp\<lparr>at_eof := True\<rparr>)"
  by (simp add: rest_def fgetc_def)

lemma read_line_loop_line:
  assumes "rest fp = l @ newline # bs" and "newline \<notin> set l"
  shows "\<exists>fp'. read_line_loop (\<lambda>_. True) fp buffer = Some (buffer @ l, False, fp') \<and> rest fp' = bs"
  using assms
proof (induction l arbitrary: fp buffer)
  case Nil
  then have r: "rest fp = newline # bs" by simp
  show ?case using fgetc_Cons[OF r] by (subst read_line_loop.simps) simp
next
  case (Cons b l)
  then have r: "rest fp = b # (l @ newline # bs)" by simp
  show ?case using fgetc_Cons[OF r] Cons.IH[of "fp\<lparr>fpos := fpos fp + 1\<rparr>" "buffer @ [b]"] Cons.prems
    by (subst read_line_loop.simps) simp
qed

lemma readLine_line:
  assumes "rest fp = l @ newline # bs" and "newline \<notin> set l"
  shows "\<exists>fp'. readLine (\<lambda>_. True) fp = Some (l, fp') \<and> rest fp' = bs"
  using read_line_loop_line[OF assms, of "[]"] by (auto simp: readLine_def)

lemma readLine_end: "rest fp = [] \<Longrightarrow> readLine alloc fp = None"
  by (simp add: readLine_def read_line_loop.simps[of alloc fp] fgetc_Nil)

text \<open>The table file for a list of names.\<close>

definition label_file :: "byte list list \<Rightarrow> byte list" where
  "label_file names = concat (map (\<lambda>n. n @ [newline]) names)"

lemma read_lines_loop_names:
  assumes "rest fp = label_file names" and "\<forall>n \<in> set names. newline \<notin> set n"
    and "0 \<le> i" and "i + int (length names) \<le> max_line" and "max_line \<le> int (length lines)" and "i < max_line"
  shows "read_lines_loop (\<lambda>_. True) fp lines i max_line =
    Some (i + int (length names), take (nat i) lines @ map Some names @ drop (nat i + length names) lines)"
  using assms
proof (induction names arbitrary: fp lines i)
  case Nil
  then show ?case by (subst read_lines_loop.simps) (simp add: label_file_def readLine_end)
next
  case (Cons n names)
  then have "rest fp = n @ newline # label_file names" "newline \<notin> set n" by (simp_all add: label_file_def)
  from readLine_line[OF this] obtain fp' where r: "readLine (\<lambda>_. True) fp = Some (n, fp')" "rest fp' = label_file names"
    by blast
  have w: "wr lines i (Some n) = Some (lines[nat i := Some n])" using Cons.prems by (simp add: wr_Some)
  have k: "nat (i + 1) = Suc (nat i)" "nat i < length lines" using Cons.prems by auto
  have t: "take (Suc (nat i)) (lines[nat i := Some n]) = take (nat i) lines @ [Some n]"
    using k by (simp add: take_Suc_conv_app_nth)
  show ?case
  proof (cases "i + 1 \<ge> max_line")
    case True
    moreover have "int (length (n # names)) = 1 + int (length names)" by simp
    ultimately have "length names = 0" using Cons.prems(4) by linarith
    then have "names = []" by simp
    then show ?thesis using True r(1) w t k id_take_nth_drop[OF k(2)] Cons.prems
      by (subst read_lines_loop.simps) (simp add: upd_conv_take_nth_drop)
  next
    case False
    then have "read_lines_loop (\<lambda>_. True) fp' (lines[nat i := Some n]) (i + 1) max_line =
        Some (i + 1 + int (length names), take (nat (i + 1)) (lines[nat i := Some n]) @ map Some names @
          drop (nat (i + 1) + length names) (lines[nat i := Some n]))"
      by (intro Cons.IH) (use Cons.prems r in auto)
    then show ?thesis using False r(1) w t k by (subst read_lines_loop.simps) simp
  qed
qed

section \<open>Properties\<close>

text \<open>
  C31. Loading the label table and looking a class up: with a file of at most 80 lines, the
  lines free of NUL, class \<open>i\<close> is named by line \<open>i\<close>, and every class number from the
  number of lines on by "null"; the load reports success.
\<close>

theorem labels_lookup:
  assumes "files fs LABEL_NALE_TXT_PATH = Some (label_file names)"
    and "length names \<le> 80" and "\<forall>n \<in> set names. newline \<notin> set n \<and> 0 \<notin> set n"
  shows "\<exists>labels. init_post_process (\<lambda>_. True) fs labels0 = Some (0, labels) \<and>
    (\<forall>i < length names. coco_cls_to_name labels (int i) = Some (names ! i)) \<and>
    (\<forall>i \<ge> length names. coco_cls_to_name labels (int i) = Some null_name)"
proof -
  let ?labels = "map Some names @ replicate (80 - length names) None"
  have "read_lines_loop (\<lambda>_. True) \<lparr>content = label_file names, fpos = 0, at_eof = False\<rparr> labels0 0 80 =
      Some (int (length names), ?labels)"
    by (subst read_lines_loop_names[where names = names])
       (use assms in \<open>auto simp: rest_def labels0_def drop_replicate\<close>)
  then have "init_post_process (\<lambda>_. True) fs labels0 = Some (0, ?labels)"
    unfolding init_post_process_def loadLabelName_def readLines_def fopen_Some[OF assms(1)] OBJ_CLASS_NUM_def by simp
  moreover have "coco_cls_to_name ?labels (int i) = Some (names ! i)" if "i < length names" for i
  proof -
    have "takeWhile (\<lambda>b. b \<noteq> 0) (names ! i) = names ! i"
      using assms(3) nth_mem[OF that] by (auto simp: takeWhile_eq_all_conv)
    then show ?thesis
      using that assms(2) by (simp add: coco_cls_to_name_def rd_Some nth_append c_string_def OBJ_CLASS_NUM_def)
  qed
  moreover have "coco_cls_to_name ?labels (int i) = Some null_name" if "length names \<le> i" for i
    using that assms(2) by (auto simp: coco_cls_to_name_def rd_def nth_append OBJ_CLASS_NUM_def)
  ultimately show ?thesis by (intro exI[of _ ?labels]) blast
qed

theorem labels_lookup_witness:
  "\<exists>labels. init_post_process (\<lambda>_. True)
      \<lparr>files = [LABEL_NALE_TXT_PATH \<mapsto> label_file [[99, 97, 116], [100, 111, 103]]], may_write = \<lambda>_. False\<rparr> labels0 =
        Some (0, labels) \<and>
    (\<forall>i < length [[99, 97, 116], [100, 111, 103 :: byte]]. coco_cls_to_name labels (int i) = Some ([[99, 97, 116], [100, 111, 103]] ! i)) \<and>
    (\<forall>i \<ge> length [[99, 97, 116], [100, 111, 103 :: byte]]. coco_cls_to_name labels (int i) = Some null_name)"
  by (rule labels_lookup) simp_all

text \<open>
  A missing label file is not reported: \<open>init_post_process\<close> returns 0, its failure branch
  never runs, and every class of the empty table is then called "null".
\<close>

theorem labels_missing_file:
  assumes "files fs LABEL_NALE_TXT_PATH = None"
  shows "init_post_process alloc fs labels0 = Some (0, labels0) \<and>
    (\<forall>i. coco_cls_to_name labels0 (int i) = Some null_name)"
  using assms by (simp add: init_post_process_def loadLabelName_def readLines_def fopen_def
      coco_cls_to_name_def labels0_def rd_def OBJ_CLASS_NUM_def)

theorem labels_missing_file_witness:
  "init_post_process (\<lambda>_. True) \<lparr>files = Map.empty, may_write = \<lambda>_. False\<rparr> labels0 = Some (0, labels0) \<and>
    (\<forall>i. coco_cls_to_name labels0 (int i) = Some null_name)"
  by (rule labels_missing_file) simp

end
