(* ===== verification/Mqtt_Glue.thy ===== *)
theory Mqtt_Glue
  imports CFloat
begin

text \<open>
  The MQTT side of the program, \<^verbatim>\<open>src/paho_c_pub.c\<close> and \<^verbatim>\<open>src/paho_c_sub.c\<close>: the
  globals the callbacks and publishers share, the callbacks themselves, the two initialisations
  and the two messages to the turret.  The paho library is not part of the sources' own code: its
  return codes are the record \<open>paho\<close>, and the calls that reach it are logged in order.
\<close>

section \<open>Printed numbers\<close>

text \<open>\<open>%d\<close> of \<open>sprintf\<close>.\<close>

definition digit :: "nat \<Rightarrow> char" where
  "digit d = char_of (48 + d)"

fun show_nat :: "nat \<Rightarrow> string" where
  "show_nat n = (if n < 10 then [digit n] else show_nat (n div 10) @ [digit (n mod 10)])"

declare show_nat.simps [simp del]

definition show_int :: "int \<Rightarrow> string" where
  "show_int n = (if n < 0 then CHR ''-'' # show_nat (nat (- n)) else show_nat (nat n))"

lemma show_nat_length: "n < 10 ^ k \<Longrightarrow> 0 < k \<Longrightarrow> length (show_nat n) \<le> k"
proof (induction n arbitrary: k rule: show_nat.induct)
  case (1 n)
  show ?case
  proof (cases "n < 10")
    case True
    then show ?thesis using "1.prems" by (subst show_nat.simps) simp
  next
    case False
    then obtain j where k: "k = Suc j" "0 < j" using "1.prems" by (cases k; cases "k - 1") auto
    then have "n div 10 < 10 ^ j" using "1.prems" by (simp add: less_mult_imp_div_less mult.commute)
    then show ?thesis using "1.IH"[OF False _ k(2)] k(1) False by (subst show_nat.simps) simp
  qed
qed

lemma show_int_length: "int32 n \<Longrightarrow> length (show_int n) \<le> 11"
  using show_nat_length[of "nat n" 10] show_nat_length[of "nat (- n)" 10]
  by (auto simp: show_int_def int32_def nat_less_iff)

section \<open>State\<close>

text \<open>The options both files start from; a NULL string is \<open>None\<close>.\<close>

record pubsub_opts =
  verbose :: bool
  quiet :: bool
  delimiter :: "string option"
  null_message :: bool
  message :: "string option"
  filename :: "string option"
  topic :: "string option"
  clientid :: string
  qos :: int
  retained :: int
  MQTTVersion :: int
  psk :: "string option"
  psk_identity :: "string option"
  will_payload :: "string option"
  will_topic :: "string option"
  message_expiry :: int

text \<open>The calls into the library.\<close>

datatype paho_call =
    Create (create_url: string) (create_client: string) (create_version: int)
  | SetCallbacks
  | Connect (connect_user: string) (connect_keepalive: int) (connect_will: "string option")
  | Subscribe (sub_topic: "string option") (sub_qos: int)
  | Send (send_topic: "string option") (send_payload: string) (send_qos: int) (send_retained: int)

text \<open>The library's return codes; 0 is \<open>MQTTASYNC_SUCCESS\<close>.\<close>

record paho =
  create_rc :: int
  callbacks_rc :: int
  connect_rc :: int
  subscribe_rc :: int
  send_rc :: int

text \<open>The globals of the two files; the static variables carry their file in the name.\<close>

record mqtt_state =
  Teasing_sw :: int
  finished :: int
  subscribed :: int
  disconnected :: int
  opts_s :: pubsub_opts
  toStop :: int
  pub_disconnected :: int
  connected :: int
  published :: int
  shake_val :: int
  opts :: pubsub_opts
  calls :: "paho_call list"

definition MQTTVERSION_DEFAULT :: int where "MQTTVERSION_DEFAULT = 0"
definition MQTTVERSION_5 :: int where "MQTTVERSION_5 = 5"

definition opts_s0 :: pubsub_opts where
  "opts_s0 = \<lparr>verbose = False, quiet = False, delimiter = Some [CHR 0x0A], null_message = False,
     message = None, filename = None, topic = None, clientid = ''paho-c-sub'', qos = 0, retained = 0,
     MQTTVersion = MQTTVERSION_DEFAULT, psk = None, psk_identity = None, will_payload = None,
     will_topic = None, message_expiry = 0\<rparr>"

definition opts0 :: pubsub_opts where
  "opts0 = opts_s0\<lparr>clientid := ''paho-c-pub''\<rparr>"

definition mqtt0 :: mqtt_state where
  "mqtt0 = \<lparr>Teasing_sw = 1, finished = 0, subscribed = 0, disconnected = 0, opts_s = opts_s0,
     toStop = 0, pub_disconnected = 0, connected = 0, published = 0, shake_val = 5, opts = opts0,
     calls = []\<rparr>"

definition call :: "paho_call \<Rightarrow> mqtt_state \<Rightarrow> mqtt_state" where
  "call c s = s\<lparr>calls := calls s @ [c]\<rparr>"

section \<open>The subscriber\<close>

definition Get_TeasingSW :: "mqtt_state \<Rightarrow> int" where
  "Get_TeasingSW s = Teasing_sw s"

definition cfinish_s :: "mqtt_state \<Rightarrow> mqtt_state" where
  "cfinish_s s = s\<lparr>finished := 1\<rparr>"

text \<open>
  The echo of a message on the console: the payload as \<open>%.*s\<close> prints it, followed by the
  delimiter unless the payload ends with it.
\<close>

definition message_echo :: "pubsub_opts \<Rightarrow> string \<Rightarrow> string \<Rightarrow> string" where
  "message_echo o' topicName payload =
     (let head = (if verbose o' then show_int (int (length payload)) @ '' '' @ topicName @ [CHR 0x09] else '''');
          shown = takeWhile (\<lambda>c. c \<noteq> CHR 0x00) payload
      in ''mqtt msg:'' @ head @
         (case delimiter o' of
            None \<Rightarrow> shown
          | Some d \<Rightarrow> if length d < length payload \<and> drop (length payload - length d) payload = d
              then shown else shown @ d))"

definition messageArrived_s :: "string \<Rightarrow> string \<Rightarrow> mqtt_state \<Rightarrow> (int \<times> string \<times> mqtt_state) option" where
  "messageArrived_s topicName payload s =
     (if length payload < 3 then Some (1, '''', s)
      else do {
        c \<leftarrow> rd payload 1;
        let sw = (if c = CHR ''1'' then 1 else 0);
        let said = (if sw = 1 then ''Teasing_sw on'' @ [CHR 0x0D, CHR 0x0A] else '''');
        Some (1, said @ message_echo (opts_s s) topicName payload, s\<lparr>Teasing_sw := sw\<rparr>)
      })"

definition onDisconnect_s :: "mqtt_state \<Rightarrow> mqtt_state" where
  "onDisconnect_s s = s\<lparr>disconnected := 1\<rparr>"

definition onSubscribe_s :: "mqtt_state \<Rightarrow> mqtt_state" where
  "onSubscribe_s s = s\<lparr>subscribed := 1\<rparr>"

definition onSubscribe5_s :: "mqtt_state \<Rightarrow> mqtt_state" where
  "onSubscribe5_s s = s\<lparr>subscribed := 1\<rparr>"

definition onSubscribeFailure_s :: "mqtt_state \<Rightarrow> mqtt_state" where
  "onSubscribeFailure_s s = s\<lparr>finished := 1\<rparr>"

definition onSubscribeFailure5_s :: "mqtt_state \<Rightarrow> mqtt_state" where
  "onSubscribeFailure5_s s = s\<lparr>finished := 1\<rparr>"

definition onConnectFailure_s :: "mqtt_state \<Rightarrow> mqtt_state" where
  "onConnectFailure_s s = s\<lparr>finished := 1\<rparr>"

definition onConnectFailure5_s :: "mqtt_state \<Rightarrow> mqtt_state" where
  "onConnectFailure5_s s = s\<lparr>finished := 1\<rparr>"

definition onConnect5_s :: "paho \<Rightarrow> mqtt_state \<Rightarrow> mqtt_state" where
  "onConnect5_s p s =
     (let s1 = call (Subscribe (topic (opts_s s)) (qos (opts_s s))) s
      in if subscribe_rc p \<noteq> 0 then s1\<lparr>finished := 1\<rparr> else s1)"

definition onConnect_s :: "paho \<Rightarrow> mqtt_state \<Rightarrow> mqtt_state" where
  "onConnect_s p s =
     (let s1 = call (Subscribe (topic (opts_s s)) (qos (opts_s s))) s
      in if subscribe_rc p \<noteq> 0 then s1\<lparr>finished := 1\<rparr> else s1)"

text \<open>A function that may end the process.\<close>

datatype outcome = Returns int mqtt_state | Exits int mqtt_state

definition broker_url :: string where "broker_url = ''192.168.31.201:1883''"

definition mqttsub_init :: "paho \<Rightarrow> mqtt_state \<Rightarrow> outcome" where
  "mqttsub_init p s =
     (let o1 = (opts_s s)\<lparr>topic := Some ''/livingroom/battery1/sw'', MQTTVersion := MQTTVERSION_5\<rparr>;
          s1 = call (Create broker_url (clientid o1) MQTTVERSION_5) (s\<lparr>opts_s := o1\<rparr>)
      in if create_rc p \<noteq> 0 then Exits 1 s1
         else
           (let s2 = call SetCallbacks s1
            in if callbacks_rc p \<noteq> 0 then Exits 1 s2
               else
                 (let s3 = call (Connect ''admin'' 100 (will_topic o1)) s2
                  in if connect_rc p \<noteq> 0 then Exits 1 s3 else Returns 0 s3)))"

section \<open>The publisher\<close>

definition cfinish :: "mqtt_state \<Rightarrow> mqtt_state" where
  "cfinish s = s\<lparr>toStop := 1\<rparr>"

definition messageArrived :: "mqtt_state \<Rightarrow> int \<times> mqtt_state" where
  "messageArrived s = (1, s)"

definition onDisconnect5 :: "mqtt_state \<Rightarrow> mqtt_state" where
  "onDisconnect5 s = s\<lparr>pub_disconnected := 1\<rparr>"

definition onDisconnect :: "mqtt_state \<Rightarrow> mqtt_state" where
  "onDisconnect s = s\<lparr>pub_disconnected := 1\<rparr>"

definition onConnectFailure5 :: "mqtt_state \<Rightarrow> mqtt_state" where
  "onConnectFailure5 s = s\<lparr>connected := -1\<rparr>"

definition onConnectFailure :: "mqtt_state \<Rightarrow> mqtt_state" where
  "onConnectFailure s = s\<lparr>connected := -1\<rparr>"

definition onConnect5 :: "mqtt_state \<Rightarrow> mqtt_state" where
  "onConnect5 s = s"

definition onConnect :: "mqtt_state \<Rightarrow> mqtt_state" where
  "onConnect s = s"

definition onPublishFailure5 :: "mqtt_state \<Rightarrow> mqtt_state" where
  "onPublishFailure5 s = s\<lparr>published := -1\<rparr>"

definition onPublishFailure :: "mqtt_state \<Rightarrow> mqtt_state" where
  "onPublishFailure s = s\<lparr>published := -1\<rparr>"

definition onPublish5 :: "mqtt_state \<Rightarrow> mqtt_state" where
  "onPublish5 s =
     (let s1 = (if null_message (opts s) \<or> message (opts s) \<noteq> None \<or> filename (opts s) \<noteq> None
                then s\<lparr>toStop := 1\<rparr> else s)
      in s1\<lparr>published := 1\<rparr>)"

definition onPublish :: "mqtt_state \<Rightarrow> mqtt_state" where
  "onPublish s =
     (let s1 = (if null_message (opts s) \<or> message (opts s) \<noteq> None \<or> filename (opts s) \<noteq> None
                then s\<lparr>toStop := 1\<rparr> else s)
      in s1\<lparr>published := 1\<rparr>)"

definition myconnect :: "paho \<Rightarrow> mqtt_state \<Rightarrow> outcome" where
  "myconnect p s =
     (let o1 = (opts s)\<lparr>topic := Some ''/livingroom/guard/cat/set/sw''\<rparr>;
          s1 = call (Connect ''admin'' 100 (topic o1)) (s\<lparr>opts := o1, connected := 0\<rparr>)
      in if connect_rc p \<noteq> 0 then Exits 1 s1 else Returns 0 s1)"

definition mypublish :: "paho \<Rightarrow> string \<Rightarrow> mqtt_state \<Rightarrow> int \<times> mqtt_state" where
  "mypublish p data s =
     (send_rc p, call (Send (topic (opts s)) data (qos (opts s)) (retained (opts s))) s)"

definition mqtt_init :: "paho \<Rightarrow> mqtt_state \<Rightarrow> outcome" where
  "mqtt_init p s =
     (let s1 = call (Create broker_url (clientid (opts s)) MQTTVERSION_5) s
      in if create_rc p \<noteq> 0 then Returns 1 s1
         else
           (let s2 = call SetCallbacks s1
            in if callbacks_rc p \<noteq> 0 then Returns 1 s2
               else case myconnect p s2 of Exits c s3 \<Rightarrow> Exits c s3 | Returns _ s3 \<Rightarrow> Returns 0 s3))"

text \<open>Text printed into \<open>char data_buff[64]\<close>; a longer text is a write outside it.\<close>

definition data_buff :: "string \<Rightarrow> string option" where
  "data_buff txt = (if length txt < 64 then Some txt else None)"

definition mqtt_cat_locationreport :: "int \<Rightarrow> int \<Rightarrow> int \<Rightarrow> int \<Rightarrow> mqtt_state \<Rightarrow> mqtt_state option" where
  "mqtt_cat_locationreport sX sY eX eY s =
     do {
       txt \<leftarrow> data_buff (''sX:'' @ show_int sX @ '' sY:'' @ show_int sY @ '' eX:'' @ show_int eX @ '' eY:'' @ show_int eY);
       Some (call (Send (Some ''/livingroom/guard/cat/state/ps'') txt (qos (opts s)) (retained (opts s))) s)
     }"

text \<open>
  The angles: the literals 19.2 and 43.2 are \<open>double\<close>, so the sums are computed in double and
  rounded by the assignment to \<open>float\<close>.
\<close>

definition guard_x_angle :: "int \<Rightarrow> int \<Rightarrow> fl" where
  "guard_x_angle shake sX =
     d2f (fl_add rnd64 (fl_add rnd64 (fl_div rnd64 (i2f sX) (rnd64 (96/5))) (Fin 40)) (i2d shake))"

definition guard_y_angle :: "int \<Rightarrow> fl" where
  "guard_y_angle sY = d2f (fl_add rnd64 (fl_div rnd64 (i2f sY) (rnd64 (216/5))) (Fin 50))"

definition mqtt_guard_ps_set :: "int \<Rightarrow> int \<Rightarrow> int \<Rightarrow> int \<Rightarrow> mqtt_state \<Rightarrow> mqtt_state option" where
  "mqtt_guard_ps_set sX sY eX eY s =
     (let s1 = s\<lparr>shake_val := -1 * shake_val s\<rparr>
      in do {
        x \<leftarrow> f2i (guard_x_angle (shake_val s1) sX);
        y \<leftarrow> f2i (guard_y_angle sY);
        txt \<leftarrow> data_buff (show_int x @ '','' @ show_int y);
        Some (call (Send (Some ''battery1/coordinate'') txt (qos (opts s1)) (retained (opts s1))) s1)
      })"

section \<open>The turret angles\<close>

lemma rnd64_between:
  assumes "lo \<le> x" and "x \<le> hi" and "fl_le (Fin l) (rnd64 lo)" and "fl_le (rnd64 hi) (Fin h)"
  shows "\<exists>r. rnd64 x = Fin r \<and> l \<le> r \<and> r \<le> h"
proof -
  have "fl_le (Fin l) (rnd64 x)" "fl_le (rnd64 x) (Fin h)"
    using fl_le_trans[OF assms(3) rnd64_mono[OF assms(1)]] fl_le_trans[OF rnd64_mono[OF assms(2)] assms(4)] by auto
  then show ?thesis by (cases "rnd64 x") auto
qed

lemma rnd64_int_between:
  assumes "of_int l \<le> x" and "x \<le> of_int h" and "\<bar>l\<bar> < 16777216" and "\<bar>h\<bar> < 16777216"
  shows "\<exists>r. rnd64 x = Fin r \<and> of_int l \<le> r \<and> r \<le> of_int h"
  by (rule rnd64_between[OF assms(1,2)]) (use assms(3,4) in \<open>simp_all add: rnd64_int\<close>)

lemma axis_angle:
  assumes pos: "\<bar>a\<bar> < 16777216" and rng: "\<bar>l\<bar> < 1000" "\<bar>h\<bar> < 1000" "\<bar>off\<bar> < 1000" "\<bar>sh\<bar> < 1000"
    and q: "0 < q" and ab: "lo \<le> a" "a \<le> hi"
    and bnd: "fl_le (Fin (of_int l)) (rnd64 (of_int lo / q))" "fl_le (rnd64 (of_int hi / q)) (Fin (of_int h))"
  shows "\<exists>k. f2i (d2f (fl_add rnd64 (fl_add rnd64 (fl_div rnd64 (i2f a) (Fin q)) (Fin (of_int off))) (i2d sh))) = Some k \<and>
    l + off + sh \<le> k \<and> k \<le> h + off + sh"
proof -
  have "of_int lo / q \<le> of_int a / q" "of_int a / q \<le> of_int hi / q"
    using ab q by (simp_all add: divide_right_mono)
  from rnd64_between[OF this bnd] obtain r where r: "rnd64 (of_int a / q) = Fin r" "of_int l \<le> r" "r \<le> of_int h"
    by blast
  have small: "\<bar>l + off\<bar> < 16777216" "\<bar>h + off\<bar> < 16777216"
    "\<bar>l + off + sh\<bar> < 16777216" "\<bar>h + off + sh\<bar> < 16777216"
    using rng by linarith+
  have "of_int (l + off) \<le> r + of_int off" "r + of_int off \<le> of_int (h + off)" using r by simp_all
  from rnd64_int_between[OF this] obtain r2
    where r2: "rnd64 (r + of_int off) = Fin r2" "of_int (l + off) \<le> r2" "r2 \<le> of_int (h + off)"
    using small by blast
  have "of_int (l + off + sh) \<le> r2 + of_int sh" "r2 + of_int sh \<le> of_int (h + off + sh)" using r2 by simp_all
  from rnd64_int_between[OF this] obtain r3
    where r3: "rnd64 (r2 + of_int sh) = Fin r3" "of_int (l + off + sh) \<le> r3" "r3 \<le> of_int (h + off + sh)"
    using small by blast
  have le: "fl_le (Fin (of_int (l + off + sh))) (rnd32 r3)" "fl_le (rnd32 r3) (Fin (of_int (h + off + sh)))"
    using rnd32_mono[OF r3(2)] rnd32_mono[OF r3(3)] small
      rnd32_int[of "l + off + sh"] rnd32_int[of "h + off + sh"] by (auto simp del: of_int_add)
  have "q \<noteq> 0" using q by simp
  then have "d2f (fl_add rnd64 (fl_add rnd64 (fl_div rnd64 (i2f a) (Fin q)) (Fin (of_int off))) (i2d sh)) = rnd32 r3"
    using r(1) r2(1) r3(1) pos rng by (simp add: i2f_exact i2d_exact)
  then show ?thesis
    using f2i_between[OF le] small by simp
qed

lemma turret_literals:
  "rnd64 (96/5) = Fin (5404319552844595 / 281474976710656)"
  "rnd64 (216/5) = Fin (3039929748475085 / 70368744177664)"
  using rnd64_eval[of 4 "96/5" 5404319552844595] rnd64_eval[of 5 "216/5" 6079859496950170]
  by (simp_all add: pow2_def)

lemma turret_limits:
  "rnd64 (of_int 1920 / (5404319552844595 / 281474976710656)) = Fin 100"
  "rnd64 (of_int 1080 / (3039929748475085 / 70368744177664)) = Fin 25"
  using rnd64_eval[of 6 "1920 / (5404319552844595 / 281474976710656)" 7036874417766400]
    rnd64_eval[of 4 "1080 / (3039929748475085 / 70368744177664)" 7036874417766400]
  by (simp_all add: pow2_def)

text \<open>The horizontal angle for coordinates of the frame, and for those the centre crop yields.\<close>

lemma guard_x_range:
  assumes "0 \<le> sX" "sX \<le> 1920" and "sh = 5 \<or> sh = -5"
  shows "\<exists>k. f2i (guard_x_angle sh sX) = Some k \<and> 40 + sh \<le> k \<and> k \<le> 140 + sh"
proof -
  have "fl_le (Fin (of_int 0)) (rnd64 (of_int 0 / (5404319552844595 / 281474976710656)))"
    "fl_le (rnd64 (of_int 1920 / (5404319552844595 / 281474976710656))) (Fin (of_int 100))"
    unfolding turret_limits by simp_all
  from axis_angle[OF _ _ _ _ _ _ assms(1,2) this, of 40 sh] assms show ?thesis
    by (auto simp: guard_x_angle_def turret_literals)
qed

lemma guard_y_range:
  assumes "0 \<le> sY" "sY \<le> 1080"
  shows "\<exists>k. f2i (guard_y_angle sY) = Some k \<and> 50 \<le> k \<and> k \<le> 75"
proof -
  have b: "fl_le (Fin (of_int 0)) (rnd64 (of_int 0 / (3039929748475085 / 70368744177664)))"
    "fl_le (rnd64 (of_int 1080 / (3039929748475085 / 70368744177664))) (Fin (of_int 25))"
    unfolding turret_limits by simp_all
  obtain r where r: "rnd64 (of_int sY / (3039929748475085 / 70368744177664)) = Fin r" "0 \<le> r" "r \<le> 25"
    using rnd64_between[OF _ _ b, of "of_int sY / (3039929748475085 / 70368744177664)"] assms
    by (auto simp: field_simps)
  have "of_int 50 \<le> r + 50" "r + 50 \<le> of_int 75" using r by simp_all
  from rnd64_int_between[OF this] obtain r2 where r2: "rnd64 (r + 50) = Fin r2" "50 \<le> r2" "r2 \<le> 75"
    by auto
  have "fl_le (Fin (of_int 50)) (rnd32 r2)" "fl_le (rnd32 r2) (Fin (of_int 75))"
    using rnd32_mono[OF r2(2)] rnd32_mono[OF r2(3)] by auto
  from f2i_between[OF this] show ?thesis
    using assms r(1) r2(1) by (simp add: guard_y_angle_def turret_literals i2f_exact)
qed

section \<open>The TLS pre-shared key callback\<close>

text \<open>\<open>%2hhx\<close> of \<open>sscanf\<close>: white space is skipped, then at most two characters are read.\<close>

definition hex_val :: "char \<Rightarrow> nat option" where
  "hex_val c =
     (let n = of_char c :: nat
      in if 48 \<le> n \<and> n \<le> 57 then Some (n - 48)
         else if 65 \<le> n \<and> n \<le> 70 then Some (n - 55)
         else if 97 \<le> n \<and> n \<le> 102 then Some (n - 87) else None)"

definition is_space :: "char \<Rightarrow> bool" where
  "is_space c = (let n = of_char c :: nat in n = 32 \<or> 9 \<le> n \<and> n \<le> 13)"

definition scan_hex2 :: "string \<Rightarrow> byte option" where
  "scan_hex2 str =
     (case take 2 (dropWhile is_space str) of
        [] \<Rightarrow> None
      | [a] \<Rightarrow> map_option of_nat (hex_val a)
      | a # b # _ \<Rightarrow>
          if a = CHR ''-'' then map_option (\<lambda>n. - of_nat n) (hex_val b)
          else if a = CHR ''+'' then map_option of_nat (hex_val b)
          else if a = CHR ''0'' \<and> (b = CHR ''x'' \<or> b = CHR ''X'') then None
          else (case (hex_val a, hex_val b) of
              (None, _) \<Rightarrow> None
            | (Some h, None) \<Rightarrow> Some (of_nat h)
            | (Some h, Some l) \<Rightarrow> Some (of_nat (16 * h + l))))"

text \<open>
  \<open>strncpy\<close> into a buffer of \<open>n\<close> characters: cut at \<open>n\<close>, filled up with NUL.
\<close>

definition strncpy :: "nat \<Rightarrow> string \<Rightarrow> string" where
  "strncpy n src = take n src @ replicate (n - length src) (CHR 0x00)"

text \<open>
  The two buffers are the caller's; the result is the return value with the buffers written to.
\<close>

definition onPSKAuth ::
    "pubsub_opts \<Rightarrow> string \<Rightarrow> nat \<Rightarrow> byte list \<Rightarrow> nat \<Rightarrow> (int \<times> string \<times> byte list) option" where
  "onPSKAuth o' identity max_identity_len psk_buf max_psk_len =
     (case (psk o', psk_identity o') of
        (Some key, Some ident) \<Rightarrow>
          let psk_len = length key div 2 in
          if psk_len > max_psk_len then Some (0, identity, psk_buf)
          else do {
            buf \<leftarrow> for_up (\<lambda>k buf. map_option Nxt
                (case scan_hex2 (drop (nat (2 * k)) key) of
                   Some v \<Rightarrow> wr buf k v
                 | None \<Rightarrow> Some buf)) 0 (int psk_len) psk_buf;
            let identity' = strncpy max_identity_len ident;
            lastc \<leftarrow> rd identity' (int max_identity_len - 1);
            Some (if lastc \<noteq> CHR 0x00 then 0 else int psk_len, identity', buf)
          }
      | _ \<Rightarrow> Some (0, identity, psk_buf))"

definition hex_digit :: "nat \<Rightarrow> char" where
  "hex_digit n = (if n < 10 then char_of (48 + n) else char_of (87 + n))"

definition hex_byte :: "byte \<Rightarrow> string" where
  "hex_byte b = [hex_digit (unat b div 16), hex_digit (unat b mod 16)]"

definition hex_text :: "byte list \<Rightarrow> string" where
  "hex_text bs = concat (map hex_byte bs)"

lemma of_char_hex_digit: "n < 16 \<Longrightarrow> (of_char (hex_digit n) :: nat) = (if n < 10 then 48 + n else 87 + n)"
  by (simp add: hex_digit_def)

lemma hex_digit_facts:
  assumes "n < 16"
  shows "hex_val (hex_digit n) = Some n" "\<not> is_space (hex_digit n)" "hex_digit n \<noteq> CHR ''-''"
    "hex_digit n \<noteq> CHR ''+''" "hex_digit n \<noteq> CHR ''x''" "hex_digit n \<noteq> CHR ''X''"
proof -
  note e = of_char_hex_digit[OF assms]
  show "hex_val (hex_digit n) = Some n" using assms by (auto simp: hex_val_def e Let_def)
  show "\<not> is_space (hex_digit n)" by (auto simp: is_space_def e Let_def)
  have ne: "hex_digit n \<noteq> c" if "(of_char c :: nat) \<notin> {48..57} \<union> {97..102}" for c
    using that e assms by (auto split: if_splits)
  show "hex_digit n \<noteq> CHR ''-''" "hex_digit n \<noteq> CHR ''+''" "hex_digit n \<noteq> CHR ''x''" "hex_digit n \<noteq> CHR ''X''"
    by (rule ne, simp)+
qed

lemma scan_hex_byte: "scan_hex2 (hex_byte b @ rest) = Some b"
proof -
  have n: "unat b div 16 < 16" "unat b mod 16 < 16"
    using unsigned_less[of b, where ?'a = nat] by simp_all
  have "of_nat (16 * (unat b div 16) + unat b mod 16) = b"
    by (simp only: mult_div_mod_eq) simp
  then show ?thesis
    using hex_digit_facts[OF n(1)] hex_digit_facts[OF n(2)] by (simp add: scan_hex2_def hex_byte_def)
qed

lemma drop_hex_text:
  "k < length bs \<Longrightarrow> drop (2 * k) (hex_text bs) = hex_byte (bs ! k) @ drop (2 * k + 2) (hex_text bs)"
proof (induction bs arbitrary: k)
  case (Cons b bs)
  have b: "length (hex_byte b) = 2" by (simp add: hex_byte_def)
  show ?case
  proof (cases k)
    case 0
    then show ?thesis using b by (simp add: hex_text_def)
  next
    case (Suc j)
    then show ?thesis using Cons b by (simp add: hex_text_def)
  qed
qed simp

lemma length_hex_text [simp]: "length (hex_text bs) = 2 * length bs"
  by (induction bs) (auto simp: hex_text_def hex_byte_def)

lemma hex_loop:
  assumes "length bs \<le> length buf0"
  shows "for_up (\<lambda>k buf. map_option Nxt
      (case scan_hex2 (drop (nat (2 * k)) (hex_text bs)) of
         Some v \<Rightarrow> wr buf k v
       | None \<Rightarrow> Some buf)) 0 (int (length bs)) buf0 = Some (bs @ drop (length bs) buf0)"
proof -
  let ?P = "\<lambda>k buf. buf = take (nat k) bs @ drop (nat k) buf0"
  have "\<exists>s'. for_up (\<lambda>k buf. map_option Nxt
      (case scan_hex2 (drop (nat (2 * k)) (hex_text bs)) of
         Some v \<Rightarrow> wr buf k v
       | None \<Rightarrow> Some buf)) 0 (int (length bs)) buf0 = Some s' \<and> ?P (max 0 (int (length bs))) s'"
  proof (rule for_each_rule)
    fix k buf assume k: "0 \<le> k" "k < int (length bs)" and inv: "?P k buf"
    have n: "nat k < length bs" "nat (2 * k) = 2 * nat k" "nat (k + 1) = Suc (nat k)" using k by auto
    have v: "scan_hex2 (drop (nat (2 * k)) (hex_text bs)) = Some (bs ! nat k)"
      using drop_hex_text[OF n(1)] scan_hex_byte n(2) by metis
    have "wr buf k (bs ! nat k) = Some (take (nat (k + 1)) bs @ drop (nat (k + 1)) buf0)"
      using n assms k inv by (simp add: wr_Some list_update_append take_Suc_conv_app_nth
          Cons_nth_drop_Suc[symmetric] min_def)
    then show "\<exists>t'. (case scan_hex2 (drop (nat (2 * k)) (hex_text bs)) of
         Some v \<Rightarrow> wr buf k v | None \<Rightarrow> Some buf) = Some t' \<and> ?P (k + 1) t'"
      using v by simp
  qed simp
  then show ?thesis by (simp add: max_def)
qed

section \<open>Events\<close>

text \<open>What the library's callbacks and the detection loop can do to the shared state.\<close>

inductive mqtt_step :: "paho \<Rightarrow> mqtt_state \<Rightarrow> mqtt_state \<Rightarrow> bool" for p where
  arrived: "messageArrived_s t m s = Some (r, out, s') \<Longrightarrow> mqtt_step p s s'"
| sub_connected: "mqtt_step p s (onConnect5_s p s)"
| sub_connected3: "mqtt_step p s (onConnect_s p s)"
| sub_connect_failed: "mqtt_step p s (onConnectFailure5_s s)"
| sub_connect_failed3: "mqtt_step p s (onConnectFailure_s s)"
| sub_subscribed: "mqtt_step p s (onSubscribe5_s s)"
| sub_subscribed3: "mqtt_step p s (onSubscribe_s s)"
| sub_refused: "mqtt_step p s (onSubscribeFailure5_s s)"
| sub_refused3: "mqtt_step p s (onSubscribeFailure_s s)"
| sub_disconnected: "mqtt_step p s (onDisconnect_s s)"
| sub_signal: "mqtt_step p s (cfinish_s s)"
| pub_connect_failed: "mqtt_step p s (onConnectFailure5 s)"
| pub_connect_failed3: "mqtt_step p s (onConnectFailure s)"
| pub_connected: "mqtt_step p s (onConnect5 s)"
| pub_connected3: "mqtt_step p s (onConnect s)"
| pub_failed: "mqtt_step p s (onPublishFailure5 s)"
| pub_failed3: "mqtt_step p s (onPublishFailure s)"
| pub_done: "mqtt_step p s (onPublish5 s)"
| pub_done3: "mqtt_step p s (onPublish s)"
| pub_disconnected: "mqtt_step p s (onDisconnect5 s)"
| pub_disconnected3: "mqtt_step p s (onDisconnect s)"
| pub_signal: "mqtt_step p s (cfinish s)"
| init_pub: "mqtt_init p s = Returns r s' \<Longrightarrow> mqtt_step p s s'"
| init_sub: "mqttsub_init p s = Returns r s' \<Longrightarrow> mqtt_step p s s'"
| publish: "mypublish p d s = (r, s') \<Longrightarrow> mqtt_step p s s'"
| report: "mqtt_cat_locationreport a b c d s = Some s' \<Longrightarrow> mqtt_step p s s'"
| guard: "mqtt_guard_ps_set a b c d s = Some s' \<Longrightarrow> mqtt_step p s s'"

inductive mqtt_reachable :: "paho \<Rightarrow> mqtt_state \<Rightarrow> bool" for p where
  start: "mqtt_reachable p mqtt0"
| step: "mqtt_reachable p s \<Longrightarrow> mqtt_step p s s' \<Longrightarrow> mqtt_reachable p s'"

definition mqtt_inv :: "mqtt_state \<Rightarrow> bool" where
  "mqtt_inv s \<longleftrightarrow>
     (Teasing_sw s = 0 \<or> Teasing_sw s = 1) \<and> (shake_val s = 5 \<or> shake_val s = -5) \<and>
     (connected s = -1 \<or> connected s = 0) \<and>
     (\<forall>t pl q r. Send t pl q r \<in> set (calls s) \<and> t = Some ''battery1/coordinate'' \<longrightarrow> q = 0 \<and> r = 0) \<and>
     qos (opts s) = 0 \<and> retained (opts s) = 0 \<and> topic (opts s) \<noteq> Some ''battery1/coordinate''"

lemmas mqtt_handler_defs =
  onConnect5_s_def onConnect_s_def onConnectFailure5_s_def onConnectFailure_s_def onSubscribe5_s_def
  onSubscribe_s_def onSubscribeFailure5_s_def onSubscribeFailure_s_def onDisconnect_s_def cfinish_s_def
  onConnectFailure5_def onConnectFailure_def onConnect5_def onConnect_def onPublishFailure5_def
  onPublishFailure_def onPublish5_def onPublish_def onDisconnect5_def onDisconnect_def cfinish_def
  call_def Let_def

lemma mqtt_step_inv: "mqtt_step p s s' \<Longrightarrow> mqtt_inv s \<Longrightarrow> mqtt_inv s'"
proof (induction rule: mqtt_step.induct)
  case (arrived t m s r out s')
  then have "s' = s \<or> s' = s\<lparr>Teasing_sw := 0\<rparr> \<or> s' = s\<lparr>Teasing_sw := 1\<rparr>"
    by (auto simp: messageArrived_s_def Let_def split: if_splits Option.bind_splits)
  then show ?case using arrived(2) by (auto simp: mqtt_inv_def)
next
  case (guard a b c d s s')
  then obtain tx where "s' = call (Send (Some ''battery1/coordinate'') tx (qos (opts s)) (retained (opts s)))
      (s\<lparr>shake_val := - shake_val s\<rparr>)"
    by (auto simp: mqtt_guard_ps_set_def Let_def split: Option.bind_splits)
  then show ?case using guard(2) by (auto simp: mqtt_inv_def call_def)
next
  case (report a b c d s s')
  then obtain tx where "s' = call (Send (Some ''/livingroom/guard/cat/state/ps'') tx (qos (opts s)) (retained (opts s))) s"
    by (auto simp: mqtt_cat_locationreport_def split: Option.bind_splits)
  then show ?case using report(2) by (auto simp: mqtt_inv_def call_def)
qed (auto simp: mqtt_inv_def mqtt_handler_defs mqtt_init_def mqttsub_init_def myconnect_def mypublish_def
    split: if_splits outcome.splits)

lemma mqtt_reachable_inv: "mqtt_reachable p s \<Longrightarrow> mqtt_inv s"
  by (induction rule: mqtt_reachable.induct)
     (auto simp: mqtt_inv_def mqtt0_def opts0_def opts_s0_def dest: mqtt_step_inv)

section \<open>The turret command\<close>

lemma show_int_short: "0 \<le> n \<Longrightarrow> n < 1000 \<Longrightarrow> length (show_int n) \<le> 3"
  using show_nat_length[of "nat n" 3] by (simp add: show_int_def nat_less_iff)

lemma guard_set_value:
  assumes "f2i (guard_x_angle (- shake_val s) x1) = Some x" "0 \<le> x" "x < 1000"
    and "f2i (guard_y_angle y1) = Some y" "0 \<le> y" "y < 1000"
  shows "mqtt_guard_ps_set x1 y1 x2 y2 s =
    Some (call (Send (Some ''battery1/coordinate'') (show_int x @ '','' @ show_int y)
            (qos (opts s)) (retained (opts s))) (s\<lparr>shake_val := - shake_val s\<rparr>))"
proof -
  have "length (show_int x) \<le> 3" "length (show_int y) \<le> 3"
    using assms by (auto intro: show_int_short)
  then have "data_buff (show_int x @ '','' @ show_int y) = Some (show_int x @ '','' @ show_int y)"
    by (simp add: data_buff_def)
  then show ?thesis using assms by (simp add: mqtt_guard_ps_set_def Let_def)
qed

lemma guard_set_ok:
  assumes "shake_val s = 5 \<or> shake_val s = -5" and "0 \<le> sX" "sX \<le> 1920" and "0 \<le> sY" "sY \<le> 1080"
  shows "\<exists>x y. mqtt_guard_ps_set sX sY eX eY s =
      Some (call (Send (Some ''battery1/coordinate'') (show_int x @ '','' @ show_int y)
              (qos (opts s)) (retained (opts s))) (s\<lparr>shake_val := - shake_val s\<rparr>)) \<and>
    40 - shake_val s \<le> x \<and> x \<le> 140 - shake_val s \<and> 50 \<le> y \<and> y \<le> 75"
proof -
  obtain x where x: "f2i (guard_x_angle (- shake_val s) sX) = Some x"
    "40 - shake_val s \<le> x" "x \<le> 140 - shake_val s"
    using guard_x_range[OF assms(2,3), of "- shake_val s"] assms(1) by auto
  obtain y where y: "f2i (guard_y_angle sY) = Some y" "50 \<le> y" "y \<le> 75"
    using guard_y_range[OF assms(4,5)] by auto
  have "0 \<le> x" "x < 1000" using x assms(1) by auto
  then have "mqtt_guard_ps_set sX sY eX eY s =
      Some (call (Send (Some ''battery1/coordinate'') (show_int x @ '','' @ show_int y)
              (qos (opts s)) (retained (opts s))) (s\<lparr>shake_val := - shake_val s\<rparr>))"
    by (intro guard_set_value[OF x(1) _ _ y(1)]) (use y in auto)
  then show ?thesis using x y by blast
qed

text \<open>The horizontal angle for the columns the centre crop covers.\<close>

lemma guard_x_crop_range:
  assumes "420 \<le> sX" "sX \<le> 1500" and "sh = 5 \<or> sh = -5"
  shows "\<exists>k. f2i (guard_x_angle sh sX) = Some k \<and> 61 + sh \<le> k \<and> k \<le> 119 + sh"
proof -
  have "fl_le (rnd64 (of_int 21)) (rnd64 (of_int 420 / (5404319552844595 / 281474976710656)))"
    "fl_le (rnd64 (of_int 1500 / (5404319552844595 / 281474976710656))) (rnd64 (of_int 79))"
    by (rule rnd64_mono, simp)+
  then have "fl_le (Fin (of_int 21)) (rnd64 (of_int 420 / (5404319552844595 / 281474976710656)))"
    "fl_le (rnd64 (of_int 1500 / (5404319552844595 / 281474976710656))) (Fin (of_int 79))"
    by simp_all
  from axis_angle[OF _ _ _ _ _ _ assms(1,2) this, of 40 sh] assms show ?thesis
    by (auto simp: guard_x_angle_def turret_literals)
qed

section \<open>Properties\<close>



text \<open>
  The documented horizontal range 40-140 of the turret is not kept: the first command, for
  a cat at the left edge of the frame, orders 35 degrees.
\<close>

theorem turret_range_exceeded:
  "\<exists>s'. mqtt_guard_ps_set 0 0 0 0 mqtt0 = Some s' \<and>
    calls s' = [Send (Some ''battery1/coordinate'') ''35,50'' 0 0]"
proof -
  have "f2i (guard_x_angle (-5) 0) = Some 35" "f2i (guard_y_angle 0) = Some 50"
    by (simp_all add: guard_x_angle_def guard_y_angle_def turret_literals i2f_exact i2d_exact f2i_def trunc_def)
  moreover have "show_int 35 = ''35''" "show_int 50 = ''50''"
    by (simp_all add: show_int_def show_nat.simps digit_def char_of_def bit_0)
  ultimately show ?thesis
    by (simp add: mqtt_guard_ps_set_def mqtt0_def opts0_def opts_s0_def data_buff_def call_def Let_def)
qed

text \<open>
  C30. The shared MQTT state: in every order of callbacks, initialisations and publications the
  teasing switch is 0 or 1, the shake is five degrees either way, and the publisher's
  \<open>connected\<close> flag is 0 or -1: a successful connection is never recorded.
\<close>

theorem mqtt_state_invariant:
  assumes "mqtt_reachable p s"
  shows "(Teasing_sw s = 0 \<or> Teasing_sw s = 1) \<and> \<bar>shake_val s\<bar> = 5 \<and> (connected s = -1 \<or> connected s = 0)"
  using mqtt_reachable_inv[OF assms] by (auto simp: mqtt_inv_def)

theorem mqtt_state_invariant_witness:
  "(Teasing_sw (onSubscribe5_s mqtt0) = 0 \<or> Teasing_sw (onSubscribe5_s mqtt0) = 1) \<and>
   \<bar>shake_val (onSubscribe5_s mqtt0)\<bar> = 5 \<and>
   (connected (onSubscribe5_s mqtt0) = -1 \<or> connected (onSubscribe5_s mqtt0) = 0)"
  by (rule mqtt_state_invariant[where p = "\<lparr>create_rc = 0, callbacks_rc = 0, connect_rc = 0, subscribe_rc = 0, send_rc = 0\<rparr>"])
     (rule mqtt_reachable.step[OF mqtt_reachable.start mqtt_step.sub_subscribed])

text \<open>
  The switch message: a message of fewer than three bytes changes nothing, every other one
  sets the teasing switch to 1 exactly when its second byte is the character 1; the handler never
  reads outside the payload and always asks the library to free the message (it returns 1).
\<close>

theorem switch_message:
  "\<exists>out s'. messageArrived_s t payload s = Some (1, out, s') \<and>
    s' = (if length payload < 3 then s
          else s\<lparr>Teasing_sw := (if payload ! 1 = CHR ''1'' then 1 else 0)\<rparr>)"
  by (auto simp: messageArrived_s_def rd_def Let_def)

text \<open>
  C40. The pre-shared key callback inverts hexadecimal text: a key given as the hexadecimal text of
  \<open>bs\<close> that fits the caller's buffer is written there byte for byte, the rest of the buffer is
  kept, the NUL-padded identity is copied and the key length returned.
\<close>

theorem psk_roundtrip:
  assumes "psk o' = Some (hex_text bs)" and "psk_identity o' = Some ident"
    and "length bs \<le> length buf" and "length ident < n"
  shows "onPSKAuth o' identity n buf (length buf) =
    Some (int (length bs), ident @ replicate (n - length ident) (CHR 0x00), bs @ drop (length bs) buf)"
proof -
  have "rd (strncpy n ident) (int n - 1) = Some (CHR 0x00)"
  proof -
    have "nat (int n - 1) = n - 1" "\<not> n - 1 < length ident" using assms(4) by auto
    then show ?thesis using assms(4) by (simp add: strncpy_def rd_Some nth_append)
  qed
  then show ?thesis
    using assms hex_loop[OF assms(3)] by (simp add: onPSKAuth_def Let_def strncpy_def)
qed

theorem psk_roundtrip_witness:
  "onPSKAuth (opts0\<lparr>psk := Some (hex_text [202, 254]), psk_identity := Some ''cat''\<rparr>) ''........'' 8
      [0, 0, 0, 0] (length [0, 0, 0, 0 :: byte]) =
    Some (int (length [202, 254 :: byte]), ''cat'' @ replicate (8 - length ''cat'') (CHR 0x00),
          [202, 254] @ drop (length [202, 254 :: byte]) [0, 0, 0, 0])"
  by (rule psk_roundtrip) simp_all

text \<open>
  The location report fits its 64-byte buffer for every four \<open>int\<close> coordinates.
\<close>

theorem location_report_fits:
  assumes "int32 sX" "int32 sY" "int32 eX" "int32 eY"
  shows "\<exists>t. mqtt_cat_locationreport sX sY eX eY s =
    Some (call (Send (Some ''/livingroom/guard/cat/state/ps'') t (qos (opts s)) (retained (opts s))) s) \<and>
    length t \<le> 59"
proof -
  let ?t = "''sX:'' @ show_int sX @ '' sY:'' @ show_int sY @ '' eX:'' @ show_int eX @ '' eY:'' @ show_int eY"
  have "length ?t \<le> 59" using assms[THEN show_int_length] by simp
  then have "mqtt_cat_locationreport sX sY eX eY s =
      Some (call (Send (Some ''/livingroom/guard/cat/state/ps'') ?t (qos (opts s)) (retained (opts s))) s)"
    unfolding mqtt_cat_locationreport_def data_buff_def by (subst if_P) simp_all
  then show ?thesis using \<open>length ?t \<le> 59\<close> by blast
qed

theorem location_report_fits_witness:
  "\<exists>t. mqtt_cat_locationreport (-2147483648) 1080 2147483647 0 mqtt0 =
    Some (call (Send (Some ''/livingroom/guard/cat/state/ps'') t (qos (opts mqtt0)) (retained (opts mqtt0))) mqtt0) \<and>
    length t \<le> 59"
  by (rule location_report_fits) (simp_all add: int32_def)

end
