(* ===== verification/Image_Handle.thy ===== *)
theory Image_Handle
  imports Postprocess Mqtt_Glue
begin

text \<open>
  \<^verbatim>\<open>src/image_handle.cc\<close> without its queue: the crop and letterbox geometry, the mapping
  of detection boxes back to the frame, the choice of the region to look at next and the turret
  command for a detected cat.  Pixels are OpenCV's and the RGA library's; the model keeps what
  the code computes itself: sizes, offsets, buffer bounds and library handles.
\<close>

section \<open>State\<close>

text \<open>
  \<open>detect_manage\<close>, \<open>detect_result\<close> and the other globals of the file.  \<open>handles\<close> counts
  the imported RGA buffers that have not been released; \<open>mq\<close> is the MQTT side.
\<close>

record det_state =
  srol_width :: int
  srol_height :: int
  model_w :: int
  model_h :: int
  scale_f :: fl
  pollingarea :: int
  pollingareacnt :: int
  leftPadding :: int
  topPadding :: int
  target_s_x :: int
  target_e_x :: int
  region_sX :: int
  sX :: int
  sY :: int
  eX :: int
  eY :: int
  target_have :: int
  cat_dected :: int
  usecond_le :: "32 word"
  src_buf_size :: int
  dst_buf_size :: int
  handles :: int
  mq :: mqtt_state

definition RAW_IMAGE_WIDTH :: int where "RAW_IMAGE_WIDTH = 1920"
definition RAW_IMAGE_HEIGHT :: int where "RAW_IMAGE_HEIGHT = 1080"

definition pos_x_dect :: "int list" where "pos_x_dect = [0, 420, 840]"
definition pos_mid_dect :: "int list" where "pos_mid_dect = [750, 1170]"

definition det_state0 :: det_state where
  "det_state0 = \<lparr>srol_width = 1080, srol_height = 1080, model_w = 640, model_h = 640, scale_f = Fin 0,
     pollingarea = 0, pollingareacnt = 3, leftPadding = 0, topPadding = 0, target_s_x = 0,
     target_e_x = 0, region_sX = 0, sX = 0, sY = 0, eX = 0, eY = 0, target_have = 0, cat_dected = 0,
     usecond_le = 0, src_buf_size = 0, dst_buf_size = 0, handles = 0, mq = mqtt0\<rparr>"

section \<open>Buffers\<close>

text \<open>\<open>get_bpp_from_format(RK_FORMAT_RGB_888)\<close> of the RGA library.\<close>

definition rgb888_bpp :: int where "rgb888_bpp = 3"

text \<open>
  \<open>image_hanlde_init\<close>: the arguments are the results of the two \<open>dma_buf_alloc\<close> calls.  The
  function has no \<open>return\<close> after a success, so its value is then undefined: \<open>None\<close> in the first
  component.
\<close>

definition image_hanlde_init :: "int \<Rightarrow> int \<Rightarrow> det_state \<Rightarrow> int option \<times> det_state" where
  "image_hanlde_init alloc_src alloc_dst s =
     (let s1 = s\<lparr>region_sX := 0, pollingarea := 0,
                 src_buf_size := srol_width s * srol_height s * rgb888_bpp,
                 dst_buf_size := model_w s * model_h s * rgb888_bpp\<rparr>
      in if alloc_src < 0 then (Some (-1), s1)
         else if alloc_dst < 0 then (Some (-1), s1)
         else (None, s1))"

definition get_model_hight :: "det_state \<Rightarrow> int" where "get_model_hight s = model_h s"
definition get_model_width :: "det_state \<Rightarrow> int" where "get_model_width s = model_w s"

section \<open>Letterbox\<close>

text \<open>The answers of the RGA library for one frame; 0 is a failed import, 1 \<open>IM_STATUS_SUCCESS\<close>.\<close>

record rga_run =
  src_import :: int
  dst_import :: int
  imresize_rc :: int

text \<open>What comes back: an empty matrix, the RGA buffer, or a black image with the resized input in a rectangle.\<close>

datatype letterboxed = EmptyMat | DstBuf int int | Pasted int int int int

text \<open>
  The image \<open>input\<close> is \<open>iwidth * iheight\<close> pixels; \<open>memcpy\<close> into \<open>src_buf\<close> must fit.
\<close>

definition letterbox :: "rga_run \<Rightarrow> int \<Rightarrow> int \<Rightarrow> det_state \<Rightarrow> (letterboxed \<times> det_state) option" where
  "letterbox rga iwidth iheight s =
     (let mw = i2f (model_w s); mh = i2f (model_h s);
          scaleX = fl_div rnd32 mw (i2f iwidth);
          scaleY = fl_div rnd32 mh (i2f iheight);
          sc = (if fl_less scaleX scaleY then scaleX else scaleY)
      in do {
        inputWidth \<leftarrow> f2i (fl_mul rnd32 (i2f iwidth) sc);
        inputHeight \<leftarrow> f2i (fl_mul rnd32 (i2f iheight) sc);
        lp \<leftarrow> f2i (fl_div rnd32 (fl_sub rnd32 mw (i2f inputWidth)) (Fin 2));
        tp \<leftarrow> f2i (fl_div rnd32 (fl_sub rnd32 mh (i2f inputHeight)) (Fin 2));
        let s1 = s\<lparr>scale_f := sc, leftPadding := lp, topPadding := tp\<rparr>;
        if iwidth * iheight * rgb888_bpp > src_buf_size s then None
        else
          (let s2 = s1\<lparr>handles := handles s1 + (if src_import rga = 0 then 0 else 1) +
                         (if dst_import rga = 0 then 0 else 1)\<rparr>
           in if src_import rga = 0 \<or> dst_import rga = 0 then Some (EmptyMat, s2)
              else if imresize_rc rga = 1 then
                Some (DstBuf (model_w s) (model_h s), s2\<lparr>handles := handles s2 - 2\<rparr>)
              else if 0 \<le> lp \<and> 0 \<le> tp \<and> 0 \<le> inputWidth \<and> 0 \<le> inputHeight \<and>
                lp + inputWidth \<le> 640 \<and> tp + inputHeight \<le> 640
              then Some (Pasted lp tp inputWidth inputHeight, s2) else None)
      })"

text \<open>
  \<open>pollingdecetbox\<close>: the assertion must hold, and the region of interest must lie inside the
  frame (OpenCV throws otherwise).
\<close>

definition pollingdecetbox :: "rga_run \<Rightarrow> det_state \<Rightarrow> (letterboxed \<times> det_state) option" where
  "pollingdecetbox rga s =
     (if region_sX s \<le> 840 then
        (let s1 = s\<lparr>region_sX := 420\<rparr>
         in if 0 \<le> region_sX s1 \<and> region_sX s1 + srol_width s1 \<le> RAW_IMAGE_WIDTH \<and>
               0 \<le> srol_height s1 \<and> srol_height s1 \<le> RAW_IMAGE_HEIGHT
            then letterbox rga (srol_width s1) (srol_height s1) s1 else None)
      else None)"

definition mapCoordinates :: "det_state \<Rightarrow> int \<Rightarrow> int \<Rightarrow> (int \<times> int) option" where
  "mapCoordinates s x y =
     (let mx = x - leftPadding s; my = y - topPadding s
      in do {
        qx \<leftarrow> f2i (fl_div rnd32 (i2f mx) (scale_f s));
        qy \<leftarrow> f2i (fl_div rnd32 (i2f my) (scale_f s));
        Some (qx + region_sX s, qy)
      })"

section \<open>Results\<close>

text \<open>
  The throttle: \<open>tv_usec\<close> is converted to the unsigned type of \<open>usecond_le\<close>, so a smaller
  value than the last one wraps.
\<close>

definition guard_due :: "int \<Rightarrow> det_state \<Rightarrow> bool" where
  "guard_due tv_usec s \<longleftrightarrow> 300000 \<le> word_of_int tv_usec - usecond_le s \<and> Get_TeasingSW (mq s) \<noteq> 0"

definition guard_to :: "int \<Rightarrow> int \<Rightarrow> int \<Rightarrow> int \<Rightarrow> int \<Rightarrow> det_state \<Rightarrow> det_state option" where
  "guard_to tv_usec x1 y1 x2 y2 s =
     (if guard_due tv_usec s then
        do {
          m \<leftarrow> mqtt_guard_ps_set x1 y1 x2 y2 (mq s);
          Some (s\<lparr>mq := m, usecond_le := word_of_int tv_usec\<rparr>)
        }
      else Some s)"

text \<open>One detection; \<open>now i\<close> is the microsecond part of the clock when it is handled.\<close>

definition draw_step ::
    "(int \<Rightarrow> int) \<Rightarrow> object_detect_result list \<Rightarrow> int \<Rightarrow> det_state \<times> bool \<times> int \<Rightarrow> (det_state \<times> bool \<times> int) option" where
  "draw_step now res i = (\<lambda>(s, have_cat, have_target).
     do {
       d \<leftarrow> rd res i;
       if cls_id d \<noteq> 0 \<and> cls_id d \<noteq> 15 \<and> cls_id d \<noteq> 16 then Some (s, have_cat, have_target)
       else
         do {
           (x1, y1) \<leftarrow> mapCoordinates s (left (obj_box d)) (top (obj_box d));
           (x2, y2) \<leftarrow> mapCoordinates s (right (obj_box d)) (bottom (obj_box d));
           let s1 = s\<lparr>sX := x1, sY := y1, eX := x2, eY := y2\<rparr>;
           if cls_id d = 15 \<or> cls_id d = 16 then
             do {
               s2 \<leftarrow> guard_to (now i) x1 y1 x2 y2
                 (s1\<lparr>cat_dected := 1, target_s_x := x1, target_e_x := x2\<rparr>);
               Some (s2, True, 1)
             }
           else if \<not> have_cat then
             Some (s1\<lparr>target_s_x := x1, target_e_x := x2\<rparr>, have_cat, 1)
           else Some (s1, have_cat, have_target)
         }
     })"

text \<open>The middle of the target as \<open>uint32_t\<close>: a negative value is a large one.\<close>

definition mid_pos :: "det_state \<Rightarrow> int" where
  "mid_pos s = ((target_e_x s - target_s_x s) sdiv 2 + target_s_x s) mod 2 ^ 32"

definition choose_region :: "det_state \<Rightarrow> det_state option" where
  "choose_region s =
     (if target_have s = 0 then
        (if pollingarea s \<le> 2 then
           do {
             p \<leftarrow> rd pos_x_dect (pollingarea s);
             Some (s\<lparr>region_sX := p, pollingarea := (pollingarea s + 1) smod pollingareacnt s\<rparr>)
           }
         else None)
      else
        do {
          m0 \<leftarrow> rd pos_mid_dect 0;
          m1 \<leftarrow> rd pos_mid_dect 1;
          p \<leftarrow> rd pos_x_dect (if mid_pos s < m0 then 0 else if mid_pos s < m1 then 1 else 2);
          Some (s\<lparr>region_sX := p\<rparr>)
        })"

definition draw_result :: "(int \<Rightarrow> int) \<Rightarrow> object_detect_result_list \<Rightarrow> det_state \<Rightarrow> det_state option" where
  "draw_result now od s =
     do {
       (s1, have_cat, have_target) \<leftarrow>
         for_up (\<lambda>i st. map_option Nxt (draw_step now (results od) i st)) 0 (count od) (s, False, 0);
       s2 \<leftarrow> choose_region s1;
       Some (s2\<lparr>target_have := have_target\<rparr>)
     }"

definition dm_cat_is_dected :: "int \<Rightarrow> det_state \<Rightarrow> det_state option" where
  "dm_cat_is_dected tv_usec s =
     (if cat_dected s = 0 then guard_to tv_usec 840 (sY s) (eX s) (eY s) (s\<lparr>target_s_x := 0, target_e_x := 0\<rparr>)
      else Some s)"

text \<open>One frame of the main loop, with the detections \<open>od\<close> the queue hands back.\<close>

definition frame_step ::
    "rga_run \<Rightarrow> (int \<Rightarrow> int) \<Rightarrow> object_detect_result_list \<Rightarrow> det_state \<Rightarrow> (letterboxed \<times> det_state) option" where
  "frame_step rga now od s =
     do {
       (img, s1) \<leftarrow> pollingdecetbox rga s;
       s2 \<leftarrow> draw_result now od s1;
       Some (img, s2)
     }"

section \<open>Geometry\<close>

text \<open>The scale of the 1080 to 640 letterbox as a \<open>float\<close>, and what it does at the borders.\<close>

abbreviation crop_scale :: rat where "crop_scale \<equiv> 4971027 / 8388608"

lemma crop_scale_facts:
  "rnd32 (16 / 27) = Fin crop_scale"
  "rnd32 (1080 * crop_scale) = Fin 640"
  "rnd32 (640 / crop_scale) = Fin 1080"
  using rnd32_eval[of "-1" "16/27" 9942054] rnd32_eval[of 9 "1080 * crop_scale" 10485760]
    rnd32_eval[of 10 "640 / crop_scale" 8847360]
  by (simp_all add: pow2_def)

definition det_inv :: "det_state \<Rightarrow> bool" where
  "det_inv s \<longleftrightarrow>
     srol_width s = 1080 \<and> srol_height s = 1080 \<and> model_w s = 640 \<and> model_h s = 640 \<and>
     src_buf_size s = 1080 * 1080 * rgb888_bpp \<and> pollingareacnt s = 3 \<and>
     region_sX s \<in> {0, 420, 840} \<and> pollingarea s \<in> {0, 1, 2} \<and>
     mqtt_inv (mq s)"

text \<open>The state between the crop and the evaluation of the detections.\<close>

definition cropped :: "det_state \<Rightarrow> bool" where
  "cropped s \<longleftrightarrow> det_inv s \<and> region_sX s = 420 \<and> scale_f s = Fin crop_scale \<and> leftPadding s = 0 \<and> topPadding s = 0"

lemma letterbox_eq:
  assumes "model_w s = 640" "model_h s = 640" "src_buf_size s = 1080 * 1080 * rgb888_bpp"
  shows "letterbox rga 1080 1080 s =
    (let h = handles s + (if src_import rga = 0 then 0 else 1) + (if dst_import rga = 0 then 0 else 1);
         bad = (src_import rga = 0 \<or> dst_import rga = 0)
     in Some (if bad then EmptyMat else if imresize_rc rga = 1 then DstBuf 640 640 else Pasted 0 0 640 640,
              s\<lparr>scale_f := Fin crop_scale, leftPadding := 0, topPadding := 0,
                handles := (if \<not> bad \<and> imresize_rc rga = 1 then h - 2 else h)\<rparr>))"
proof -
  have d: "fl_div rnd32 (i2f 640) (i2f 1080) = Fin crop_scale"
    using crop_scale_facts(1) by (simp add: i2f_exact)
  have m: "f2i (fl_mul rnd32 (i2f 1080) (Fin crop_scale)) = Some 640"
    using crop_scale_facts(2) by (simp add: i2f_exact)
  have p: "f2i (fl_div rnd32 (fl_sub rnd32 (i2f 640) (i2f 640)) (Fin 2)) = Some 0"
    by (simp add: i2f_exact fl_sub_def)
  show ?thesis
    unfolding letterbox_def Let_def assms d if_cancel m bind.bind_lunit p by simp
qed

lemma letterbox_crop:
  assumes "model_w s = 640" "model_h s = 640" "src_buf_size s = 1080 * 1080 * rgb888_bpp"
  shows "\<exists>img h. letterbox rga 1080 1080 s =
      Some (img, s\<lparr>scale_f := Fin crop_scale, leftPadding := 0, topPadding := 0, handles := h\<rparr>) \<and>
    (img = EmptyMat \<or> img = DstBuf 640 640 \<or> img = Pasted 0 0 640 640)"
proof -
  have "(if bad then EmptyMat else if ok then DstBuf 640 640 else Pasted 0 0 640 640) \<in>
      {EmptyMat, DstBuf 640 640, Pasted 0 0 640 640}" for bad ok by simp
  then show ?thesis unfolding letterbox_eq[OF assms] Let_def by blast
qed

lemma polling_crop:
  assumes "det_inv s"
  shows "\<exists>img s'. pollingdecetbox rga s = Some (img, s') \<and> cropped s' \<and> mq s' = mq s \<and>
    (img = EmptyMat \<or> img = DstBuf 640 640 \<or> img = Pasted 0 0 640 640)"
proof -
  have i: "model_w (s\<lparr>region_sX := 420\<rparr>) = 640" "model_h (s\<lparr>region_sX := 420\<rparr>) = 640"
    "src_buf_size (s\<lparr>region_sX := 420\<rparr>) = 1080 * 1080 * rgb888_bpp"
    using assms by (simp_all add: det_inv_def)
  obtain img h where l: "letterbox rga 1080 1080 (s\<lparr>region_sX := 420\<rparr>) =
      Some (img, s\<lparr>region_sX := 420, scale_f := Fin crop_scale, leftPadding := 0, topPadding := 0, handles := h\<rparr>)"
    "img = EmptyMat \<or> img = DstBuf 640 640 \<or> img = Pasted 0 0 640 640"
    using letterbox_crop[OF i, of rga] by auto
  have "pollingdecetbox rga s = letterbox rga 1080 1080 (s\<lparr>region_sX := 420\<rparr>)"
    using assms by (auto simp: pollingdecetbox_def Let_def det_inv_def RAW_IMAGE_WIDTH_def RAW_IMAGE_HEIGHT_def)
  then show ?thesis using l assms by (auto simp: cropped_def det_inv_def)
qed

lemma rnd32_between:
  assumes "lo \<le> x" "x \<le> hi" "rnd32 lo = Fin l" "rnd32 hi = Fin h"
  shows "fl_le (Fin l) (rnd32 x)" "fl_le (rnd32 x) (Fin h)"
  using rnd32_mono[OF assms(1)] rnd32_mono[OF assms(2)] assms(3,4) by simp_all

lemma map_axis:
  assumes "0 \<le> a" "a \<le> 640"
  shows "\<exists>k. f2i (fl_div rnd32 (i2f a) (Fin crop_scale)) = Some k \<and> 0 \<le> k \<and> k \<le> 1080"
proof -
  have "0 \<le> of_int a / crop_scale" "of_int a / crop_scale \<le> 640 / crop_scale" using assms by simp_all
  from rnd32_between[OF this _ crop_scale_facts(3)]
  have "fl_le (Fin (of_int 0)) (rnd32 (of_int a / crop_scale))" "fl_le (rnd32 (of_int a / crop_scale)) (Fin (of_int 1080))"
    by simp_all
  from f2i_between[OF this] show ?thesis using assms by (simp add: i2f_exact)
qed

lemma map_crop:
  assumes "cropped s" "0 \<le> x" "x \<le> 640" "0 \<le> y" "y \<le> 640"
  shows "\<exists>x' y'. mapCoordinates s x y = Some (x', y') \<and> 420 \<le> x' \<and> x' \<le> 1500 \<and> 0 \<le> y' \<and> y' \<le> 1080"
  using map_axis[OF assms(2,3)] map_axis[OF assms(4,5)] assms(1)
  by (auto simp: mapCoordinates_def cropped_def Let_def)

section \<open>The frame step\<close>

text \<open>A detection with a box inside the model input.\<close>

definition box_ok :: "object_detect_result \<Rightarrow> bool" where
  "box_ok d \<longleftrightarrow>
     0 \<le> left (obj_box d) \<and> left (obj_box d) \<le> 640 \<and> 0 \<le> right (obj_box d) \<and> right (obj_box d) \<le> 640 \<and>
     0 \<le> top (obj_box d) \<and> top (obj_box d) \<le> 640 \<and> 0 \<le> bottom (obj_box d) \<and> bottom (obj_box d) \<le> 640"

text \<open>Turret commands within the range the hardware comment gives: X 40-140, Y 50-75.\<close>

definition in_range_orders :: "paho_call list \<Rightarrow> bool" where
  "in_range_orders cs \<longleftrightarrow>
     (\<forall>c \<in> set cs. \<exists>x y q r. c = Send (Some ''battery1/coordinate'') (show_int x @ '','' @ show_int y) q r \<and>
        40 \<le> x \<and> x \<le> 140 \<and> 50 \<le> y \<and> y \<le> 75)"

lemma guard_to_ok:
  assumes "cropped s" "420 \<le> x1" "x1 \<le> 1500" "0 \<le> y1" "y1 \<le> 1080"
  shows "\<exists>s' cs. guard_to t x1 y1 x2 y2 s = Some s' \<and> cropped s' \<and>
    calls (mq s') = calls (mq s) @ cs \<and> in_range_orders cs"
proof -
  have inv: "mqtt_inv (mq s)" using assms(1) by (simp add: cropped_def det_inv_def)
  then have sh: "shake_val (mq s) = 5 \<or> shake_val (mq s) = -5" by (auto simp: mqtt_inv_def)
  then have sh': "- shake_val (mq s) = 5 \<or> - shake_val (mq s) = -5" by auto
  obtain x where x: "f2i (guard_x_angle (- shake_val (mq s)) x1) = Some x"
    "61 - shake_val (mq s) \<le> x" "x \<le> 119 - shake_val (mq s)"
    using guard_x_crop_range[OF assms(2,3) sh'] by auto
  obtain y where y: "f2i (guard_y_angle y1) = Some y" "50 \<le> y" "y \<le> 75"
    using guard_y_range[OF assms(4,5)] by auto
  have "40 \<le> x" "x \<le> 140" using x sh by auto
  moreover from this have g: "mqtt_guard_ps_set x1 y1 x2 y2 (mq s) =
      Some (call (Send (Some ''battery1/coordinate'') (show_int x @ '','' @ show_int y)
              (qos (opts (mq s))) (retained (opts (mq s)))) ((mq s)\<lparr>shake_val := - shake_val (mq s)\<rparr>))"
    using y by (intro guard_set_value[OF x(1) _ _ y(1)]) auto
  moreover note mqtt_step_inv[OF mqtt_step.guard[OF g] inv]
  ultimately show ?thesis
    using assms(1) y
    by (cases "guard_due t s") (auto simp: guard_to_def cropped_def det_inv_def call_def in_range_orders_def)
qed

definition draw_inv :: "paho_call list \<Rightarrow> det_state \<times> bool \<times> int \<Rightarrow> bool" where
  "draw_inv cs0 st \<longleftrightarrow> (case st of (s, have_cat, have_target) \<Rightarrow>
     cropped s \<and> (\<exists>cs. calls (mq s) = cs0 @ cs \<and> in_range_orders cs))"

lemma in_range_orders_append [simp]: "in_range_orders (a @ b) \<longleftrightarrow> in_range_orders a \<and> in_range_orders b"
  by (auto simp: in_range_orders_def)

lemma draw_step_ok:
  assumes "draw_inv cs0 st" and "0 \<le> i" "i < int (length res)" and "box_ok (res ! nat i)"
  shows "\<exists>st'. draw_step now res i st = Some st' \<and> draw_inv cs0 st'"
proof -
  obtain s hc ht where st: "st = (s, hc, ht)" by (cases st)
  have inv: "cropped s" "\<exists>cs. calls (mq s) = cs0 @ cs \<and> in_range_orders cs"
    using assms(1) by (auto simp: draw_inv_def st)
  let ?d = "res ! nat i"
  have rd: "rd res i = Some ?d" using assms(2,3) by (simp add: rd_Some)
  obtain x1 y1 where m1: "mapCoordinates s (left (obj_box ?d)) (top (obj_box ?d)) = Some (x1, y1)"
    "420 \<le> x1" "x1 \<le> 1500" "0 \<le> y1" "y1 \<le> 1080"
    using map_crop[OF inv(1)] assms(4) unfolding box_ok_def by metis
  obtain x2 y2 where m2: "mapCoordinates s (right (obj_box ?d)) (bottom (obj_box ?d)) = Some (x2, y2)"
    using map_crop[OF inv(1)] assms(4) unfolding box_ok_def by metis
  let ?s1 = "s\<lparr>sX := x1, sY := y1, eX := x2, eY := y2\<rparr>"
  let ?s2 = "?s1\<lparr>cat_dected := 1, target_s_x := x1, target_e_x := x2\<rparr>"
  have "cropped ?s2" using inv(1) by (simp add: cropped_def det_inv_def)
  from guard_to_ok[OF this m1(2-5), of "now i" x2 y2] obtain s' cs where
    g: "guard_to (now i) x1 y1 x2 y2 ?s2 = Some s'" "cropped s'" "calls (mq s') = calls (mq s) @ cs" "in_range_orders cs"
    by auto
  consider "cls_id ?d \<noteq> 0 \<and> cls_id ?d \<noteq> 15 \<and> cls_id ?d \<noteq> 16" | "cls_id ?d = 15 \<or> cls_id ?d = 16" | "cls_id ?d = 0"
    by blast
  then show ?thesis
  proof cases
    case 1
    then show ?thesis using assms(1) by (simp add: draw_step_def st rd)
  next
    case 2
    then have "draw_step now res i st = Some (s', True, 1)"
      using g(1) by (auto simp: draw_step_def st rd m1(1) m2 Let_def)
    moreover have "draw_inv cs0 (s', True, 1)" using g inv(2) by (auto simp: draw_inv_def)
    ultimately show ?thesis by blast
  next
    case 3
    have "cropped ?s1" "cropped (?s1\<lparr>target_s_x := x1, target_e_x := x2\<rparr>)"
      using inv(1) by (simp_all add: cropped_def det_inv_def)
    then show ?thesis using 3 inv(2) by (auto simp: draw_step_def st rd m1(1) m2 Let_def draw_inv_def)
  qed
qed

lemma choose_region_ok:
  assumes "det_inv s"
  shows "\<exists>s'. choose_region s = Some s' \<and> det_inv s' \<and> mq s' = mq s"
  using assms
  by (auto simp: choose_region_def det_inv_def rd_def pos_x_dect_def pos_mid_dect_def)

lemma draw_result_ok:
  assumes "cropped s" and "count od = int (length (results od))" and "\<forall>d \<in> set (results od). box_ok d"
  shows "\<exists>s' cs. draw_result now od s = Some s' \<and> det_inv s' \<and>
    calls (mq s') = calls (mq s) @ cs \<and> in_range_orders cs"
proof -
  have "draw_inv (calls (mq s)) (s, False, 0)" using assms(1) by (auto simp: draw_inv_def in_range_orders_def)
  then have "\<exists>st. for_up (\<lambda>i st. map_option Nxt (draw_step now (results od) i st)) 0 (count od) (s, False, 0) = Some st \<and>
      draw_inv (calls (mq s)) st"
    by (rule for_each_inv) (use assms draw_step_ok in auto)
  then obtain s1 hc ht where
    l: "for_up (\<lambda>i st. map_option Nxt (draw_step now (results od) i st)) 0 (count od) (s, False, 0) = Some (s1, hc, ht)"
      "draw_inv (calls (mq s)) (s1, hc, ht)"
    by (metis prod_cases3)
  then have "det_inv s1" by (simp add: draw_inv_def cropped_def)
  then obtain s2 where "choose_region s1 = Some s2" "det_inv s2" "mq s2 = mq s1"
    using choose_region_ok by blast
  then show ?thesis using l by (auto simp: draw_result_def draw_inv_def det_inv_def)
qed

section \<open>Running\<close>

text \<open>
  The camera loop and the MQTT thread: frames with any library answers, any clock and any
  detections inside the model input, interleaved with MQTT events.
\<close>

inductive cam_step :: "paho \<Rightarrow> det_state \<Rightarrow> det_state \<Rightarrow> bool" for p where
  frame: "count od = int (length (results od)) \<Longrightarrow> \<forall>d \<in> set (results od). box_ok d \<Longrightarrow>
    frame_step rga now od s = Some (img, s') \<Longrightarrow> cam_step p s s'"
| mqtt: "mqtt_step p (mq s) m \<Longrightarrow> cam_step p s (s\<lparr>mq := m\<rparr>)"

inductive cam_reachable :: "paho \<Rightarrow> det_state \<Rightarrow> bool" for p where
  start: "cam_reachable p (snd (image_hanlde_init 0 0 det_state0))"
| step: "cam_reachable p s \<Longrightarrow> cam_step p s s' \<Longrightarrow> cam_reachable p s'"

lemma frame_step_ok:
  assumes "det_inv s" and "count od = int (length (results od))" and "\<forall>d \<in> set (results od). box_ok d"
  shows "\<exists>img s' cs. frame_step rga now od s = Some (img, s') \<and> det_inv s' \<and>
    calls (mq s') = calls (mq s) @ cs \<and> in_range_orders cs"
proof -
  obtain img s1 where p: "pollingdecetbox rga s = Some (img, s1)" "cropped s1" "mq s1 = mq s"
    using polling_crop[OF assms(1)] by blast
  obtain s2 cs where "draw_result now od s1 = Some s2" "det_inv s2"
    "calls (mq s2) = calls (mq s1) @ cs" "in_range_orders cs"
    using draw_result_ok[OF p(2) assms(2,3)] by blast
  then show ?thesis using p by (simp add: frame_step_def)
qed

lemma cam_step_inv: "cam_step p s s' \<Longrightarrow> det_inv s \<Longrightarrow> det_inv s'"
proof (induction rule: cam_step.induct)
  case (frame od rga now s img s')
  then show ?case using frame_step_ok[OF frame(4) frame(1,2), of rga now] by auto
next
  case (mqtt s m)
  then show ?case using mqtt_step_inv[OF mqtt(1)] by (simp add: det_inv_def)
qed

lemma mqtt0_inv: "mqtt_inv mqtt0"
  by (rule mqtt_reachable_inv[OF mqtt_reachable.start])

lemma cam_reachable_inv: "cam_reachable p s \<Longrightarrow> det_inv s"
  by (induction rule: cam_reachable.induct)
     (auto simp: image_hanlde_init_def det_state0_def det_inv_def mqtt0_inv dest: cam_step_inv)

section \<open>Properties\<close>



text \<open>
  The region chosen from the last detections has no effect: \<open>pollingdecetbox\<close> gives the
  same image and the same state for every region position that passes its assertion.
\<close>

theorem region_ignored:
  assumes "r \<le> 840" and "region_sX s \<le> 840"
  shows "pollingdecetbox rga (s\<lparr>region_sX := r\<rparr>) = pollingdecetbox rga s"
  using assms by (simp add: pollingdecetbox_def Let_def)

theorem region_ignored_witness:
  "pollingdecetbox \<lparr>src_import = 1, dst_import = 2, imresize_rc = 1\<rparr> (det_state0\<lparr>region_sX := 840\<rparr>) =
   pollingdecetbox \<lparr>src_import = 1, dst_import = 2, imresize_rc = 1\<rparr> det_state0"
  by (rule region_ignored) (simp_all add: det_state0_def)

text \<open>
  An RGA resize that fails leaks both imported buffers: after such a frame two more handles
  are open than before, while a frame that succeeds leaves their number unchanged.
\<close>

theorem failed_resize_leaks:
  assumes "cam_reachable p s" and "src_import rga \<noteq> 0" and "dst_import rga \<noteq> 0"
  shows "\<exists>img s'. pollingdecetbox rga s = Some (img, s') \<and>
    handles s' = handles s + (if imresize_rc rga = 1 then 0 else 2)"
proof -
  have inv: "det_inv s" by (rule cam_reachable_inv[OF assms(1)])
  then have "pollingdecetbox rga s = letterbox rga 1080 1080 (s\<lparr>region_sX := 420\<rparr>)"
    by (auto simp: pollingdecetbox_def Let_def det_inv_def RAW_IMAGE_WIDTH_def RAW_IMAGE_HEIGHT_def)
  then show ?thesis using inv assms(2,3) by (simp add: letterbox_eq det_inv_def Let_def)
qed

theorem failed_resize_leaks_witness:
  "\<exists>img s'. pollingdecetbox \<lparr>src_import = 1, dst_import = 2, imresize_rc = 0\<rparr>
      (snd (image_hanlde_init 0 0 det_state0)) = Some (img, s') \<and>
    handles s' = handles (snd (image_hanlde_init 0 0 det_state0)) +
      (if imresize_rc \<lparr>src_import = 1, dst_import = 2, imresize_rc = 0\<rparr> = 1 then 0 else 2)"
  by (rule failed_resize_leaks[OF cam_reachable.start]) simp_all

text \<open>
  The throttle of the turret commands compares only the microsecond parts of two times, modulo
  2^32: with the switch on, a command is due exactly when at least 0.3 s of the same second have
  passed or when the microsecond part is smaller than at the last command, so a command just after
  the turn of a second is never held back.
\<close>

theorem throttle_exact:
  assumes "0 \<le> now" "now < 1000000" and "0 \<le> before" "before < 1000000"
    and "usecond_le s = word_of_int before" and "Get_TeasingSW (mq s) \<noteq> 0"
  shows "guard_due now s \<longleftrightarrow> before + 300000 \<le> now \<or> now < before"
proof -
  have "uint (word_of_int now - word_of_int before :: 32 word) = (now - before) mod 4294967296"
    by (simp add: uint_word_arith_bintrs take_bit_eq_mod uint_word_of_int mod_diff_eq)
  moreover have "(now - before) mod 4294967296 = (if before \<le> now then now - before else now - before + 4294967296)"
  proof (cases "before \<le> now")
    case False
    have "(now - before) mod 4294967296 = (now - before + 4294967296) mod 4294967296" by simp
    also have "\<dots> = now - before + 4294967296" using False assms by (intro mod_pos_pos_trivial) auto
    finally show ?thesis using False by simp
  qed (use assms in simp)
  ultimately show ?thesis using assms(1-4,6) by (auto simp: guard_due_def assms(5) word_le_def)
qed

theorem throttle_exact_witness:
  "guard_due 10 (det_state0\<lparr>usecond_le := word_of_int 999990\<rparr>) \<longleftrightarrow> 999990 + 300000 \<le> (10::int) \<or> 10 < (999990::int)"
  by (rule throttle_exact) (simp_all add: Get_TeasingSW_def det_state0_def mqtt0_def)

text \<open>
  The next region follows the middle of the target: left, centre or right third for a middle
  left of 750, left of 1170, or beyond; without a target the polling position moves on cyclically.
\<close>

theorem region_choice:
  assumes "0 \<le> target_s_x s" and "target_s_x s \<le> target_e_x s" and "target_e_x s < 2147483648"
    and "0 \<le> pollingarea s" "pollingarea s \<le> 2" "pollingareacnt s = 3"
  shows "choose_region s = Some (if target_have s = 0
      then s\<lparr>region_sX := 420 * pollingarea s, pollingarea := (pollingarea s + 1) mod 3\<rparr>
      else (let mid = (target_s_x s + target_e_x s) div 2
            in s\<lparr>region_sX := if mid < 750 then 0 else if mid < 1170 then 420 else 840\<rparr>))"
proof -
  have e: "(target_e_x s - target_s_x s) div 2 + target_s_x s = (target_s_x s + target_e_x s) div 2"
    by (simp add: div_add_self2[symmetric] algebra_simps flip: div_mult_self1)
  have m: "mid_pos s = (target_s_x s + target_e_x s) div 2"
    using assms(1-3) by (simp add: mid_pos_def e)
  have "pollingarea s = 0 \<or> pollingarea s = 1 \<or> pollingarea s = 2" using assms(4,5) by auto
  then show ?thesis
    using assms(6) by (auto simp: choose_region_def m rd_def pos_x_dect_def pos_mid_dect_def Let_def)
qed

theorem region_choice_witness:
  "choose_region (det_state0\<lparr>target_have := 1, target_s_x := 1100, target_e_x := 1300\<rparr>) =
    Some (if target_have (det_state0\<lparr>target_have := 1, target_s_x := 1100, target_e_x := 1300\<rparr>) = 0
      then (det_state0\<lparr>target_have := 1, target_s_x := 1100, target_e_x := 1300\<rparr>)
        \<lparr>region_sX := 420 * pollingarea (det_state0\<lparr>target_have := 1, target_s_x := 1100, target_e_x := 1300\<rparr>),
         pollingarea := (pollingarea (det_state0\<lparr>target_have := 1, target_s_x := 1100, target_e_x := 1300\<rparr>) + 1) mod 3\<rparr>
      else (let mid = (target_s_x (det_state0\<lparr>target_have := 1, target_s_x := 1100, target_e_x := 1300\<rparr>) +
                       target_e_x (det_state0\<lparr>target_have := 1, target_s_x := 1100, target_e_x := 1300\<rparr>)) div 2
            in (det_state0\<lparr>target_have := 1, target_s_x := 1100, target_e_x := 1300\<rparr>)
              \<lparr>region_sX := if mid < 750 then 0 else if mid < 1170 then 420 else 840\<rparr>))"
  by (rule region_choice) (simp_all add: det_state0_def)

end
