(* ===== verification/Dma_Alloc.thy ===== *)
theory Dma_Alloc
  imports Image_Handle
begin

text \<open>
  \<^verbatim>\<open>3rdparty/allocator/dma/dma_alloc.cpp\<close> and its use in \<^verbatim>\<open>src/image_handle.cc\<close>: the buffers the RGA
  copies from and to.  The kernel is a parameter that answers from the process state, which is the
  open descriptors and the mapped ranges.
\<close>

section \<open>State\<close>

record process =
  fds :: "int multiset"
  maps :: "(int \<times> int) multiset"

text \<open>
  \<open>k_open\<close> gives a descriptor or a negative number, \<open>k_alloc\<close> the result of the allocation request
  and the descriptor it stored, \<open>k_mmap\<close> an address or \<open>None\<close> for \<open>MAP_FAILED\<close>, with \<open>k_errno\<close>.
\<close>

record dma_kernel =
  k_open :: "process \<Rightarrow> string \<Rightarrow> int"
  k_alloc :: "process \<Rightarrow> int \<Rightarrow> int \<Rightarrow> int \<times> int"
  k_mmap :: "process \<Rightarrow> int \<Rightarrow> int \<Rightarrow> int option"
  k_errno :: "process \<Rightarrow> int"
  k_sync :: "int \<Rightarrow> nat \<Rightarrow> int"

text \<open>The two output parameters: descriptor and address, null and -1 before the first allocation.\<close>

record dma_buf =
  buf_fd :: int
  buf_va :: int

section \<open>The code\<close>

definition DMA_BUF_SYNC_RW :: nat where "DMA_BUF_SYNC_RW = 3"
definition DMA_BUF_SYNC_START :: nat where "DMA_BUF_SYNC_START = 0"
definition DMA_BUF_SYNC_END :: nat where "DMA_BUF_SYNC_END = 4"

definition dma_sync_device_to_cpu :: "dma_kernel \<Rightarrow> int \<Rightarrow> int" where
  "dma_sync_device_to_cpu k fd = k_sync k fd (DMA_BUF_SYNC_START + DMA_BUF_SYNC_RW)"

definition dma_sync_cpu_to_device :: "dma_kernel \<Rightarrow> int \<Rightarrow> int" where
  "dma_sync_cpu_to_device k fd = k_sync k fd (DMA_BUF_SYNC_END + DMA_BUF_SYNC_RW)"

definition dma_buf_alloc ::
    "dma_kernel \<Rightarrow> string \<Rightarrow> int \<Rightarrow> dma_buf \<Rightarrow> process \<Rightarrow> int \<times> dma_buf \<times> process" where
  "dma_buf_alloc k path n buf st =
     (let heap_fd = k_open k st path
      in if heap_fd < 0 then (heap_fd, buf, st)
         else
           let st = st\<lparr>fds := add_mset heap_fd (fds st)\<rparr>; (ret, fd) = k_alloc k st heap_fd n
           in if ret < 0 then (ret, buf, st)
              else
                let st = st\<lparr>fds := add_mset fd (fds st)\<rparr>
                in case k_mmap k st fd n of
                     None \<Rightarrow> (- k_errno k st, buf, st)
                   | Some va \<Rightarrow>
                       (0, \<lparr>buf_fd = fd, buf_va = va\<rparr>,
                        st\<lparr>maps := add_mset (va, n) (maps st), fds := fds st - {#heap_fd#}\<rparr>))"

definition dma_buf_free :: "int \<Rightarrow> dma_buf \<Rightarrow> process \<Rightarrow> dma_buf \<times> process" where
  "dma_buf_free n buf st =
     (buf\<lparr>buf_fd := -1\<rparr>, st\<lparr>maps := maps st - {#(buf_va buf, n)#}, fds := fds st - {#buf_fd buf#}\<rparr>)"

definition RV1106_CMA_HEAP_PATH :: string where
  "RV1106_CMA_HEAP_PATH = ''/dev/rk_dma_heap/rk-dma-heap-cma''"

text \<open>
  The allocations of \<open>image_hanlde_init\<close>, in its order: the results of the two calls (the second is 0
  when it is not reached), the two buffers, and the process.
\<close>

record image_buffers =
  src_dma :: dma_buf
  dst_dma :: dma_buf

definition alloc_image_buffers ::
    "dma_kernel \<Rightarrow> det_state \<Rightarrow> image_buffers \<Rightarrow> process \<Rightarrow> int \<times> int \<times> image_buffers \<times> process" where
  "alloc_image_buffers k s b st =
     (let src_n = srol_width s * srol_height s * rgb888_bpp; dst_n = model_w s * model_h s * rgb888_bpp;
          (ret, sb, st) = dma_buf_alloc k RV1106_CMA_HEAP_PATH src_n (src_dma b) st
      in if ret < 0 then (ret, 0, b\<lparr>src_dma := sb\<rparr>, st)
         else
           let (ret', db, st) = dma_buf_alloc k RV1106_CMA_HEAP_PATH dst_n (dst_dma b) st
           in if ret' < 0 then
                let (sb, st) = dma_buf_free src_n sb st in (ret, ret', \<lparr>src_dma = sb, dst_dma = db\<rparr>, st)
              else (ret, ret', \<lparr>src_dma = sb, dst_dma = db\<rparr>, st))"

definition init_images :: "dma_kernel \<Rightarrow> det_state \<Rightarrow> image_buffers \<Rightarrow> process \<Rightarrow>
    int option \<times> det_state \<times> image_buffers \<times> process" where
  "init_images k s b st =
     (case alloc_image_buffers k s b st of (r1, r2, b, st) \<Rightarrow>
        (case image_hanlde_init r1 r2 s of (ret, s) \<Rightarrow> (ret, s, b, st)))"

text \<open>
  \<open>image_hanle_free\<close>: the handles are released when they are not 0, and the buffers are passed to
  \<open>free\<close>; \<open>heap\<close> is the addresses \<open>malloc\<close> gave.
\<close>

definition image_hanle_free :: "int \<Rightarrow> int \<Rightarrow> image_buffers \<Rightarrow> int list \<Rightarrow> (int list \<times> int list) option" where
  "image_hanle_free src_handle dst_handle b heap =
     do {
       let released = (if src_handle \<noteq> 0 then [src_handle] else []) @ (if dst_handle \<noteq> 0 then [dst_handle] else []);
       heap \<leftarrow> c_free (buf_va (src_dma b)) heap;
       heap \<leftarrow> c_free (buf_va (dst_dma b)) heap;
       Some (released, heap)
     }"

section \<open>Accounting\<close>

text \<open>The four ways an allocation can end, and what each leaves behind.\<close>

lemma dma_buf_alloc_cases:
  obtains (no_heap) "k_open k st path < 0" "dma_buf_alloc k path n buf st = (k_open k st path, buf, st)"
    | (no_memory) h ret where "h = k_open k st path" "0 \<le> h" "ret < 0"
        "dma_buf_alloc k path n buf st = (ret, buf, st\<lparr>fds := add_mset h (fds st)\<rparr>)"
    | (no_map) h fd e where "h = k_open k st path" "0 \<le> h"
        "dma_buf_alloc k path n buf st = (- e, buf, st\<lparr>fds := add_mset fd (add_mset h (fds st))\<rparr>)"
    | (mapped) fd va where "0 \<le> k_open k st path"
        "dma_buf_alloc k path n buf st =
           (0, \<lparr>buf_fd = fd, buf_va = va\<rparr>, st\<lparr>fds := add_mset fd (fds st), maps := add_mset (va, n) (maps st)\<rparr>)"
proof -
  define h where "h = k_open k st path"
  obtain ret fd where a: "k_alloc k (st\<lparr>fds := add_mset h (fds st)\<rparr>) h n = (ret, fd)" by fastforce
  let ?st = "st\<lparr>fds := add_mset fd (add_mset h (fds st))\<rparr>"
  note eq = dma_buf_alloc_def h_def[symmetric] a Let_def
  consider "h < 0" | "0 \<le> h" "ret < 0" | "0 \<le> h" "0 \<le> ret" "k_mmap k ?st fd n = None"
    | va where "0 \<le> h" "0 \<le> ret" "k_mmap k ?st fd n = Some va" by (cases "k_mmap k ?st fd n") fastforce+
  then show ?thesis
  proof cases
    case 1
    then show ?thesis using no_heap by (simp add: eq)
  next
    case 2
    then show ?thesis using no_memory[of h ret] by (simp add: eq)
  next
    case 3
    then show ?thesis using no_map[of h "k_errno k ?st" fd] by (simp add: eq)
  next
    case 4
    then show ?thesis using mapped[of fd va] by (simp add: eq add_mset_commute)
  qed
qed

text \<open>
  What an allocation adds: the buffer's descriptor and mapping on success; on failure no mapping, but
  the heap's descriptor when the request fails, and the buffer's too when the mapping fails.
\<close>

lemma dma_buf_alloc_ok:
  assumes "dma_buf_alloc k path n buf st = (ret, buf', st')" and "\<And>st. 0 < k_errno k st" and "\<not> ret < 0"
  shows "ret = 0 \<and> st' = st\<lparr>fds := add_mset (buf_fd buf') (fds st), maps := add_mset (buf_va buf', n) (maps st)\<rparr>"
proof -
  have "k_errno k x \<noteq> 0" and "\<not> k_errno k x \<le> 0" for x using assms(2)[of x] by simp_all
  then show ?thesis
    using assms(1,3)
    by (auto simp: dma_buf_alloc_def Let_def not_less add_mset_commute split: prod.splits option.splits if_splits)
qed

lemma dma_buf_alloc_failed:
  assumes "dma_buf_alloc k path n buf st = (ret, buf', st')" and "ret < 0"
  shows "buf' = buf \<and> maps st' = maps st \<and> (\<exists>leaked. fds st' = fds st + leaked \<and> size leaked \<le> 2)"
proof (cases rule: dma_buf_alloc_cases[of k st path n buf])
  case no_heap
  then show ?thesis using assms by simp
next
  case (no_memory h r)
  then show ?thesis using assms by (auto intro!: exI[of _ "{#h#}"])
next
  case (no_map h fd e)
  then show ?thesis using assms by (auto intro!: exI[of _ "{#fd, h#}"])
next
  case mapped
  then show ?thesis using assms by simp
qed

text \<open>An allocation that succeeded is undone by \<open>dma_buf_free\<close>.\<close>

lemma dma_alloc_free:
  assumes "dma_buf_alloc k path n buf st = (ret, buf', st')" and "\<And>st. 0 < k_errno k st" and "\<not> ret < 0"
  shows "dma_buf_free n buf' st' = (buf'\<lparr>buf_fd := -1\<rparr>, st)"
  using dma_buf_alloc_ok[OF assms] by (simp add: dma_buf_free_def)

text \<open>
  \<open>image_hanle_free\<close> gives the mapped address to \<open>free\<close>: undefined once the buffers were allocated,
  since no mapping starts where \<open>malloc\<close> put a block, and null is no mapping.
\<close>

lemma image_free_undefined:
  assumes "buf_va (src_dma b) \<noteq> 0" and "buf_va (src_dma b) \<notin> set heap"
  shows "image_hanle_free h1 h2 b heap = None"
  using assms by (simp add: image_hanle_free_def c_free_dead)

text \<open>The failed requests, exactly.\<close>

lemma dma_failure_leaks:
  assumes "k_open k st path = h" "0 \<le> h" "k_alloc k (st\<lparr>fds := add_mset h (fds st)\<rparr>) h n = (ret, fd)"
  shows "ret < 0 \<Longrightarrow> dma_buf_alloc k path n buf st = (ret, buf, st\<lparr>fds := add_mset h (fds st)\<rparr>)"
    and "0 \<le> ret \<Longrightarrow> k_mmap k (st\<lparr>fds := add_mset fd (add_mset h (fds st))\<rparr>) fd n = None \<Longrightarrow>
      fds (snd (snd (dma_buf_alloc k path n buf st))) = fds st + {#fd, h#}"
  using assms by (simp_all add: dma_buf_alloc_def Let_def)

text \<open>
  C15.  The two allocations of \<open>image_hanlde_init\<close>.  When both succeed, the process holds exactly two
  descriptors and two mappings more, those of the two buffers, of the sizes of the camera's and the
  model's image.  When one fails, no mapping is left, the first buffer being freed if the second could
  not be had; but up to two descriptors stay open, those the failed allocation had and did not close.
\<close>

theorem image_buffers_accounted:
  assumes errno: "\<And>st. 0 < k_errno k st" and alloc: "alloc_image_buffers k s b st = (r1, r2, b', st')"
  shows "if r1 < 0 \<or> r2 < 0
         then maps st' = maps st \<and> (\<exists>leaked. fds st' = fds st + leaked \<and> size leaked \<le> 2)
         else r1 = 0 \<and> r2 = 0 \<and>
           fds st' = fds st + {#buf_fd (src_dma b'), buf_fd (dst_dma b')#} \<and>
           maps st' = maps st + {#(buf_va (src_dma b'), srol_width s * srol_height s * rgb888_bpp),
                                  (buf_va (dst_dma b'), model_w s * model_h s * rgb888_bpp)#}"
proof -
  obtain ra sb st1 where a: "dma_buf_alloc k RV1106_CMA_HEAP_PATH (srol_width s * srol_height s * rgb888_bpp) (src_dma b) st = (ra, sb, st1)"
    by (metis prod_cases3)
  obtain rb db st2 where b: "dma_buf_alloc k RV1106_CMA_HEAP_PATH (model_w s * model_h s * rgb888_bpp) (dst_dma b) st1 = (rb, db, st2)"
    by (metis prod_cases3)
  note eq = alloc[unfolded alloc_image_buffers_def Let_def a, simplified, unfolded b, simplified]
  consider "ra < 0" | "\<not> ra < 0" "rb < 0" | "\<not> ra < 0" "\<not> rb < 0" by blast
  then show ?thesis
  proof cases
    case 1
    then show ?thesis using eq dma_buf_alloc_failed[OF a] by auto
  next
    case 2
    note ok = dma_buf_alloc_ok[OF a errno 2(1)] and bad = dma_buf_alloc_failed[OF b 2(2)]
    then obtain leaked where "fds st2 = fds st1 + leaked" "size leaked \<le> 2" "maps st2 = maps st1" by blast
    then show ?thesis using eq 2 ok by (auto simp: dma_buf_free_def)
  next
    case 3
    then show ?thesis
      using eq dma_buf_alloc_ok[OF a errno 3(1)] dma_buf_alloc_ok[OF b errno 3(2)]
      by (auto simp: add_mset_commute)
  qed
qed

definition sample_kernel :: dma_kernel where
  "sample_kernel = \<lparr>k_open = \<lambda>st _. int (size (fds st)) + 3, k_alloc = \<lambda>st _ _. (if maps st = {#} then 0 else -1, int (size (fds st)) + 3),
     k_mmap = \<lambda>st fd n. Some (4096 * fd), k_errno = \<lambda>_. 12, k_sync = \<lambda>_ _. 0\<rparr>"

lemma image_buffers_accounted_witness:
  "\<exists>r1 r2 b' st'. alloc_image_buffers sample_kernel (snd (image_hanlde_init 0 0 det_state0))
       \<lparr>src_dma = \<lparr>buf_fd = -1, buf_va = 0\<rparr>, dst_dma = \<lparr>buf_fd = -1, buf_va = 0\<rparr>\<rparr>
       \<lparr>fds = {#}, maps = {#}\<rparr> = (r1, r2, b', st') \<and> maps st' = {#}"
proof -
  obtain r1 r2 b' st' where eq: "alloc_image_buffers sample_kernel (snd (image_hanlde_init 0 0 det_state0))
       \<lparr>src_dma = \<lparr>buf_fd = -1, buf_va = 0\<rparr>, dst_dma = \<lparr>buf_fd = -1, buf_va = 0\<rparr>\<rparr>
       \<lparr>fds = {#}, maps = {#}\<rparr> = (r1, r2, b', st')" by (metis prod_cases4)
  have "r2 < 0"
    using eq by (simp add: alloc_image_buffers_def dma_buf_alloc_def sample_kernel_def image_hanlde_init_def
      det_state0_def rgb888_bpp_def dma_buf_free_def)
  then show ?thesis
    using image_buffers_accounted[OF _ eq] eq by (simp add: sample_kernel_def)
qed

end
