(* ===== verification/Camera_Main.thy ===== *)
theory Camera_Main
  imports Yolov5 Labels Dma_Alloc "HOL-Library.State_Monad"
begin

text \<open>
  \<^verbatim>\<open>src/rtsp_opencv.cc\<close>: the start-up of the program and one turn of its loops, in the build the
  repository configures (\<open>RTSP_ON\<close> is 0 and \<open>USE_ASYNC_RKNN\<close> is 1).  The media library is a parameter
  \<open>mpp\<close> that answers each call from the history of all calls before it; the state monad carries that
  history.  The other libraries' answers are parameters too, as in the theories of their callers.
\<close>

unbundle bit_operations_syntax

section \<open>The media library\<close>

text \<open>One constructor per call, with the arguments the code computes.\<close>

datatype mpp_call =
    ISP_Init int | ISP_Run int | SYS_Init
  | VI_GetDevAttr int | VI_SetDevAttr int | VI_GetDevIsEnable int | VI_EnableDev int
  | VI_SetDevBindPipe int int int
  | VI_SetChnAttr int int int int | VI_EnableChn int int
  | VPSS_CreateGrp int | VPSS_SetChnAttr int int int int | VPSS_EnableChn int int | VPSS_StartGrp int
  | SYS_Bind
  | VENC_CreateChn int int int int | VENC_StartRecvFrame int int
  | Thread_create
  | VPSS_GetChnFrame int int | VPSS_ReleaseChnFrame int int
  | VENC_GetStream int | VENC_ReleaseStream int
  | RTSP_tx_video | RTSP_do_event
  | SYS_UnBind | VI_DisableChn int int | VI_DisableDev int | VPSS_StopGrp int | VPSS_DestroyGrp int
  | VENC_StopRecvFrame int | VENC_DestroyChn int
  | RTSP_del_demo | ISP_Stop int | SYS_Exit | Thread_join

type_synonym mpp_log = "(mpp_call \<times> int) list"

type_synonym mpp = "mpp_log \<Rightarrow> mpp_call \<Rightarrow> int"

type_synonym 'a mpi = "(mpp_log, 'a) state"

definition mpi :: "mpp \<Rightarrow> mpp_call \<Rightarrow> int mpi" where
  "mpi lib c = State (\<lambda>tr. (lib tr c, tr @ [(c, lib tr c)]))"

lemma run_mpi [simp]: "run_state (mpi lib c) tr = (lib tr c, tr @ [(c, lib tr c)])"
  by (simp add: mpi_def)

section \<open>Video input, scaler and encoder\<close>

text \<open>\<open>VI_NOT_CONFIG\<close> is \<open>RK_ERR_VI_NOT_CONFIG\<close>, whose value the media library defines.\<close>

definition vi_dev_init :: "mpp \<Rightarrow> int \<Rightarrow> int mpi" where
  "vi_dev_init lib VI_NOT_CONFIG = do {
     ret \<leftarrow> mpi lib (VI_GetDevAttr 0);
     ret \<leftarrow> (if ret = VI_NOT_CONFIG then mpi lib (VI_SetDevAttr 0) else State_Monad.return 0);
     if ret \<noteq> 0 then State_Monad.return (-1)
     else do {
       ret \<leftarrow> mpi lib (VI_GetDevIsEnable 0);
       if ret \<noteq> 0 then do {
         ret \<leftarrow> mpi lib (VI_EnableDev 0);
         if ret \<noteq> 0 then State_Monad.return (-1)
         else do {
           ret \<leftarrow> mpi lib (VI_SetDevBindPipe 0 0 0);
           if ret \<noteq> 0 then State_Monad.return (-1) else State_Monad.return 0
         }
       }
       else State_Monad.return 0
     }
   }"

definition vi_chn_init :: "mpp \<Rightarrow> int \<Rightarrow> int \<Rightarrow> int \<Rightarrow> int mpi" where
  "vi_chn_init lib channelId w h = do {
     ret1 \<leftarrow> mpi lib (VI_SetChnAttr 0 channelId w h);
     ret2 \<leftarrow> mpi lib (VI_EnableChn 0 channelId);
     State_Monad.return (ret1 OR ret2)
   }"

definition dm_vpss_init :: "mpp \<Rightarrow> int \<Rightarrow> int \<Rightarrow> int \<Rightarrow> int mpi" where
  "dm_vpss_init lib VpssChn w h = do {
     s32Ret \<leftarrow> mpi lib (VPSS_CreateGrp 0);
     if s32Ret \<noteq> 0 then State_Monad.return s32Ret
     else do {
       s32Ret \<leftarrow> mpi lib (VPSS_SetChnAttr 0 VpssChn w h);
       if s32Ret \<noteq> 0 then State_Monad.return s32Ret
       else do {
         s32Ret \<leftarrow> mpi lib (VPSS_EnableChn 0 VpssChn);
         if s32Ret \<noteq> 0 then State_Monad.return s32Ret
         else mpi lib (VPSS_StartGrp 0)
       }
     }
   }"

text \<open>The buffer size is the one of a YUV420 frame, although the encoder is fed RGB888.\<close>

definition dm_venc_init :: "mpp \<Rightarrow> int \<Rightarrow> int \<Rightarrow> int \<Rightarrow> int mpi" where
  "dm_venc_init lib chnId w h = do {
     _ \<leftarrow> mpi lib (VENC_CreateChn chnId w h (w * h * 3 sdiv 2));
     _ \<leftarrow> mpi lib (VENC_StartRecvFrame chnId (-1));
     State_Monad.return 0
   }"

section \<open>Start-up\<close>

text \<open>What \<open>main\<close> is given: every library it starts, the file system and the allocator.\<close>

record platform =
  media :: mpp
  not_config :: int
  npu_lib :: rknn_lib
  mqtt_lib :: paho
  alloc_ok :: "nat \<Rightarrow> bool"
  disk :: file_system
  kernel :: dma_kernel

text \<open>The globals of the program.\<close>

record machine =
  trace :: mpp_log
  app_ctx :: app_context
  npu_st :: npu
  labels :: "byte list option list"
  det :: det_state
  bufs :: image_buffers
  proc :: process

text \<open>\<open>main\<close> returned, a library call left the process, or the loop is entered.\<close>

datatype boot = Exited int machine | Looping machine

definition on_log :: "'a mpi \<Rightarrow> machine \<Rightarrow> 'a \<times> machine" where
  "on_log m s = (case run_state m (trace s) of (a, l) \<Rightarrow> (a, s\<lparr>trace := l\<rparr>))"

text \<open>The part of \<open>main\<close> up to the binding of the scaler, and the rest up to the loop.\<close>

definition start_video :: "platform \<Rightarrow> machine \<Rightarrow> int \<times> machine" where
  "start_video p s =
     (let (ret, s) = on_log (do { _ \<leftarrow> mpi (media p) (ISP_Init 0); _ \<leftarrow> mpi (media p) (ISP_Run 0); mpi (media p) SYS_Init }) s
      in if ret \<noteq> 0 then (-1, s)
         else
           let (ret, s) = on_log (do {
                 _ \<leftarrow> vi_dev_init (media p) (not_config p);
                 _ \<leftarrow> vi_chn_init (media p) 0 RAW_IMAGE_WIDTH RAW_IMAGE_HEIGHT;
                 _ \<leftarrow> dm_vpss_init (media p) 0 RAW_IMAGE_WIDTH RAW_IMAGE_HEIGHT;
                 mpi (media p) SYS_Bind }) s
           in if ret \<noteq> 0 then (-1, s)
              else (0, snd (on_log (dm_venc_init (media p) 0 RAW_IMAGE_WIDTH RAW_IMAGE_HEIGHT) s)))"

definition start_services :: "platform \<Rightarrow> machine \<Rightarrow> boot" where
  "start_services p s =
     (case mqtt_init (mqtt_lib p) (mq (det s)) of
        Exits c m \<Rightarrow> Exited c (s\<lparr>det := (det s)\<lparr>mq := m\<rparr>\<rparr>)
      | Returns _ m \<Rightarrow>
          (case mqttsub_init (mqtt_lib p) m of
             Exits c m \<Rightarrow> Exited c (s\<lparr>det := (det s)\<lparr>mq := m\<rparr>\<rparr>)
           | Returns _ m \<Rightarrow>
               let s = s\<lparr>det := (det s)\<lparr>mq := m\<rparr>\<rparr>;
                   (_, s) = on_log (mpi (media p) Thread_create) s;
                   (_, d, b, pr) = init_images (kernel p) (det s) (bufs s) (proc s)
               in Looping (s\<lparr>det := d, bufs := b, proc := pr\<rparr>)))"

definition main_init :: "platform \<Rightarrow> machine \<Rightarrow> boot option" where
  "main_init p s =
     do {
       (_, app, st) \<leftarrow> init_yolov5_model (npu_lib p) ''./model/yolov5.rknn'' zero_context (npu_st s);
       (_, names) \<leftarrow> init_post_process (alloc_ok p) (disk p) (labels s);
       let (ret, s) = start_video p (s\<lparr>app_ctx := app, npu_st := st, labels := names\<rparr>);
       Some (if ret \<noteq> 0 then Exited (-1) s else start_services p s)
     }"

section \<open>The loops\<close>

text \<open>
  One turn of the camera loop; \<open>od\<close> is the result the mailbox hands out for the frame.  The frame is
  released whether or not it was acquired.
\<close>

definition camera_turn ::
    "mpp \<Rightarrow> rga_run \<Rightarrow> (int \<Rightarrow> int) \<Rightarrow> object_detect_result_list \<Rightarrow> machine \<Rightarrow> machine option" where
  "camera_turn lib rga now od s =
     (let (ret, s) = on_log (mpi lib (VPSS_GetChnFrame 0 0)) s
      in do {
        d \<leftarrow> (if ret = 0 then map_option snd (frame_step rga now od (det s)) else Some (det s));
        let (_, s) = on_log (mpi lib (VPSS_ReleaseChnFrame 0 0)) (s\<lparr>det := d\<rparr>);
        Some s
      })"

text \<open>
  One turn of \<open>rknn_thread\<close> after it has taken a frame: the pixels are copied to the first input
  buffer, which must exist, and the answer of the run for this frame (\<open>tensors\<close>) is decoded.
\<close>

definition thread_infer ::
    "rknn_lib \<Rightarrow> app_context \<Rightarrow> ('f \<Rightarrow> int \<times> int list list) \<Rightarrow> 'f \<Rightarrow> object_detect_result_list \<Rightarrow>
     (int \<times> object_detect_result_list) option" where
  "thread_infer lib app tensors frame od =
     do {
       mem \<leftarrow> rd (input_mems app) 0;
       if mem = 0 then None else inference_yolov5_model (lib\<lparr>lib_run := \<lambda>_. tensors frame\<rparr>) app od
     }"

text \<open>One turn of \<open>rkipc_get_venc_0\<close>; \<open>live\<close> says that both RTSP handles exist.\<close>

definition stream_turn :: "mpp \<Rightarrow> bool \<Rightarrow> unit mpi" where
  "stream_turn lib live = do {
     ret \<leftarrow> mpi lib (VENC_GetStream 0);
     _ \<leftarrow> (if ret = 0 \<and> live then do { _ \<leftarrow> mpi lib RTSP_tx_video; mpi lib RTSP_do_event } else State_Monad.return 0);
     _ \<leftarrow> mpi lib (VENC_ReleaseStream 0);
     State_Monad.return ()
   }"

text \<open>
  What \<open>main\<close> has after its endless loop.  \<open>live\<close> says that an RTSP server exists, \<open>h1\<close> and \<open>h2\<close> are
  the last RGA handles and \<open>heap\<close> the blocks of the allocator.
\<close>

definition main_clean_up :: "platform \<Rightarrow> bool \<Rightarrow> int \<Rightarrow> int \<Rightarrow> int list \<Rightarrow> machine \<Rightarrow> (int \<times> machine) option" where
  "main_clean_up p live h1 h2 heap s =
     do {
       let (_, s) = on_log (do {
             _ \<leftarrow> mpi (media p) SYS_UnBind;
             _ \<leftarrow> mpi (media p) (VI_DisableChn 0 0);
             _ \<leftarrow> mpi (media p) (VI_DisableDev 0);
             _ \<leftarrow> mpi (media p) (VPSS_StopGrp 0);
             _ \<leftarrow> mpi (media p) (VPSS_DestroyGrp 0);
             _ \<leftarrow> mpi (media p) (VENC_StopRecvFrame 0);
             mpi (media p) (VENC_DestroyChn 0) }) s;
       _ \<leftarrow> image_hanle_free h1 h2 (bufs s) heap;
       let (_, s) = on_log (do {
             _ \<leftarrow> (if live then mpi (media p) RTSP_del_demo else State_Monad.return 0);
             _ \<leftarrow> mpi (media p) (ISP_Stop 0);
             mpi (media p) SYS_Exit }) s;
       (_, app, st) \<leftarrow> release_yolov5_model (npu_lib p) (app_ctx s) (npu_st s);
       names \<leftarrow> deinit_post_process (labels s);
       let (_, s) = on_log (mpi (media p) Thread_join) (s\<lparr>app_ctx := app, npu_st := st, labels := names\<rparr>);
       Some (0, s)
     }"

section \<open>What start-up decides\<close>

definition critical :: "mpp_call \<Rightarrow> bool" where
  "critical c \<longleftrightarrow> c = SYS_Init \<or> c = SYS_Bind"

text \<open>The calls of a computation extend the history, and none of them is critical.\<close>

definition harmless :: "'a mpi \<Rightarrow> bool" where
  "harmless m \<longleftrightarrow> (\<forall>tr. \<exists>more. snd (run_state m tr) = tr @ more \<and> (\<forall>(c, r) \<in> set more. \<not> critical c))"

lemma harmless_return [intro, simp]: "harmless (State_Monad.return x)"
  by (simp add: harmless_def)

lemma harmless_mpi [intro]: "\<not> critical c \<Longrightarrow> harmless (mpi lib c)"
  by (auto simp: harmless_def)

lemma harmless_bind [intro]:
  assumes "harmless m" and "\<And>x. harmless (f x)"
  shows "harmless (m \<bind> f)"
  unfolding harmless_def
proof
  fix tr
  obtain x tr' where m: "run_state m tr = (x, tr')" by fastforce
  obtain more where "tr' = tr @ more" "\<forall>(c, r) \<in> set more. \<not> critical c"
    using assms(1) m unfolding harmless_def by (metis snd_conv)
  moreover obtain more' where "snd (run_state (f x) tr') = tr' @ more'" "\<forall>(c, r) \<in> set more'. \<not> critical c"
    using assms(2) unfolding harmless_def by metis
  ultimately show "\<exists>more. snd (run_state (m \<bind> f) tr) = tr @ more \<and> (\<forall>(c, r) \<in> set more. \<not> critical c)"
    using m by (intro exI[of _ "more @ more'"]) auto
qed

lemma harmless_if [intro]: "(b \<Longrightarrow> harmless m) \<Longrightarrow> (\<not> b \<Longrightarrow> harmless n) \<Longrightarrow> harmless (if b then m else n)"
  by simp

lemma device_calls_harmless:
  "harmless (vi_dev_init lib c)" "harmless (vi_chn_init lib ch w h)" "harmless (dm_vpss_init lib ch w h)"
  "harmless (dm_venc_init lib ch w h)"
  unfolding vi_dev_init_def vi_chn_init_def dm_vpss_init_def dm_venc_init_def
  by (auto simp: critical_def intro!: harmless_bind harmless_if harmless_mpi)

text \<open>A harmless prefix does not decide what a critical call after it answers or how it is logged.\<close>

lemma harmless_run:
  assumes "harmless m"
  obtains x more where "run_state m tr = (x, tr @ more)" "\<forall>(c, r) \<in> set more. \<not> critical c"
  using assms unfolding harmless_def by (metis prod.collapse)

definition all_critical_ok :: "mpp_log \<Rightarrow> bool" where
  "all_critical_ok tr \<longleftrightarrow> (\<forall>(c, r) \<in> set tr. critical c \<longrightarrow> r = 0)"

lemma on_log_harmless:
  assumes "harmless m"
  obtains x more where "on_log m s = (x, s\<lparr>trace := trace s @ more\<rparr>)" "\<forall>(c, r) \<in> set more. \<not> critical c"
proof -
  obtain x more where "run_state m (trace s) = (x, trace s @ more)" "\<forall>(c, r) \<in> set more. \<not> critical c"
    using harmless_run[OF assms] .
  then show ?thesis using that by (simp add: on_log_def)
qed

lemma on_log_then_critical:
  assumes "harmless m"
  obtains more r where "on_log (m \<bind> (\<lambda>_. mpi lib c)) s = (r, s\<lparr>trace := trace s @ more @ [(c, r)]\<rparr>)"
    "\<forall>(c, r) \<in> set more. \<not> critical c" "\<exists>tr. r = lib tr c"
proof -
  obtain x more where "run_state m (trace s) = (x, trace s @ more)" "\<forall>(c, r) \<in> set more. \<not> critical c"
    using harmless_run[OF assms] .
  then show ?thesis using that[of "lib (trace s @ more) c" more] by (auto simp: on_log_def)
qed

lemma start_video_spec:
  assumes "start_video p s = (ret, s')" and "all_critical_ok (trace s)"
  shows "\<exists>more. s' = s\<lparr>trace := trace s @ more\<rparr> \<and>
    (ret = 0 \<and> all_critical_ok (trace s') \<or>
     ret = -1 \<and> (\<exists>c r. last (trace s') = (c, r) \<and> critical c \<and> r \<noteq> 0 \<and> (\<exists>tr. r = media p tr c)))"
proof -
  let ?isp = "do { _ \<leftarrow> mpi (media p) (ISP_Init 0); mpi (media p) (ISP_Run 0) }"
  let ?dev = "do { _ \<leftarrow> vi_dev_init (media p) (not_config p);
      _ \<leftarrow> vi_chn_init (media p) 0 RAW_IMAGE_WIDTH RAW_IMAGE_HEIGHT;
      dm_vpss_init (media p) 0 RAW_IMAGE_WIDTH RAW_IMAGE_HEIGHT }"
  have isp: "harmless ?isp" by (auto simp: critical_def intro!: harmless_bind harmless_mpi)
  have dev: "harmless ?dev" by (intro harmless_bind device_calls_harmless)
  obtain m1 r1 where 1: "on_log (?isp \<bind> (\<lambda>_. mpi (media p) SYS_Init)) s = (r1, s\<lparr>trace := trace s @ m1 @ [(SYS_Init, r1)]\<rparr>)"
    "\<forall>(c, r) \<in> set m1. \<not> critical c" "\<exists>tr. r1 = media p tr SYS_Init"
    using on_log_then_critical[OF isp] .
  let ?s1 = "s\<lparr>trace := trace s @ m1 @ [(SYS_Init, r1)]\<rparr>"
  obtain m2 r2 where 2: "on_log (?dev \<bind> (\<lambda>_. mpi (media p) SYS_Bind)) ?s1 = (r2, ?s1\<lparr>trace := trace ?s1 @ m2 @ [(SYS_Bind, r2)]\<rparr>)"
    "\<forall>(c, r) \<in> set m2. \<not> critical c" "\<exists>tr. r2 = media p tr SYS_Bind"
    using on_log_then_critical[OF dev] .
  let ?s2 = "?s1\<lparr>trace := trace ?s1 @ m2 @ [(SYS_Bind, r2)]\<rparr>"
  obtain x m3 where 3: "on_log (dm_venc_init (media p) 0 RAW_IMAGE_WIDTH RAW_IMAGE_HEIGHT) ?s2 = (x, ?s2\<lparr>trace := trace ?s2 @ m3\<rparr>)"
    "\<forall>(c, r) \<in> set m3. \<not> critical c"
    using on_log_harmless[OF device_calls_harmless(4)] .
  have crit: "critical SYS_Init" "critical SYS_Bind" by (simp_all add: critical_def)
  have "start_video p s = (if r1 \<noteq> 0 then (-1, ?s1) else if r2 \<noteq> 0 then (-1, ?s2) else (0, ?s2\<lparr>trace := trace ?s2 @ m3\<rparr>))"
    using 1(1) 2(1) 3(1) unfolding start_video_def State_Monad.bind_assoc by (simp only: Let_def prod.case snd_conv)
  then have s': "(ret, s') = (if r1 \<noteq> 0 then (-1, ?s1) else if r2 \<noteq> 0 then (-1, ?s2) else (0, ?s2\<lparr>trace := trace ?s2 @ m3\<rparr>))"
    using assms(1) by simp
  note m1 = 1(3) and m2 = 2(3)
  have ex: "\<exists>more. s\<lparr>trace := trace s @ m\<rparr> = s\<lparr>trace := trace s @ more\<rparr>" for m by blast
  consider "r1 \<noteq> 0" | "r1 = 0" "r2 \<noteq> 0" | "r1 = 0" "r2 = 0" by blast
  then show ?thesis
  proof cases
    case 1
    then show ?thesis using s' crit(1) ex m1 by simp
  next
    case 2
    then show ?thesis using s' crit(2) ex m2 by simp
  next
    case 3
    then show ?thesis
      using assms(2) s' ex \<open>\<forall>(c, r) \<in> set m1. \<not> critical c\<close> \<open>\<forall>(c, r) \<in> set m2. \<not> critical c\<close> \<open>\<forall>(c, r) \<in> set m3. \<not> critical c\<close>
      by (auto simp: all_critical_ok_def)
  qed
qed

lemma start_services_spec:
  assumes "start_services p s = b" and "all_critical_ok (trace s)"
  shows "(\<exists>d b' pr more. b = Looping (s\<lparr>trace := trace s @ more, det := d, bufs := b', proc := pr\<rparr>) \<and> all_critical_ok (trace s @ more)) \<or>
    (\<exists>s'. b = Exited 1 s' \<and> trace s' = trace s \<and>
       (create_rc (mqtt_lib p) \<noteq> 0 \<or> callbacks_rc (mqtt_lib p) \<noteq> 0 \<or> connect_rc (mqtt_lib p) \<noteq> 0))"
proof (cases "mqtt_init (mqtt_lib p) (mq (det s))")
  case (Exits c m)
  then show ?thesis
    using assms by (auto simp: start_services_def mqtt_init_def myconnect_def Let_def split: if_splits)
next
  case r1: (Returns c m)
  show ?thesis
  proof (cases "mqttsub_init (mqtt_lib p) m")
    case (Exits c' m')
    then show ?thesis
      using assms r1 by (auto simp: start_services_def mqttsub_init_def Let_def split: if_splits)
  next
    case (Returns c' m')
    let ?more = "[(Thread_create, media p (trace s) Thread_create)]"
    have "all_critical_ok (trace s @ ?more)" using assms(2) by (auto simp: all_critical_ok_def critical_def)
    moreover have "\<exists>d b' pr. b = Looping (s\<lparr>trace := trace s @ ?more, det := d, bufs := b', proc := pr\<rparr>)"
      using assms(1) r1 Returns by (auto simp: start_services_def on_log_def Let_def split: prod.splits)
    ultimately show ?thesis by blast
  qed
qed

text \<open>What the start of the model and of the labels leaves for the rest of \<open>main\<close>.\<close>

lemma main_init_spec:
  assumes "main_init p s = Some b" and "trace s = []"
  shows "(\<exists>s'. b = Looping s' \<and> all_critical_ok (trace s')) \<or>
    (\<exists>s' c r. b = Exited (-1) s' \<and> last (trace s') = (c, r) \<and> critical c \<and> r \<noteq> 0) \<or>
    (\<exists>s'. b = Exited 1 s' \<and> all_critical_ok (trace s') \<and>
       (create_rc (mqtt_lib p) \<noteq> 0 \<or> callbacks_rc (mqtt_lib p) \<noteq> 0 \<or> connect_rc (mqtt_lib p) \<noteq> 0))"
proof -
  obtain app st names ret s1 where v: "start_video p (s\<lparr>app_ctx := app, npu_st := st, labels := names\<rparr>) = (ret, s1)"
      "b = (if ret \<noteq> 0 then Exited (-1) s1 else start_services p s1)"
    using assms(1) by (auto simp: main_init_def Let_def split: bind_splits prod.splits)
  have "all_critical_ok (trace (s\<lparr>app_ctx := app, npu_st := st, labels := names\<rparr>))"
    using assms(2) by (simp add: all_critical_ok_def)
  note video = start_video_spec[OF v(1) this]
  show ?thesis
  proof (cases "ret = 0")
    case True
    then have "all_critical_ok (trace s1)" "start_services p s1 = b" using video v(2) by auto
    from start_services_spec[OF this(2,1)] consider
        (loop) d b' pr more where "b = Looping (s1\<lparr>trace := trace s1 @ more, det := d, bufs := b', proc := pr\<rparr>)" "all_critical_ok (trace s1 @ more)"
      | (exit) s' where "b = Exited 1 s'" "trace s' = trace s1"
          "create_rc (mqtt_lib p) \<noteq> 0 \<or> callbacks_rc (mqtt_lib p) \<noteq> 0 \<or> connect_rc (mqtt_lib p) \<noteq> 0"
      by blast
    then show ?thesis
    proof cases
      case loop
      then show ?thesis by simp
    next
      case exit
      then show ?thesis using \<open>all_critical_ok (trace s1)\<close> by simp
    qed
  next
    case False
    then show ?thesis using video v(2) by auto
  qed
qed

section \<open>Properties\<close>

text \<open>
  C20. What start-up depends on: \<open>main\<close> gives up with -1 only when \<open>RK_MPI_SYS_Init\<close> or
  \<open>RK_MPI_SYS_Bind\<close> fails, and then at once; it leaves with 1 only through the MQTT set-up; in every
  other case, whatever the model, the labels, the video input, the scaler, the encoder, the thread
  and the buffers answered, the loop is entered.
\<close>

theorem startup_decides:
  assumes "main_init p s = Some b" and "trace s = []"
  shows "(\<exists>s'. b = Looping s' \<and> all_critical_ok (trace s')) \<or>
    (\<exists>s' c r. b = Exited (-1) s' \<and> last (trace s') = (c, r) \<and> critical c \<and> r \<noteq> 0) \<or>
    (\<exists>s'. b = Exited 1 s' \<and> all_critical_ok (trace s') \<and>
       (create_rc (mqtt_lib p) \<noteq> 0 \<or> callbacks_rc (mqtt_lib p) \<noteq> 0 \<or> connect_rc (mqtt_lib p) \<noteq> 0))"
  by (rule main_init_spec[OF assms])

definition machine0 :: machine where
  "machine0 = \<lparr>trace = [], app_ctx = zero_context, npu_st = \<lparr>contexts = [], blocks = []\<rparr>, labels = labels0, det = det_state0,
     bufs = \<lparr>src_dma = \<lparr>buf_fd = -1, buf_va = 0\<rparr>, dst_dma = \<lparr>buf_fd = -1, buf_va = 0\<rparr>\<rparr>, proc = \<lparr>fds = {#}, maps = {#}\<rparr>\<rparr>"

text \<open>A board on which every media call but \<open>RK_MPI_SYS_Bind\<close> succeeds.\<close>

definition unbound :: platform where
  "unbound = \<lparr>media = \<lambda>_ c. if c = SYS_Bind then -7 else 0, not_config = -100, npu_lib = demo_lib,
     mqtt_lib = \<lparr>create_rc = 0, callbacks_rc = 0, connect_rc = 0, subscribe_rc = 0, send_rc = 0\<rparr>,
     alloc_ok = \<lambda>_. True, disk = \<lparr>files = Map.empty, may_write = \<lambda>_. False\<rparr>, kernel = sample_kernel\<rparr>"

lemmas boot_simps = start_video_def start_services_def on_log_def vi_dev_init_def vi_chn_init_def
  dm_vpss_init_def dm_venc_init_def Let_def

theorem startup_decides_witness:
  "\<exists>s'. main_init unbound machine0 = Some (Exited (-1) s') \<and> last (trace s') = (SYS_Bind, -7)"
proof -
  have "\<exists>s'. main_init unbound machine0 = Some (Exited (-1) s') \<and> last (trace s') = (SYS_Bind, -7)"
    using labels_missing_file[of "disk unbound" "alloc_ok unbound"]
    by (simp add: main_init_def boot_simps unbound_def machine0_def demo_init)
  then obtain s' where m: "main_init unbound machine0 = Some (Exited (-1) s')" "last (trace s') = (SYS_Bind, -7)" by blast
  have "trace machine0 = []" by (simp add: machine0_def)
  from startup_decides[OF m(1) this] m show ?thesis by auto
qed

text \<open>
  C19. The detector starts without a model: when the model and the label file cannot be read, and
  whatever the video, scaler, encoder and thread calls answer, \<open>main\<close> enters its loop with an empty
  context, and the inference thread's first copy writes through a null buffer.
\<close>

theorem loops_without_model:
  assumes "fst (lib_init (npu_lib p) ''./model/yolov5.rknn'') < 0" and "files (disk p) LABEL_NALE_TXT_PATH = None"
    and "trace s = []" and "labels s = labels0"
    and "\<And>tr c. critical c \<Longrightarrow> media p tr c = 0"
    and "create_rc (mqtt_lib p) = 0" "callbacks_rc (mqtt_lib p) = 0" "connect_rc (mqtt_lib p) = 0"
  shows "\<exists>s'. main_init p s = Some (Looping s') \<and> app_ctx s' = zero_context \<and>
    thread_infer (npu_lib p) (app_ctx s') tensors frame od = None"
proof -
  have i: "init_yolov5_model (npu_lib p) ''./model/yolov5.rknn'' zero_context (npu_st s) = Some (-1, zero_context, npu_st s)"
    using assms(1) by (cases "lib_init (npu_lib p) ''./model/yolov5.rknn''") (simp add: init_yolov5_model_def)
  have l: "init_post_process (alloc_ok p) (disk p) (labels s) = Some (0, labels0)"
    using labels_missing_file[OF assms(2)] assms(4) by simp
  let ?s = "s\<lparr>app_ctx := zero_context, npu_st := npu_st s, labels := labels0\<rparr>"
  obtain ret s1 where v: "start_video p ?s = (ret, s1)" by fastforce
  have "all_critical_ok (trace ?s)" using assms(3) by (simp add: all_critical_ok_def)
  note video = start_video_spec[OF v this]
  have ret: "ret = 0" "all_critical_ok (trace s1)" "app_ctx s1 = zero_context"
    using video assms(5) by auto
  from start_services_spec[OF refl ret(2), of p] assms(6-8) obtain d b' pr more where
    "start_services p s1 = Looping (s1\<lparr>trace := trace s1 @ more, det := d, bufs := b', proc := pr\<rparr>)" by auto
  then have "main_init p s = Some (Looping (s1\<lparr>trace := trace s1 @ more, det := d, bufs := b', proc := pr\<rparr>))"
    using i l v ret(1) by (simp add: main_init_def Let_def)
  moreover have "thread_infer (npu_lib p) zero_context tensors frame od = None"
    by (simp add: thread_infer_def zero_context_def rd_def)
  ultimately show ?thesis
    using ret(3) by (intro exI[of _ "s1\<lparr>trace := trace s1 @ more, det := d, bufs := b', proc := pr\<rparr>"] conjI) simp_all
qed

theorem loops_without_model_witness:
  "\<exists>s'. main_init (unbound\<lparr>media := \<lambda>_ c. if critical c then 0 else -1, npu_lib := demo_lib\<lparr>lib_init := \<lambda>_. (-6, 0)\<rparr>\<rparr>) machine0 =
      Some (Looping s') \<and> app_ctx s' = zero_context \<and>
    thread_infer (demo_lib\<lparr>lib_init := \<lambda>_. (-6, 0)\<rparr>) (app_ctx s') (\<lambda>_. (0, [])) (1 :: nat) \<lparr>count = 0, results = []\<rparr> = None"
  using loops_without_model[of "unbound\<lparr>media := \<lambda>_ c. if critical c then 0 else -1, npu_lib := demo_lib\<lparr>lib_init := \<lambda>_. (-6, 0)\<rparr>\<rparr>"
      machine0 "\<lambda>_. (0, [])" "1 :: nat" "\<lparr>count = 0, results = []\<rparr>"]
  by (simp add: unbound_def machine0_def)

text \<open>
  The clean-up behind the loop could not run to its end after a successful start: it gives a mapped
  buffer to \<open>free\<close>, and without buffers it frees the tensor memories of the model twice.
\<close>

lemma clean_up_undefined:
  assumes "buf_va (src_dma (bufs s)) \<noteq> 0 \<and> buf_va (src_dma (bufs s)) \<notin> set heap \<or>
      init_yolov5_model (npu_lib p) path zero_context st = Some (0, app_ctx s, st') \<and>
      input_mems (app_ctx s) ! 0 \<noteq> 0 \<and> (\<forall>ctx p' bs. p' \<notin> set (lib_destroy_mem (npu_lib p) ctx p' bs))"
  shows "main_clean_up p live h1 h2 heap s = None"
proof (cases "image_hanle_free h1 h2 (bufs s) heap")
  case None
  then show ?thesis by (simp add: main_clean_up_def on_log_def Let_def split: prod.splits)
next
  case (Some r)
  then have b: "\<not> (buf_va (src_dma (bufs s)) \<noteq> 0 \<and> buf_va (src_dma (bufs s)) \<notin> set heap)"
    using image_free_undefined[of "bufs s" heap] by fastforce
  have "release_yolov5_model (npu_lib p) (app_ctx s) st'' = None" for st''
    by (rule release_frees_twice[of _ path st _ st']) (use assms b in blast)+
  then show ?thesis by (auto simp: main_clean_up_def on_log_def Let_def split: prod.splits bind_splits)
qed

section \<open>One turn of the loops\<close>

text \<open>
  A turn of the camera loop is defined for every result the frame handling accepts, and it logs one
  acquisition and one release of a frame, also when none was acquired.
\<close>

lemma camera_turn_log:
  assumes "frame_step rga now od (det s) \<noteq> None"
  obtains s' where "camera_turn lib rga now od s = Some s'"
    "map fst (trace s') = map fst (trace s) @ [VPSS_GetChnFrame 0 0, VPSS_ReleaseChnFrame 0 0]"
    "lib (trace s) (VPSS_GetChnFrame 0 0) \<noteq> 0 \<Longrightarrow> det s' = det s"
  using assms by (cases "lib (trace s) (VPSS_GetChnFrame 0 0) = 0") (auto simp: camera_turn_def on_log_def Let_def)

text \<open>Every turn of the stream thread releases its stream, also when it got none.\<close>

lemma stream_turn_log:
  "\<exists>more. map fst (snd (run_state (stream_turn lib live) tr)) =
     map fst tr @ VENC_GetStream 0 # more @ [VENC_ReleaseStream 0] \<and> set more \<subseteq> {RTSP_tx_video, RTSP_do_event}"
  by (auto simp: stream_turn_def)

end
