(* ===== verification/Canvas.thy ===== *)
theory Canvas
  imports Prelude
begin

text \<open>
  What the drawing routines of \<^verbatim>\<open>utils/image_drawing.c\<close> share: the clipped counting loop,
  writing a pixel of one to four channels into a byte buffer, and the contract of a pixel
  operation with its consequence for a sweep over a rectangle, as the locale \<open>canvas\<close>.
\<close>

section \<open>The clipped loop\<close>

text \<open>
  \<open>for (y = lo; cond; y++) { if (y < 0) continue; if (y >= lim) break; body }\<close>
\<close>

function clip_loop :: "(int \<Rightarrow> bool) \<Rightarrow> int \<Rightarrow> (int \<Rightarrow> 's \<Rightarrow> 's option) \<Rightarrow> int \<Rightarrow> 's \<Rightarrow> 's option" where
  "clip_loop cond lim body y s =
     (if \<not> cond y then Some s
      else if y < 0 then clip_loop cond lim body (y + 1) s
      else if y \<ge> lim then Some s
      else (case body y s of None \<Rightarrow> None | Some s' \<Rightarrow> clip_loop cond lim body (y + 1) s'))"
  by pat_completeness auto
termination
  by (relation "measure (\<lambda>(cond, lim, body, y, s). nat (max lim 0 + 1 - y))") auto

declare clip_loop.simps [simp del]

text \<open>The loop rule, for total correctness.\<close>

lemma clip_loop_rule:
  assumes "P lo s"
    and "\<And>y t. lo \<le> y \<Longrightarrow> cond y \<Longrightarrow> y < 0 \<Longrightarrow> P y t \<Longrightarrow> P (y + 1) t"
    and "\<And>y t. lo \<le> y \<Longrightarrow> cond y \<Longrightarrow> 0 \<le> y \<Longrightarrow> y < lim \<Longrightarrow> P y t \<Longrightarrow> \<exists>t'. body y t = Some t' \<and> P (y + 1) t'"
    and "\<And>y t. lo \<le> y \<Longrightarrow> \<not> cond y \<or> 0 \<le> y \<and> lim \<le> y \<Longrightarrow> P y t \<Longrightarrow> Q t"
  shows "\<exists>s'. clip_loop cond lim body lo s = Some s' \<and> Q s'"
  using assms
proof (induction cond lim body lo s rule: clip_loop.induct)
  case (1 cond lim body y s)
  consider "\<not> cond y" | "cond y" "y < 0" | "cond y" "0 \<le> y" "lim \<le> y" | "cond y" "0 \<le> y" "y < lim" by linarith
  then show ?case
  proof cases
    case 1
    then show ?thesis using "1.prems"(1,4) by (subst clip_loop.simps) auto
  next
    case 2
    have "\<exists>s'. clip_loop cond lim body (y + 1) s = Some s' \<and> Q s'"
    proof (rule "1.IH"(1))
      show "P (y + 1) s" using 2 "1.prems"(1,2) by simp
      show "Q t" if "y + 1 \<le> z" "\<not> cond z \<or> 0 \<le> z \<and> lim \<le> z" "P z t" for z t
        using "1.prems"(4)[of z t] that by simp
    qed (use 2 "1.prems"(2,3) in auto)
    then show ?thesis using 2 by (subst clip_loop.simps) simp
  next
    case 3
    then show ?thesis using "1.prems"(1,4) by (subst clip_loop.simps) auto
  next
    case 4
    then obtain t' where t: "body y s = Some t'" "P (y + 1) t'" using "1.prems"(1,3) by blast
    have "\<exists>s'. clip_loop cond lim body (y + 1) t' = Some s' \<and> Q s'"
    proof (rule "1.IH"(2)[OF _ _ _ t(1)])
      show "Q u" if "y + 1 \<le> z" "\<not> cond z \<or> 0 \<le> z \<and> lim \<le> z" "P z u" for z u
        using "1.prems"(4)[of z u] that by simp
    qed (use 4 t "1.prems"(2,3) in auto)
    then show ?thesis using 4 t by (subst clip_loop.simps) simp
  qed
qed

text \<open>The loop conditions are upper bounds.\<close>

definition down_closed :: "(int \<Rightarrow> bool) \<Rightarrow> bool" where
  "down_closed cond \<longleftrightarrow> (\<forall>y z. cond y \<and> z \<le> y \<longrightarrow> cond z)"

lemma down_closedD: "down_closed cond \<Longrightarrow> cond y \<Longrightarrow> z \<le> y \<Longrightarrow> cond z"
  by (auto simp: down_closed_def)

lemma down_closed_less [simp]: "down_closed (\<lambda>y. y < n)"
  by (auto simp: down_closed_def)

text \<open>Only the visited positions matter.\<close>

lemma clip_loop_cong:
  assumes "\<And>z t. y \<le> z \<Longrightarrow> 0 \<le> z \<Longrightarrow> z < lim \<Longrightarrow> cond z \<Longrightarrow> body z t = body' z t"
  shows "clip_loop cond lim body y s = clip_loop cond lim body' y s"
  using assms
proof (induction cond lim body y s rule: clip_loop.induct)
  case (1 cond lim body y s)
  have "clip_loop cond lim body (y + 1) s = clip_loop cond lim body' (y + 1) s" if "cond y" "y < 0"
    by (rule "1.IH"(1)) (use that "1.prems" in auto)
  moreover have "clip_loop cond lim body (y + 1) t = clip_loop cond lim body' (y + 1) t"
    if "cond y" "0 \<le> y" "y < lim" "body y s = Some t" for t
    by (rule "1.IH"(2)) (use that "1.prems" in auto)
  ultimately show ?case
    using "1.prems"[of y s] by (subst (1 2) clip_loop.simps) (auto split: option.splits)
qed

section \<open>Pixel operations\<close>

text \<open>
  The contract of an operation on one pixel of a \<open>w * h\<close> image: inside the image it is defined,
  keeps \<open>ok\<close>, changes the pixel by \<open>step\<close> and no other pixel.
\<close>

definition pixel_law ::
    "(int \<Rightarrow> int \<Rightarrow> 'b \<Rightarrow> 'b option) \<Rightarrow> int \<Rightarrow> int \<Rightarrow> ('b \<Rightarrow> int \<Rightarrow> int \<Rightarrow> 'p) \<Rightarrow> (int \<Rightarrow> int \<Rightarrow> 'p \<Rightarrow> 'p) \<Rightarrow> ('b \<Rightarrow> bool) \<Rightarrow> bool" where
  "pixel_law op w h view step ok \<longleftrightarrow>
     (\<forall>x y b. 0 \<le> x \<and> x < w \<and> 0 \<le> y \<and> y < h \<and> ok b \<longrightarrow>
        (\<exists>b'. op x y b = Some b' \<and> ok b' \<and>
           (\<forall>u v. 0 \<le> u \<and> u < w \<and> 0 \<le> v \<and> v < h \<longrightarrow>
              view b' u v = (if u = x \<and> v = y then step x y (view b x y) else view b u v))))"

lemma pixel_law_swap:
  "pixel_law op w h view step ok \<Longrightarrow>
   pixel_law (\<lambda>x y. op y x) h w (\<lambda>b x y. view b y x) (\<lambda>x y. step y x) ok"
  unfolding pixel_law_def by (metis (no_types, lifting))

lemma pixel_law_if:
  assumes "pixel_law op w h view step ok"
  shows "pixel_law (\<lambda>x y b. if c x y then op x y b else Some b) w h view
    (\<lambda>x y p. if c x y then step x y p else p) ok"
  unfolding pixel_law_def
proof (intro allI impI)
  fix x y b assume a: "0 \<le> x \<and> x < w \<and> 0 \<le> y \<and> y < h \<and> ok b"
  show "\<exists>b'. (if c x y then op x y b else Some b) = Some b' \<and> ok b' \<and>
       (\<forall>u v. 0 \<le> u \<and> u < w \<and> 0 \<le> v \<and> v < h \<longrightarrow> view b' u v =
          (if u = x \<and> v = y then (if c x y then step x y (view b x y) else view b x y) else view b u v))"
    using assms a unfolding pixel_law_def by (cases "c x y") auto
qed

text \<open>One clipped line of pixels.\<close>

lemma sweep_line:
  assumes law: "pixel_law op w h view step ok" and x: "0 \<le> x" "x < w" and b: "ok b"
    and down: "down_closed cond"
  shows "\<exists>b'. clip_loop cond h (op x) lo b = Some b' \<and> ok b' \<and>
    (\<forall>u v. 0 \<le> u \<and> u < w \<and> 0 \<le> v \<and> v < h \<longrightarrow>
       view b' u v = (if u = x \<and> lo \<le> v \<and> cond v then step u v (view b u v) else view b u v))"
proof -
  let ?P = "\<lambda>y b'. ok b' \<and> (\<forall>v. lo \<le> v \<and> v < y \<longrightarrow> cond v) \<and>
    (\<forall>u v. 0 \<le> u \<and> u < w \<and> 0 \<le> v \<and> v < h \<longrightarrow>
       view b' u v = (if u = x \<and> lo \<le> v \<and> v < y then step u v (view b u v) else view b u v))"
  show ?thesis
  proof (rule clip_loop_rule[where P = ?P])
  show "?P lo b" using b by auto
next
  fix y t assume "lo \<le> y" "cond y" "y < 0" and P: "?P y t"
    then have "\<And>v. 0 \<le> v \<Longrightarrow> (v < y + 1) = (v < y)" "\<forall>v. lo \<le> v \<and> v < y + 1 \<longrightarrow> cond v"
      using down_closedD[OF down \<open>cond y\<close>] by auto
    then show "?P (y + 1) t" using P by simp
next
  fix y t
    assume y: "lo \<le> y" "cond y" "0 \<le> y" "y < h" and P: "?P y t"
    obtain b' where b': "op x y t = Some b'" "ok b'"
      "\<And>u v. 0 \<le> u \<Longrightarrow> u < w \<Longrightarrow> 0 \<le> v \<Longrightarrow> v < h \<Longrightarrow>
         view b' u v = (if u = x \<and> v = y then step x y (view t x y) else view t u v)"
      using law x y(3,4) P unfolding pixel_law_def by metis
    have "view b' u v = (if u = x \<and> lo \<le> v \<and> v < y + 1 then step u v (view b u v) else view b u v)"
      if "0 \<le> u" "u < w" "0 \<le> v" "v < h" for u v
      using b'(3)[OF that] P that x y by auto
    moreover have "\<forall>v. lo \<le> v \<and> v < y + 1 \<longrightarrow> cond v" using down_closedD[OF down y(2)] by auto
    ultimately show "\<exists>t'. op x y t = Some t' \<and> ?P (y + 1) t'" using b'(1,2) by blast
next
  fix y t
    assume y: "lo \<le> y" "\<not> cond y \<or> 0 \<le> y \<and> h \<le> y" and P: "?P y t"
    have "v < y \<longleftrightarrow> cond v" if "lo \<le> v" "v < h" for v
    proof
      show "v < y \<Longrightarrow> cond v" using P that by blast
      show "v < y" if "cond v" using y(2) down_closedD[OF down that, of y] \<open>v < h\<close> by (meson linorder_not_le order_less_le_trans)
    qed
    then show "ok t \<and> (\<forall>u v. 0 \<le> u \<and> u < w \<and> 0 \<le> v \<and> v < h \<longrightarrow>
       view t u v = (if u = x \<and> lo \<le> v \<and> cond v then step u v (view b u v) else view b u v))"
      using P by auto
  qed
qed

text \<open>A clipped rectangle of pixels, by columns.\<close>

lemma sweep:
  assumes law: "pixel_law op w h view step ok" and b: "ok b"
    and down: "down_closed cx" "down_closed cy"
  shows "\<exists>b'. clip_loop cx w (\<lambda>x. clip_loop cy h (op x) y0) x0 b = Some b' \<and> ok b' \<and>
    (\<forall>u v. 0 \<le> u \<and> u < w \<and> 0 \<le> v \<and> v < h \<longrightarrow>
       view b' u v = (if x0 \<le> u \<and> cx u \<and> y0 \<le> v \<and> cy v then step u v (view b u v) else view b u v))"
proof -
  let ?P = "\<lambda>x b'. ok b' \<and> (\<forall>u. x0 \<le> u \<and> u < x \<longrightarrow> cx u) \<and>
    (\<forall>u v. 0 \<le> u \<and> u < w \<and> 0 \<le> v \<and> v < h \<longrightarrow>
       view b' u v = (if x0 \<le> u \<and> u < x \<and> y0 \<le> v \<and> cy v then step u v (view b u v) else view b u v))"
  show ?thesis
  proof (rule clip_loop_rule[where P = ?P])
  show "?P x0 b" using b by auto
next
  fix x t assume "x0 \<le> x" "cx x" "x < 0" and P: "?P x t"
    then have "\<And>u. 0 \<le> u \<Longrightarrow> (u < x + 1) = (u < x)" "\<forall>u. x0 \<le> u \<and> u < x + 1 \<longrightarrow> cx u"
      using down_closedD[OF down(1) \<open>cx x\<close>] by auto
    then show "?P (x + 1) t" using P by simp
next
  fix x t
    assume x: "x0 \<le> x" "cx x" "0 \<le> x" "x < w" and P: "?P x t"
    have "ok t" using P by blast
    obtain b' where b': "clip_loop cy h (op x) y0 t = Some b'" "ok b'"
      "\<And>u v. 0 \<le> u \<Longrightarrow> u < w \<Longrightarrow> 0 \<le> v \<Longrightarrow> v < h \<Longrightarrow>
         view b' u v = (if u = x \<and> y0 \<le> v \<and> cy v then step u v (view t u v) else view t u v)"
      using sweep_line[where lo = y0 and b = t and cond = cy, OF law x(3,4) \<open>ok t\<close> down(2)] by blast
    have "view b' u v = (if x0 \<le> u \<and> u < x + 1 \<and> y0 \<le> v \<and> cy v then step u v (view b u v) else view b u v)"
      if "0 \<le> u" "u < w" "0 \<le> v" "v < h" for u v
      using b'(3)[OF that] P that x by auto
    moreover have "\<forall>u. x0 \<le> u \<and> u < x + 1 \<longrightarrow> cx u" using down_closedD[OF down(1) x(2)] by auto
    ultimately show "\<exists>t'. clip_loop cy h (op x) y0 t = Some t' \<and> ?P (x + 1) t'" using b'(1,2) by blast
next
  fix x t
    assume x: "x0 \<le> x" "\<not> cx x \<or> 0 \<le> x \<and> w \<le> x" and P: "?P x t"
    have "u < x \<longleftrightarrow> cx u" if "x0 \<le> u" "u < w" for u
    proof
      show "u < x \<Longrightarrow> cx u" using P that by blast
      show "u < x" if "cx u" using x(2) down_closedD[OF down(1) that, of x] \<open>u < w\<close> by (meson linorder_not_le order_less_le_trans)
    qed
    then show "ok t \<and> (\<forall>u v. 0 \<le> u \<and> u < w \<and> 0 \<le> v \<and> v < h \<longrightarrow>
       view t u v = (if x0 \<le> u \<and> cx u \<and> y0 \<le> v \<and> cy v then step u v (view b u v) else view b u v))"
      using P by auto
  qed
qed

section \<open>Pixels in a byte buffer\<close>

text \<open>
  Consecutive bytes from \<open>off\<close> on, each updated with the corresponding byte of \<open>cs\<close>: with
  \<open>f\<close> the second projection the assignments \<open>p[x * n + k] = pen_color[k]\<close>.
\<close>

fun upd_bytes :: "(byte \<Rightarrow> byte \<Rightarrow> byte) \<Rightarrow> byte list \<Rightarrow> int \<Rightarrow> byte list \<Rightarrow> byte list option" where
  "upd_bytes f [] off b = Some b"
| "upd_bytes f (c # cs) off b =
     do {
       old \<leftarrow> rd b off;
       b' \<leftarrow> wr b off (f old c);
       upd_bytes f cs (off + 1) b'
     }"

text \<open>
  The pixel at \<open>(x, y)\<close> of an image with rows of \<open>w\<close> pixels of \<open>n\<close> bytes that starts at
  \<open>base\<close>: \<open>p = pixels + stride * y\<close>, then \<open>p[x * n + k]\<close>.
\<close>

definition put_px ::
    "(byte \<Rightarrow> byte \<Rightarrow> byte) \<Rightarrow> int \<Rightarrow> nat \<Rightarrow> int \<Rightarrow> byte list \<Rightarrow> int \<Rightarrow> int \<Rightarrow> byte list \<Rightarrow> byte list option" where
  "put_px f base n w pen x y b = upd_bytes f (take n pen) (base + w * int n * y + x * int n) b"

definition px_view :: "int \<Rightarrow> nat \<Rightarrow> int \<Rightarrow> byte list \<Rightarrow> int \<Rightarrow> int \<Rightarrow> byte list" where
  "px_view base n w b x y = map (\<lambda>k. b ! nat (base + w * int n * y + x * int n + int k)) [0..<n]"

text \<open>The bytes outside the image are those of \<open>orig\<close>.\<close>

definition image_ok :: "int \<Rightarrow> nat \<Rightarrow> int \<Rightarrow> int \<Rightarrow> byte list \<Rightarrow> byte list \<Rightarrow> byte list \<Rightarrow> bool" where
  "image_ok base n w h pen orig b \<longleftrightarrow>
     0 \<le> base \<and> n \<le> length pen \<and> length b = length orig \<and> base + w * h * int n \<le> int (length b) \<and>
     (\<forall>i < length b. int i < base \<or> base + w * h * int n \<le> int i \<longrightarrow> b ! i = orig ! i)"

lemma upd_bytes_spec:
  assumes "0 \<le> off" and "off + int (length cs) \<le> int (length b)"
  shows "\<exists>b'. upd_bytes f cs off b = Some b' \<and> length b' = length b \<and>
    (\<forall>i < length b. b' ! i =
       (if off \<le> int i \<and> int i < off + int (length cs) then f (b ! i) (cs ! (i - nat off)) else b ! i))"
  using assms
proof (induction f cs off b rule: upd_bytes.induct)
  case (1 f off b)
  have "\<forall>i < length b. b ! i = (if off \<le> int i \<and> int i < off + int (length ([] :: byte list))
      then f (b ! i) ([] ! (i - nat off)) else b ! i)" by auto
  then show ?case unfolding upd_bytes.simps by blast
next
  case (2 f c cs off b)
  let ?b1 = "b[nat off := f (b ! nat off) c]"
  have lt: "off < int (length b)" using "2.prems" by simp
  then have rw: "rd b off = Some (b ! nat off)" "wr b off (f (b ! nat off) c) = Some ?b1"
    using "2.prems"(1) by (simp_all add: rd_Some wr_Some)
  obtain b' where b': "upd_bytes f cs (off + 1) ?b1 = Some b'" "length b' = length b"
    "\<And>i. i < length b \<Longrightarrow> b' ! i =
       (if off + 1 \<le> int i \<and> int i < off + 1 + int (length cs) then f (?b1 ! i) (cs ! (i - nat (off + 1))) else ?b1 ! i)"
    using "2.IH"[OF rw] "2.prems" by auto
  have "b' ! i = (if off \<le> int i \<and> int i < off + int (length (c # cs))
      then f (b ! i) ((c # cs) ! (i - nat off)) else b ! i)" if i: "i < length b" for i
  proof (cases "i = nat off")
    case True
    then show ?thesis using b'(3)[OF i] "2.prems"(1) lt by simp
  next
    case False
    then have e: "off + 1 \<le> int i \<longleftrightarrow> off \<le> int i" using "2.prems"(1) by auto
    have d: "off \<le> int i \<Longrightarrow> i - nat off = Suc (i - nat (off + 1))"
      using False "2.prems"(1) by (simp add: nat_add_distrib)
    have m: "int i < off + 1 + int (length cs) \<longleftrightarrow> int i < off + int (length (c # cs))" by auto
    show ?thesis unfolding b'(3)[OF i] e m using False d by simp
  qed
  then show ?case using rw b'(1,2) by simp
qed

lemma px_offset:
  assumes "0 \<le> x" "x < w" "0 \<le> y" "y < h" "0 \<le> (k::int)" "k < int n"
  shows "0 \<le> w * int n * y + x * int n + k" and "w * int n * y + x * int n + k < w * h * int n"
proof -
  have e: "w * int n * y + x * int n + k = (y * w + x) * int n + k" "w * h * int n = (h * w) * int n"
    by (simp_all add: algebra_simps)
  note g = grid_index[OF assms(3,4,1,2)]
  show "0 \<le> w * int n * y + x * int n + k" "w * int n * y + x * int n + k < w * h * int n"
    unfolding e using grid_index[of "y * w + x" "h * w" k "int n"] g assms(5,6) by simp_all
qed

lemma px_offset_inj:
  assumes "0 \<le> x" "x < w" "0 \<le> u" "u < w" "0 \<le> (k::int)" "k < int n" "0 \<le> l" "l < int n"
    and "w * int n * y + x * int n + k = w * int n * v + u * int n + l"
  shows "x = u \<and> y = v \<and> k = l"
proof -
  have "(y * w + x) * int n + k = (v * w + u) * int n + l" using assms(9) by (simp add: algebra_simps)
  then have "y * w + x = v * w + u" "k = l"
    using grid_index_inj[of k "int n" l "y * w + x" "v * w + u"] assms(5-8) by auto
  moreover from this(1) have "y = v" "x = u" using grid_index_inj[of x w u y v] assms(1-4) by auto
  ultimately show ?thesis by simp
qed

lemma put_px_law:
  "pixel_law (put_px f base n w pen) w h (px_view base n w)
     (\<lambda>x y p. map (\<lambda>k. f (p ! k) (pen ! k)) [0..<n]) (image_ok base n w h pen orig)"
  unfolding pixel_law_def
proof (intro allI impI)
  fix x y b
  assume a: "0 \<le> x \<and> x < w \<and> 0 \<le> y \<and> y < h \<and> image_ok base n w h pen orig b"
  then have xy: "0 \<le> x" "x < w" "0 \<le> y" "y < h" by auto
  have ok: "0 \<le> base" "n \<le> length pen" "length b = length orig" "base + w * h * int n \<le> int (length b)"
    "\<And>i. i < length b \<Longrightarrow> int i < base \<or> base + w * h * int n \<le> int i \<Longrightarrow> b ! i = orig ! i"
    using a by (auto simp: image_ok_def)
  let ?off = "base + w * int n * y + x * int n"
  have len: "length (take n pen) = n" using ok(2) by simp
  have off: "0 \<le> ?off" "?off + int n \<le> base + w * h * int n"
  proof -
    have e: "w * int n * y + x * int n = (y * w + x) * int n" "w * h * int n = (h * w) * int n"
      by (simp_all add: algebra_simps)
    have g: "0 \<le> y * w + x" "y * w + x + 1 \<le> h * w" using grid_index[OF xy(3,4,1,2)] by auto
    have "(y * w + x + 1) * int n \<le> (h * w) * int n" by (rule mult_right_mono[OF g(2)]) simp
    then show "?off + int n \<le> base + w * h * int n" using e by (simp add: algebra_simps)
    have "0 \<le> (y * w + x) * int n" using g(1) by simp
    then show "0 \<le> ?off" using e ok(1) by simp
  qed
  have "?off + int (length (take n pen)) \<le> int (length b)" unfolding len using off(2) ok(4) by linarith
  from upd_bytes_spec[OF off(1) this, of f] obtain b' where
    b': "put_px f base n w pen x y b = Some b'" "length b' = length b"
    "\<And>i. i < length b \<Longrightarrow> b' ! i = (if ?off \<le> int i \<and> int i < ?off + int n
       then f (b ! i) (take n pen ! (i - nat ?off)) else b ! i)"
    unfolding len put_px_def by blast
  have "image_ok base n w h pen orig b'"
  proof -
    have "b' ! i = orig ! i" if "i < length b'" "int i < base \<or> base + w * h * int n \<le> int i" for i
    proof -
      have "base \<le> ?off" using off(1) px_offset(1)[OF xy, of 0 n] grid_index[OF xy(3,4,1,2)]
        by (cases "n = 0") auto
      then have "\<not> (?off \<le> int i \<and> int i < ?off + int n)" using that(2) off(2) by linarith
      moreover have "i < length b" "b ! i = orig ! i" using that b'(2) ok(5)[of i] by auto
      ultimately show ?thesis using b'(3)[of i] by (metis (no_types, lifting))
    qed
    then show ?thesis using ok b'(2) by (simp add: image_ok_def)
  qed
  moreover have "px_view base n w b' u v =
      (if u = x \<and> v = y then map (\<lambda>k. f (px_view base n w b x y ! k) (pen ! k)) [0..<n] else px_view base n w b u v)"
    if uv: "0 \<le> u \<and> u < w \<and> 0 \<le> v \<and> v < h" for u v
  proof -
    have "b' ! nat (base + w * int n * v + u * int n + int k) =
        (if u = x \<and> v = y then f (b ! nat (base + w * int n * y + x * int n + int k)) (pen ! k)
         else b ! nat (base + w * int n * v + u * int n + int k))" if k: "k < n" for k
    proof -
      let ?i = "base + w * int n * v + u * int n + int k"
      have i: "0 \<le> ?i" "?i < int (length b)"
        using px_offset[of u w v h "int k" n] uv k ok(1,4) by (auto simp: algebra_simps)
      have in_iff: "?off \<le> ?i \<and> ?i < ?off + int n \<longleftrightarrow> u = x \<and> v = y"
      proof
        assume "?off \<le> ?i \<and> ?i < ?off + int n"
        then show "u = x \<and> v = y"
          using px_offset_inj[of x w u "?i - ?off" n "int k" y v] xy uv k by auto
      qed (use k in auto)
      have "nat ?i - nat ?off = k" if "u = x \<and> v = y" using that off(1) by auto
      then show ?thesis using b'(3)[of "nat ?i"] i in_iff k by (auto simp: nat_less_iff)
    qed
    then show ?thesis by (auto simp: px_view_def)
  qed
  ultimately show "\<exists>b'. put_px f base n w pen x y b = Some b' \<and> image_ok base n w h pen orig b' \<and>
      (\<forall>u v. 0 \<le> u \<and> u < w \<and> 0 \<le> v \<and> v < h \<longrightarrow> px_view base n w b' u v =
         (if u = x \<and> v = y then map (\<lambda>k. f (px_view base n w b x y ! k) (pen ! k)) [0..<n]
          else px_view base n w b u v))"
    using b'(1) by blast
qed

text \<open>\<open>b'\<close> differs from \<open>b\<close> only in pixels of the image that satisfy \<open>S\<close>.\<close>

definition touched ::
    "int \<Rightarrow> nat \<Rightarrow> int \<Rightarrow> int \<Rightarrow> byte list \<Rightarrow> (int \<Rightarrow> int \<Rightarrow> bool) \<Rightarrow> byte list \<Rightarrow> bool" where
  "touched base n w h b S b' \<longleftrightarrow>
     length b' = length b \<and>
     (\<forall>i < length b. int i < base \<or> base + w * h * int n \<le> int i \<longrightarrow> b' ! i = b ! i) \<and>
     (\<forall>x y. 0 \<le> x \<and> x < w \<and> 0 \<le> y \<and> y < h \<and> \<not> S x y \<longrightarrow> px_view base n w b' x y = px_view base n w b x y)"

lemma touched_refl: "touched base n w h b S b"
  by (simp add: touched_def)

lemma touched_trans:
  "touched base n w h b S b' \<Longrightarrow> touched base n w h b' S b'' \<Longrightarrow> touched base n w h b S b''"
  by (auto simp: touched_def)

lemma touched_mono:
  "touched base n w h b S b' \<Longrightarrow> (\<And>x y. S x y \<Longrightarrow> T x y) \<Longrightarrow> touched base n w h b T b'"
  unfolding touched_def by blast

text \<open>The same for an update and a colour that depend on the position.\<close>

lemma put_px_pen_law:
  assumes "\<And>x y. n \<le> length (pen x y)"
  shows "pixel_law (\<lambda>x y. put_px (f x y) base n w (pen x y) x y) w h (px_view base n w)
     (\<lambda>x y p. map (\<lambda>k. f x y (p ! k) (pen x y ! k)) [0..<n]) (image_ok base n w h pen0 orig)"
proof -
  have "\<exists>b'. put_px (f x y) base n w (pen x y) x y b = Some b' \<and> image_ok base n w h pen0 orig b' \<and>
      (\<forall>u v. 0 \<le> u \<and> u < w \<and> 0 \<le> v \<and> v < h \<longrightarrow> px_view base n w b' u v =
         (if u = x \<and> v = y then map (\<lambda>k. f x y (px_view base n w b x y ! k) (pen x y ! k)) [0..<n]
          else px_view base n w b u v))"
    if xy: "0 \<le> x \<and> x < w \<and> 0 \<le> y \<and> y < h \<and> image_ok base n w h pen0 orig b" for x y b
  proof -
    have "image_ok base n w h (pen x y) orig b" using xy assms[of x y] by (auto simp: image_ok_def)
    then obtain b' where b': "put_px (f x y) base n w (pen x y) x y b = Some b'" "image_ok base n w h (pen x y) orig b'"
      "\<forall>u v. 0 \<le> u \<and> u < w \<and> 0 \<le> v \<and> v < h \<longrightarrow> px_view base n w b' u v =
         (if u = x \<and> v = y then map (\<lambda>k. f x y (px_view base n w b x y ! k) (pen x y ! k)) [0..<n]
          else px_view base n w b u v)"
      using put_px_law[of "f x y" base n w "pen x y" h orig, unfolded pixel_law_def, THEN spec, THEN spec, THEN spec, THEN mp, of x y b]
        xy by blast
    moreover have "image_ok base n w h pen0 orig b'" using b'(2) xy by (auto simp: image_ok_def)
    ultimately show ?thesis by blast
  qed
  then show ?thesis unfolding pixel_law_def by blast
qed

lemma put_px_at_law:
  "pixel_law (\<lambda>x y. put_px (f x y) base n w pen x y) w h (px_view base n w)
     (\<lambda>x y p. map (\<lambda>k. f x y (p ! k) (pen ! k)) [0..<n]) (image_ok base n w h pen orig)"
proof (cases "n \<le> length pen")
  case True
  then show ?thesis using put_px_pen_law[of n "\<lambda>_ _. pen" f base w h pen orig] by simp
qed (auto simp: pixel_law_def image_ok_def)

text \<open>An unclipped loop is a clipped one when its range lies inside the limits.\<close>

lemma for_up_clip_loop:
  assumes "0 \<le> lo" and "hi \<le> lim"
  shows "for_up (\<lambda>i s. map_option Nxt (body i s)) lo hi s = clip_loop (\<lambda>i. i < hi) lim body lo s"
  using assms
proof (induction "nat (hi - lo)" arbitrary: lo s)
  case 0
  then show ?case by (simp add: for_up_done clip_loop.simps)
next
  case (Suc m)
  have "for_up (\<lambda>i s. map_option Nxt (body i s)) (lo + 1) hi t = clip_loop (\<lambda>i. i < hi) lim body (lo + 1) t" for t
    by (rule Suc.hyps(1)) (use Suc in auto)
  then show ?case using Suc.hyps(2) Suc.prems
    by (subst clip_loop.simps) (auto simp: for_up_step split: option.splits)
qed

section \<open>The interface\<close>

text \<open>
  A canvas: a pixel operation that keeps its contract.  The client is a drawing routine that
  sweeps clipped rectangles, row by row or column by column, with a condition on each pixel.
\<close>

locale canvas =
  fixes op :: "int \<Rightarrow> int \<Rightarrow> 'b \<Rightarrow> 'b option" and w h :: int
    and view :: "'b \<Rightarrow> int \<Rightarrow> int \<Rightarrow> 'p" and step :: "int \<Rightarrow> int \<Rightarrow> 'p \<Rightarrow> 'p"
    and ok :: "'b \<Rightarrow> bool"
  assumes law: "pixel_law op w h view step ok"
begin

lemma rows_if:
  assumes "ok b" and "down_closed cx" and "down_closed cy"
  shows "\<exists>b'. clip_loop cy h (\<lambda>y. clip_loop cx w (\<lambda>x b. if c x y then op x y b else Some b) x0) y0 b = Some b' \<and>
    ok b' \<and> (\<forall>u v. 0 \<le> u \<and> u < w \<and> 0 \<le> v \<and> v < h \<longrightarrow>
       view b' u v = (if x0 \<le> u \<and> cx u \<and> y0 \<le> v \<and> cy v \<and> c u v then step u v (view b u v) else view b u v))"
  using sweep[OF pixel_law_swap[OF pixel_law_if[OF law, of c]] assms(1,3,2), of x0 y0]
  by (auto 0 3 split: if_splits)

lemma rows:
  assumes "ok b"
  shows "\<exists>b'. clip_loop (\<lambda>y. y < y1) h (\<lambda>y. clip_loop (\<lambda>x. x < x1) w (\<lambda>x. op x y) x0) y0 b = Some b' \<and>
    ok b' \<and> (\<forall>u v. 0 \<le> u \<and> u < w \<and> 0 \<le> v \<and> v < h \<longrightarrow>
       view b' u v = (if x0 \<le> u \<and> u < x1 \<and> y0 \<le> v \<and> v < y1 then step u v (view b u v) else view b u v))"
  using rows_if[OF assms down_closed_less down_closed_less, of y1 x1 "\<lambda>_ _. True" x0 y0] by simp

lemma columns:
  assumes "ok b"
  shows "\<exists>b'. clip_loop (\<lambda>x. x < x1) w (\<lambda>x. clip_loop (\<lambda>y. y < y1) h (op x) y0) x0 b = Some b' \<and>
    ok b' \<and> (\<forall>u v. 0 \<le> u \<and> u < w \<and> 0 \<le> v \<and> v < h \<longrightarrow>
       view b' u v = (if x0 \<le> u \<and> u < x1 \<and> y0 \<le> v \<and> v < y1 then step u v (view b u v) else view b u v))"
  using sweep[OF law assms down_closed_less down_closed_less, of x1 y1 y0 x0] .

end

interpretation px: canvas "put_px f base n w pen" w h "px_view base n w"
    "\<lambda>_ _ p. map (\<lambda>k. f (p ! k) (pen ! k)) [0..<n]" "image_ok base n w h pen orig"
  for f base n w pen h orig
  by unfold_locales (rule put_px_law)

end
