(* ===== verification/Image_Drawing.thy ===== *)
theory Image_Drawing
  imports Canvas CFloat
begin

text \<open>
  \<^verbatim>\<open>utils/image_drawing.c\<close>: rectangles, circles, lines, text and images drawn into byte
  buffers of one to four channels and into the two planes of YUV420SP.  The four variants of every
  routine differ in the number of channels only (the circles also in where the outline starts), so
  each is an instance of one body with the channel count \<open>n\<close>.  A plane is addressed by the offset
  \<open>base\<close> of its first byte in the buffer, and a colour is the list of its bytes in memory order.
\<close>

unbundle bit_operations_syntax

section \<open>Images and colours\<close>

datatype image_format =
    IMAGE_FORMAT_GRAY8 | IMAGE_FORMAT_RGB888 | IMAGE_FORMAT_RGBA8888
  | IMAGE_FORMAT_YUV420SP_NV21 | IMAGE_FORMAT_YUV420SP_NV12

record image_buffer =
  width :: int
  height :: int
  width_stride :: int
  height_stride :: int
  format :: image_format
  virt_addr :: "byte list"
  buf_size :: int
  fd :: int

text \<open>Byte \<open>k\<close> of a 32-bit value in memory (the target is little-endian).\<close>

definition byte_of :: "nat \<Rightarrow> 32 word \<Rightarrow> byte" where
  "byte_of k c = ucast (drop_bit (8 * k) c)"

text \<open>
  \<open>convert_color\<close>: plain \<open>char\<close> is unsigned on the target, the products are computed in
  double and converted to \<open>unsigned char\<close>; a value below -1 or above 255 there is undefined.
\<close>

definition luma :: "int \<Rightarrow> int \<Rightarrow> int \<Rightarrow> fl" where
  "luma r g b =
     fl_add rnd64 (fl_add rnd64 (fl_mul rnd64 (rnd64 (299/1000)) (i2d r)) (fl_mul rnd64 (rnd64 (587/1000)) (i2d g)))
       (fl_mul rnd64 (rnd64 (114/1000)) (i2d b))"

definition convert_color :: "32 word \<Rightarrow> image_format \<Rightarrow> byte list option" where
  "convert_color src_color dst_fmt =
     (let r = byte_of 2 src_color; g = byte_of 1 src_color; b = byte_of 0 src_color; a = byte_of 3 src_color;
          chroma = (\<lambda>k c y. f2u8 (fl_mul rnd64 (rnd64 k) (i2d (uint c - y))))
      in case dst_fmt of
           IMAGE_FORMAT_GRAY8 \<Rightarrow> Some [a, 0, 0, 0]
         | IMAGE_FORMAT_RGB888 \<Rightarrow> Some [r, g, b, 0]
         | IMAGE_FORMAT_RGBA8888 \<Rightarrow> Some [r, g, b, a]
         | IMAGE_FORMAT_YUV420SP_NV12 \<Rightarrow> do {
             y \<leftarrow> f2u8 (luma (uint r) (uint g) (uint b));
             u \<leftarrow> chroma (492/1000) b y;
             v \<leftarrow> chroma (877/1000) r y;
             Some [word_of_int y, word_of_int u, word_of_int v, 0]
           }
         | IMAGE_FORMAT_YUV420SP_NV21 \<Rightarrow> do {
             y \<leftarrow> f2u8 (luma (uint r) (uint g) (uint b));
             v \<leftarrow> chroma (877/1000) r y;
             u \<leftarrow> chroma (492/1000) b y;
             Some [word_of_int y, word_of_int v, word_of_int u, 0]
           })"

text \<open>Assigning a pixel its colour.\<close>

abbreviation paint :: "int \<Rightarrow> nat \<Rightarrow> int \<Rightarrow> byte list \<Rightarrow> int \<Rightarrow> int \<Rightarrow> byte list \<Rightarrow> byte list option" where
  "paint \<equiv> put_px (\<lambda>old c. c)"

section \<open>Rectangles\<close>

text \<open>The four kinds of loop nest: rows from \<open>y0\<close> below \<open>y1\<close>, or columns.\<close>

definition fill_rows ::
    "int \<Rightarrow> nat \<Rightarrow> int \<Rightarrow> int \<Rightarrow> byte list \<Rightarrow> int \<Rightarrow> int \<Rightarrow> int \<Rightarrow> int \<Rightarrow> byte list \<Rightarrow> byte list option" where
  "fill_rows base n w h pen_color x0 x1 y0 y1 pixels =
     clip_loop (\<lambda>y. y < y1) h (\<lambda>y. clip_loop (\<lambda>x. x < x1) w (\<lambda>x. paint base n w pen_color x y) x0) y0 pixels"

definition fill_columns ::
    "int \<Rightarrow> nat \<Rightarrow> int \<Rightarrow> int \<Rightarrow> byte list \<Rightarrow> int \<Rightarrow> int \<Rightarrow> int \<Rightarrow> int \<Rightarrow> byte list \<Rightarrow> byte list option" where
  "fill_columns base n w h pen_color x0 x1 y0 y1 pixels =
     clip_loop (\<lambda>x. x < x1) w (\<lambda>x. clip_loop (\<lambda>y. y < y1) h (paint base n w pen_color x) y0) x0 pixels"

definition draw_rectangle_cn ::
    "nat \<Rightarrow> int \<Rightarrow> int \<Rightarrow> int \<Rightarrow> int \<Rightarrow> int \<Rightarrow> int \<Rightarrow> int \<Rightarrow> byte list \<Rightarrow> int \<Rightarrow> byte list \<Rightarrow> byte list option" where
  "draw_rectangle_cn n base w h rx ry rw rh pen_color thickness pixels =
     (if thickness = -1 then fill_rows base n w h pen_color rx (rx + rw) ry (ry + rh) pixels
      else
        (let t0 = thickness sdiv 2; t1 = thickness - t0
         in do {
           p1 \<leftarrow> fill_rows base n w h pen_color (rx - t0) (rx + rw + t1) (ry - t0) (ry + t1) pixels;
           p2 \<leftarrow> fill_rows base n w h pen_color (rx - t0) (rx + rw + t1) (ry + rh - t0) (ry + rh + t1) p1;
           p3 \<leftarrow> fill_columns base n w h pen_color (rx - t0) (rx + t1) (ry + t1) (ry + rh - t0) p2;
           fill_columns base n w h pen_color (rx + rw - t0) (rx + rw + t1) (ry + t1) (ry + rh - t0) p3
         }))"

definition draw_rectangle_c1 where "draw_rectangle_c1 = draw_rectangle_cn 1"
definition draw_rectangle_c2 where "draw_rectangle_c2 = draw_rectangle_cn 2"
definition draw_rectangle_c3 where "draw_rectangle_c3 = draw_rectangle_cn 3 0"
definition draw_rectangle_c4 where "draw_rectangle_c4 = draw_rectangle_cn 4 0"

text \<open>The colour of the two planes, and the thickness on the half-size chroma plane.\<close>

definition thickness_uv :: "int \<Rightarrow> int" where
  "thickness_uv thickness = (if thickness = -1 then thickness else max (thickness sdiv 2) 1)"

definition pen_y :: "byte list \<Rightarrow> byte list" where "pen_y pen_color = take 1 pen_color"
definition pen_uv :: "byte list \<Rightarrow> byte list" where "pen_uv pen_color = take 2 (drop 1 pen_color)"

definition draw_rectangle_yuv420sp ::
    "int \<Rightarrow> int \<Rightarrow> int \<Rightarrow> int \<Rightarrow> int \<Rightarrow> int \<Rightarrow> byte list \<Rightarrow> int \<Rightarrow> byte list \<Rightarrow> byte list option" where
  "draw_rectangle_yuv420sp w h rx ry rw rh pen_color thickness yuv420sp =
     do {
       p \<leftarrow> draw_rectangle_c1 0 w h rx ry rw rh (pen_y pen_color) thickness yuv420sp;
       draw_rectangle_c2 (w * h) (w sdiv 2) (h sdiv 2) (rx sdiv 2) (ry sdiv 2) (rw sdiv 2) (rh sdiv 2)
         (pen_uv pen_color) (thickness_uv thickness) p
     }"

section \<open>Circles\<close>

definition distance_lessequal :: "int \<Rightarrow> int \<Rightarrow> int \<Rightarrow> int \<Rightarrow> fl \<Rightarrow> bool" where
  "distance_lessequal x0 y0 x1 y1 r =
     (let dx = x0 - x1; dy = y0 - y1; q = dx * dx + dy * dy in fl_le (i2f q) (fl_mul rnd32 r r))"

definition distance_inrange :: "int \<Rightarrow> int \<Rightarrow> int \<Rightarrow> int \<Rightarrow> fl \<Rightarrow> fl \<Rightarrow> bool" where
  "distance_inrange x0 y0 x1 y1 r0 r1 =
     (let dx = x0 - x1; dy = y0 - y1; q = dx * dx + dy * dy
      in fl_le (fl_mul rnd32 r0 r0) (i2f q) \<and> fl_less (i2f q) (fl_mul rnd32 r1 r1))"

text \<open>
  \<open>const float t0 = thickness / 2.f, t1 = thickness - t0\<close>; loop bounds \<open>int y = lo - t0\<close> and
  \<open>y < hi + t1\<close> in float.
\<close>

definition half_t0 :: "int \<Rightarrow> fl" where
  "half_t0 thickness = fl_div rnd32 (i2f thickness) (Fin 2)"

definition half_t1 :: "int \<Rightarrow> fl" where
  "half_t1 thickness = fl_sub rnd32 (i2f thickness) (half_t0 thickness)"

definition loop_from :: "int \<Rightarrow> int \<Rightarrow> int option" where
  "loop_from lo thickness = f2i (fl_sub rnd32 (i2f lo) (half_t0 thickness))"

definition loop_below :: "int \<Rightarrow> int \<Rightarrow> int \<Rightarrow> bool" where
  "loop_below hi thickness y = fl_less (i2f y) (fl_add rnd32 (i2f hi) (half_t1 thickness))"

text \<open>
  \<open>off\<close> is 1 in the one- and four-channel versions, whose outline loops start at
  \<open>radius - 1\<close>, and 0 in the others.
\<close>

definition draw_circle_cn ::
    "int \<Rightarrow> nat \<Rightarrow> int \<Rightarrow> int \<Rightarrow> int \<Rightarrow> int \<Rightarrow> int \<Rightarrow> int \<Rightarrow> byte list \<Rightarrow> int \<Rightarrow> byte list \<Rightarrow> byte list option" where
  "draw_circle_cn off n base w h cx cy radius pen_color thickness pixels =
     (if thickness = -1 then
        clip_loop (\<lambda>y. y < cy + radius) h (\<lambda>y.
          clip_loop (\<lambda>x. x < cx + radius) w (\<lambda>x px.
            if distance_lessequal x y cx cy (i2f radius) then paint base n w pen_color x y px else Some px)
            (cx - (radius - 1)))
          (cy - (radius - 1)) pixels
      else do {
        y0 \<leftarrow> loop_from (cy - (radius - off)) thickness;
        x0 \<leftarrow> loop_from (cx - (radius - off)) thickness;
        clip_loop (loop_below (cy + radius) thickness) h (\<lambda>y.
          clip_loop (loop_below (cx + radius) thickness) w (\<lambda>x px.
            if distance_inrange x y cx cy (fl_sub rnd32 (i2f radius) (half_t0 thickness))
                 (fl_add rnd32 (i2f radius) (half_t1 thickness))
            then paint base n w pen_color x y px else Some px) x0) y0 pixels
      })"

definition draw_circle_c1 where "draw_circle_c1 = draw_circle_cn 1 1"
definition draw_circle_c2 where "draw_circle_c2 = draw_circle_cn 0 2"
definition draw_circle_c3 where "draw_circle_c3 = draw_circle_cn 0 3 0"
definition draw_circle_c4 where "draw_circle_c4 = draw_circle_cn 1 4 0"

definition draw_circle_yuv420sp ::
    "int \<Rightarrow> int \<Rightarrow> int \<Rightarrow> int \<Rightarrow> int \<Rightarrow> byte list \<Rightarrow> int \<Rightarrow> byte list \<Rightarrow> byte list option" where
  "draw_circle_yuv420sp w h cx cy radius pen_color thickness yuv420sp =
     do {
       p \<leftarrow> draw_circle_c1 0 w h cx cy radius (pen_y pen_color) thickness yuv420sp;
       draw_circle_c2 (w * h) (w sdiv 2) (h sdiv 2) (cx sdiv 2) (cy sdiv 2) (radius sdiv 2)
         (pen_uv pen_color) (thickness_uv thickness) p
     }"

section \<open>Lines\<close>

definition distance_lessthan :: "int \<Rightarrow> int \<Rightarrow> int \<Rightarrow> int \<Rightarrow> int \<Rightarrow> int \<Rightarrow> fl \<Rightarrow> bool" where
  "distance_lessthan x y x0 y0 x1 y1 t =
     (let dx01 = x1 - x0; dy01 = y1 - y0; dx0 = x - x0; dy0 = y - y0;
          r = fl_div rnd32 (i2f (dx0 * dx01 + dy0 * dy01)) (i2f (dx01 * dx01 + dy01 * dy01))
      in if fl_less r (Fin 0) \<or> fl_less (Fin 1) r then False
         else
           (let px = fl_add rnd32 (i2f x0) (fl_mul rnd32 (i2f dx01) r);
                py = fl_add rnd32 (i2f y0) (fl_mul rnd32 (i2f dy01) r);
                dx = fl_sub rnd32 (i2f x) px;
                dy = fl_sub rnd32 (i2f y) py;
                p = fl_add rnd32 (fl_mul rnd32 dx dx) (fl_mul rnd32 dy dy)
            in fl_less p t))"

definition draw_line_cn ::
    "nat \<Rightarrow> int \<Rightarrow> int \<Rightarrow> int \<Rightarrow> int \<Rightarrow> int \<Rightarrow> int \<Rightarrow> int \<Rightarrow> byte list \<Rightarrow> int \<Rightarrow> byte list \<Rightarrow> byte list option" where
  "draw_line_cn n base w h x0 y0 x1 y1 pen_color thickness pixels =
     (let x_min = min x0 x1; x_max = max x0 x1; y_min = min y0 y1; y_max = max y0 y1
      in do {
        ys \<leftarrow> loop_from y_min thickness;
        xs \<leftarrow> loop_from x_min thickness;
        clip_loop (loop_below y_max thickness) h (\<lambda>y.
          clip_loop (loop_below x_max thickness) w (\<lambda>x px.
            if distance_lessthan x y x0 y0 x1 y1 (half_t1 thickness)
            then paint base n w pen_color x y px else Some px) xs) ys pixels
      })"

definition draw_line_c1 where "draw_line_c1 = draw_line_cn 1"
definition draw_line_c2 where "draw_line_c2 = draw_line_cn 2"
definition draw_line_c3 where "draw_line_c3 = draw_line_cn 3 0"
definition draw_line_c4 where "draw_line_c4 = draw_line_cn 4 0"

definition draw_line_yuv420sp ::
    "int \<Rightarrow> int \<Rightarrow> int \<Rightarrow> int \<Rightarrow> int \<Rightarrow> int \<Rightarrow> byte list \<Rightarrow> int \<Rightarrow> byte list \<Rightarrow> byte list option" where
  "draw_line_yuv420sp w h x0 y0 x1 y1 pen_color thickness yuv420sp =
     do {
       p \<leftarrow> draw_line_c1 0 w h x0 y0 x1 y1 (pen_y pen_color) thickness yuv420sp;
       draw_line_c2 (w * h) (w sdiv 2) (h sdiv 2) (x0 sdiv 2) (y0 sdiv 2) (x1 sdiv 2) (y1 sdiv 2)
         (pen_uv pen_color) (thickness_uv thickness) p
     }"

section \<open>Text\<close>

text \<open>A text is its bytes; \<open>strlen\<close> stops at the first NUL.\<close>

definition is_print :: "byte \<Rightarrow> bool" where
  "is_print ch \<longleftrightarrow> 32 \<le> ch \<and> ch \<le> 126"

definition cstr :: "byte list \<Rightarrow> byte list" where
  "cstr text = takeWhile (\<lambda>c. c \<noteq> 0) text"

text \<open>The state of the loop: the width so far, the height so far and the current line's width.\<close>

fun text_size_loop :: "byte list \<Rightarrow> int \<Rightarrow> int \<times> int \<times> int \<Rightarrow> int \<times> int \<times> int" where
  "text_size_loop [] fontpixelsize s = s"
| "text_size_loop (ch # chs) fontpixelsize (w, h, line_w) =
     text_size_loop chs fontpixelsize
       (let (w', h', line_w') = (if ch = 10 then (max w line_w, h + fontpixelsize * 2, 0) else (w, h, line_w))
        in if is_print ch then (w', h', line_w' + fontpixelsize) else (w', h', line_w'))"

definition get_text_drawing_size :: "byte list \<Rightarrow> int \<Rightarrow> int \<times> int" where
  "get_text_drawing_size text fontpixelsize =
     (case text_size_loop (cstr text) fontpixelsize (0, 0, 0) of
        (w, h, line_w) \<Rightarrow> (max w line_w, h + fontpixelsize * 2))"

text \<open>
  Bilinear resizing of one channel.  The source bytes are not negative, so the code's
  \<open>& 0xff\<close> changes nothing; the grey value is reduced to a byte by the store.
\<close>

definition bilinear_at :: "byte list \<Rightarrow> int \<Rightarrow> fl \<Rightarrow> fl \<Rightarrow> int \<Rightarrow> int \<Rightarrow> int option" where
  "bilinear_at src_pixels w x_ratio y_ratio i j =
     do {
       x \<leftarrow> f2i (fl_mul rnd32 x_ratio (i2f j));
       y \<leftarrow> f2i (fl_mul rnd32 y_ratio (i2f i));
       let x_diff = fl_sub rnd32 (fl_mul rnd32 x_ratio (i2f j)) (i2f x);
       let y_diff = fl_sub rnd32 (fl_mul rnd32 y_ratio (i2f i)) (i2f y);
       let index = y * w + x;
       a \<leftarrow> rd src_pixels index;
       b \<leftarrow> rd src_pixels (index + 1);
       c \<leftarrow> rd src_pixels (index + w);
       d \<leftarrow> rd src_pixels (index + w + 1);
       let one_x = fl_sub rnd32 (Fin 1) x_diff;
       let one_y = fl_sub rnd32 (Fin 1) y_diff;
       let ga = fl_mul rnd32 (fl_mul rnd32 (i2f (uint a)) one_x) one_y;
       let gb = fl_mul rnd32 (fl_mul rnd32 (i2f (uint b)) x_diff) one_y;
       let gc = fl_mul rnd32 (fl_mul rnd32 (i2f (uint c)) y_diff) one_x;
       let gd = fl_mul rnd32 (i2f (uint d)) (fl_mul rnd32 x_diff y_diff);
       f2i (fl_add rnd32 (fl_add rnd32 (fl_add rnd32 ga gb) gc) gd)
     }"

definition resize_bilinear_c1 ::
    "byte list \<Rightarrow> int \<Rightarrow> int \<Rightarrow> byte list \<Rightarrow> int \<Rightarrow> int \<Rightarrow> byte list option" where
  "resize_bilinear_c1 src_pixels w h dst_pixels w2 h2 =
     (let x_ratio = fl_div rnd32 (i2f (w - 1)) (i2f w2);
          y_ratio = fl_div rnd32 (i2f (h - 1)) (i2f h2)
      in map_option fst (for_up (\<lambda>i s. map_option Nxt (
           for_up (\<lambda>j (dst, offset). map_option Nxt (do {
             gray \<leftarrow> bilinear_at src_pixels w x_ratio y_ratio i j;
             dst' \<leftarrow> wr dst offset (word_of_int gray);
             Some (dst', offset + 1)
           })) 0 w2 s)) 0 h2 (dst_pixels, 0)))"

text \<open>Alpha blending of a byte: \<open>(p * (255 - alpha) + pen * alpha) / 255\<close>.\<close>

definition blend :: "byte \<Rightarrow> byte \<Rightarrow> byte \<Rightarrow> byte" where
  "blend alpha old c = of_nat ((unat old * (255 - unat alpha) + unat c * unat alpha) div 255)"

text \<open>Drawing a resized glyph at the cursor.\<close>

definition draw_glyph ::
    "nat \<Rightarrow> int \<Rightarrow> int \<Rightarrow> int \<Rightarrow> byte list \<Rightarrow> int \<Rightarrow> byte list \<Rightarrow> int \<Rightarrow> int \<Rightarrow> byte list \<Rightarrow> byte list option" where
  "draw_glyph n base w h resized_font_bitmap fontpixelsize pen_color cursor_x cursor_y pixels =
     clip_loop (\<lambda>j. j < cursor_y + fontpixelsize * 2) h (\<lambda>j.
       clip_loop (\<lambda>k. k < cursor_x + fontpixelsize) w (\<lambda>k px. do {
         alpha \<leftarrow> rd resized_font_bitmap ((j - cursor_y) * fontpixelsize + (k - cursor_x));
         put_px (blend alpha) base n w pen_color k j px
       }) cursor_x) cursor_y pixels"

text \<open>The character loop; \<open>mono_font_data\<close> is the glyph table of \<^verbatim>\<open>font.h\<close>.\<close>

fun draw_text_loop ::
    "byte list list \<Rightarrow> nat \<Rightarrow> int \<Rightarrow> int \<Rightarrow> int \<Rightarrow> int \<Rightarrow> int \<Rightarrow> byte list \<Rightarrow>
     byte list \<Rightarrow> int \<times> int \<times> byte list \<times> byte list \<Rightarrow> byte list option" where
  "draw_text_loop mono_font_data n base w h x fontpixelsize pen_color [] (cursor_x, cursor_y, bitmap, pixels) =
     Some pixels"
| "draw_text_loop mono_font_data n base w h x fontpixelsize pen_color (ch # chs) (cursor_x, cursor_y, bitmap, pixels) =
     (let (cx, cy) = (if ch = 10 then (x, cursor_y + fontpixelsize * 2) else (cursor_x, cursor_y))
      in if is_print ch then
           do {
             font_bitmap \<leftarrow> rd mono_font_data (uint ch - 32);
             bitmap' \<leftarrow> resize_bilinear_c1 font_bitmap 20 40 bitmap fontpixelsize (fontpixelsize * 2);
             pixels' \<leftarrow> draw_glyph n base w h bitmap' fontpixelsize pen_color cx cy pixels;
             draw_text_loop mono_font_data n base w h x fontpixelsize pen_color chs
               (cx + fontpixelsize, cy, bitmap', pixels')
           }
         else draw_text_loop mono_font_data n base w h x fontpixelsize pen_color chs (cx, cy, bitmap, pixels))"

text \<open>
  The glyph buffer has \<open>fontpixelsize * fontpixelsize * 2\<close> bytes; what it holds before the
  first resize is never read.
\<close>

definition draw_text_cn ::
    "nat \<Rightarrow> byte list list \<Rightarrow> int \<Rightarrow> int \<Rightarrow> int \<Rightarrow> byte list \<Rightarrow> int \<Rightarrow> int \<Rightarrow> int \<Rightarrow> byte list \<Rightarrow> byte list \<Rightarrow> byte list option" where
  "draw_text_cn n mono_font_data base w h text x y fontpixelsize pen_color pixels =
     draw_text_loop mono_font_data n base w h x fontpixelsize pen_color (cstr text)
       (x, y, replicate (nat (fontpixelsize * fontpixelsize * 2)) 0, pixels)"

definition draw_text_c1 where "draw_text_c1 = draw_text_cn 1"
definition draw_text_c2 where "draw_text_c2 = draw_text_cn 2"
definition draw_text_c3 where "draw_text_c3 font = draw_text_cn 3 font 0"
definition draw_text_c4 where "draw_text_c4 font = draw_text_cn 4 font 0"

definition draw_text_yuv420sp ::
    "byte list list \<Rightarrow> int \<Rightarrow> int \<Rightarrow> byte list \<Rightarrow> int \<Rightarrow> int \<Rightarrow> int \<Rightarrow> byte list \<Rightarrow> byte list \<Rightarrow> byte list option" where
  "draw_text_yuv420sp font w h text x y fontpixelsize pen_color yuv420sp =
     do {
       p \<leftarrow> draw_text_c1 font 0 w h text x y fontpixelsize (pen_y pen_color) yuv420sp;
       draw_text_c2 font (w * h) (w sdiv 2) (h sdiv 2) text (x sdiv 2) (y sdiv 2)
         (max (fontpixelsize sdiv 2) 1) (pen_uv pen_color) p
     }"

section \<open>Images\<close>

text \<open>\<open>soff\<close> is the offset of the plane in the image to draw.\<close>

definition draw_image_cn ::
    "nat \<Rightarrow> int \<Rightarrow> int \<Rightarrow> byte list \<Rightarrow> int \<Rightarrow> int \<Rightarrow> int \<Rightarrow> int \<Rightarrow> int \<Rightarrow> byte list \<Rightarrow> byte list option" where
  "draw_image_cn n w h draw_img soff x y rw rh pixels =
     for_up (\<lambda>i px. map_option Nxt
       (memcpy_at px (((y + i) * w + x) * int n) (rw * int n) draw_img (soff + i * rw * int n))) 0 rh pixels"

definition draw_image_c1 where "draw_image_c1 = draw_image_cn 1"
definition draw_image_c2 where "draw_image_c2 = draw_image_cn 2"
definition draw_image_c3 where "draw_image_c3 w h img = draw_image_cn 3 w h img 0"
definition draw_image_c4 where "draw_image_c4 w h img = draw_image_cn 4 w h img 0"

text \<open>The chroma call gets \<open>pixels\<close> again, not the chroma plane, and the full width.\<close>

definition draw_image_yuv420sp ::
    "int \<Rightarrow> int \<Rightarrow> byte list \<Rightarrow> int \<Rightarrow> int \<Rightarrow> int \<Rightarrow> int \<Rightarrow> byte list \<Rightarrow> byte list option" where
  "draw_image_yuv420sp w h draw_img x y rw rh pixels =
     do {
       p \<leftarrow> draw_image_c1 w h draw_img 0 x y rw rh pixels;
       draw_image_c2 w (h sdiv 2) draw_img (rw * rh) x (y sdiv 2) rw (rh sdiv 2) p
     }"

section \<open>The public routines\<close>

text \<open>Each picks the routine of the image's format; other formats only print a message.\<close>

definition set_pixels :: "image_buffer \<Rightarrow> byte list option \<Rightarrow> image_buffer option" where
  "set_pixels img_buf px = map_option (\<lambda>p. img_buf\<lparr>virt_addr := p\<rparr>) px"

definition draw_rectangle ::
    "image_buffer \<Rightarrow> int \<Rightarrow> int \<Rightarrow> int \<Rightarrow> int \<Rightarrow> 32 word \<Rightarrow> int \<Rightarrow> image_buffer option" where
  "draw_rectangle img_buf rx ry rw rh color thickness =
     do {
       c \<leftarrow> convert_color color (format img_buf);
       set_pixels img_buf (case format img_buf of
           IMAGE_FORMAT_RGB888 \<Rightarrow> draw_rectangle_c3 (width img_buf) (height img_buf) rx ry rw rh c thickness (virt_addr img_buf)
         | IMAGE_FORMAT_RGBA8888 \<Rightarrow> draw_rectangle_c4 (width img_buf) (height img_buf) rx ry rw rh c thickness (virt_addr img_buf)
         | IMAGE_FORMAT_YUV420SP_NV12 \<Rightarrow> draw_rectangle_yuv420sp (width img_buf) (height img_buf) rx ry rw rh c thickness (virt_addr img_buf)
         | IMAGE_FORMAT_YUV420SP_NV21 \<Rightarrow> draw_rectangle_yuv420sp (width img_buf) (height img_buf) rx ry rw rh c thickness (virt_addr img_buf)
         | IMAGE_FORMAT_GRAY8 \<Rightarrow> Some (virt_addr img_buf))
     }"

definition draw_line ::
    "image_buffer \<Rightarrow> int \<Rightarrow> int \<Rightarrow> int \<Rightarrow> int \<Rightarrow> 32 word \<Rightarrow> int \<Rightarrow> image_buffer option" where
  "draw_line img_buf x0 y0 x1 y1 color thickness =
     do {
       c \<leftarrow> convert_color color (format img_buf);
       set_pixels img_buf (case format img_buf of
           IMAGE_FORMAT_RGB888 \<Rightarrow> draw_line_c3 (width img_buf) (height img_buf) x0 y0 x1 y1 c thickness (virt_addr img_buf)
         | IMAGE_FORMAT_RGBA8888 \<Rightarrow> draw_line_c4 (width img_buf) (height img_buf) x0 y0 x1 y1 c thickness (virt_addr img_buf)
         | IMAGE_FORMAT_YUV420SP_NV12 \<Rightarrow> draw_line_yuv420sp (width img_buf) (height img_buf) x0 y0 x1 y1 c thickness (virt_addr img_buf)
         | IMAGE_FORMAT_YUV420SP_NV21 \<Rightarrow> draw_line_yuv420sp (width img_buf) (height img_buf) x0 y0 x1 y1 c thickness (virt_addr img_buf)
         | IMAGE_FORMAT_GRAY8 \<Rightarrow> Some (virt_addr img_buf))
     }"

definition draw_text ::
    "byte list list \<Rightarrow> image_buffer \<Rightarrow> byte list \<Rightarrow> int \<Rightarrow> int \<Rightarrow> 32 word \<Rightarrow> int \<Rightarrow> image_buffer option" where
  "draw_text font img_buf text x y color fontsize =
     do {
       c \<leftarrow> convert_color color (format img_buf);
       set_pixels img_buf (case format img_buf of
           IMAGE_FORMAT_RGB888 \<Rightarrow> draw_text_c3 font (width img_buf) (height img_buf) text x y fontsize c (virt_addr img_buf)
         | IMAGE_FORMAT_RGBA8888 \<Rightarrow> draw_text_c4 font (width img_buf) (height img_buf) text x y fontsize c (virt_addr img_buf)
         | IMAGE_FORMAT_YUV420SP_NV12 \<Rightarrow> draw_text_yuv420sp font (width img_buf) (height img_buf) text x y fontsize c (virt_addr img_buf)
         | IMAGE_FORMAT_YUV420SP_NV21 \<Rightarrow> draw_text_yuv420sp font (width img_buf) (height img_buf) text x y fontsize c (virt_addr img_buf)
         | IMAGE_FORMAT_GRAY8 \<Rightarrow> Some (virt_addr img_buf))
     }"

definition draw_circle ::
    "image_buffer \<Rightarrow> int \<Rightarrow> int \<Rightarrow> int \<Rightarrow> 32 word \<Rightarrow> int \<Rightarrow> image_buffer option" where
  "draw_circle img_buf cx cy radius color thickness =
     do {
       c \<leftarrow> convert_color color (format img_buf);
       set_pixels img_buf (case format img_buf of
           IMAGE_FORMAT_RGB888 \<Rightarrow> draw_circle_c3 (width img_buf) (height img_buf) cx cy radius c thickness (virt_addr img_buf)
         | IMAGE_FORMAT_RGBA8888 \<Rightarrow> draw_circle_c4 (width img_buf) (height img_buf) cx cy radius c thickness (virt_addr img_buf)
         | IMAGE_FORMAT_YUV420SP_NV12 \<Rightarrow> draw_circle_yuv420sp (width img_buf) (height img_buf) cx cy radius c thickness (virt_addr img_buf)
         | IMAGE_FORMAT_YUV420SP_NV21 \<Rightarrow> draw_circle_yuv420sp (width img_buf) (height img_buf) cx cy radius c thickness (virt_addr img_buf)
         | IMAGE_FORMAT_GRAY8 \<Rightarrow> Some (virt_addr img_buf))
     }"

definition draw_image ::
    "image_buffer \<Rightarrow> byte list \<Rightarrow> int \<Rightarrow> int \<Rightarrow> int \<Rightarrow> int \<Rightarrow> image_buffer option" where
  "draw_image img_buf draw_img x y rw rh =
     set_pixels img_buf (case format img_buf of
         IMAGE_FORMAT_RGB888 \<Rightarrow> draw_image_c3 (width img_buf) (height img_buf) draw_img x y rw rh (virt_addr img_buf)
       | IMAGE_FORMAT_RGBA8888 \<Rightarrow> draw_image_c4 (width img_buf) (height img_buf) draw_img x y rw rh (virt_addr img_buf)
       | IMAGE_FORMAT_YUV420SP_NV12 \<Rightarrow> draw_image_yuv420sp (width img_buf) (height img_buf) draw_img x y rw rh (virt_addr img_buf)
       | IMAGE_FORMAT_YUV420SP_NV21 \<Rightarrow> draw_image_yuv420sp (width img_buf) (height img_buf) draw_img x y rw rh (virt_addr img_buf)
       | IMAGE_FORMAT_GRAY8 \<Rightarrow> Some (virt_addr img_buf))"

section \<open>What the shapes paint\<close>

text \<open>
  \<open>b'\<close> is \<open>b\<close> with the pixels of the image that satisfy \<open>S\<close> set to the colour \<open>pen\<close>; every
  byte outside the image is as it was.
\<close>

definition painted ::
    "int \<Rightarrow> nat \<Rightarrow> int \<Rightarrow> int \<Rightarrow> byte list \<Rightarrow> byte list \<Rightarrow> (int \<Rightarrow> int \<Rightarrow> bool) \<Rightarrow> byte list \<Rightarrow> bool" where
  "painted base n w h pen b S b' \<longleftrightarrow>
     length b' = length b \<and>
     (\<forall>i < length b. int i < base \<or> base + w * h * int n \<le> int i \<longrightarrow> b' ! i = b ! i) \<and>
     (\<forall>x y. 0 \<le> x \<and> x < w \<and> 0 \<le> y \<and> y < h \<longrightarrow>
        px_view base n w b' x y = (if S x y then take n pen else px_view base n w b x y))"

definition room :: "int \<Rightarrow> nat \<Rightarrow> int \<Rightarrow> int \<Rightarrow> byte list \<Rightarrow> byte list \<Rightarrow> bool" where
  "room base n w h pen b \<longleftrightarrow> 0 \<le> base \<and> n \<le> length pen \<and> base + w * h * int n \<le> int (length b)"

lemma painted_trans:
  assumes "painted base n w h pen b S b'" and "painted base n w h pen b' T b''"
  shows "painted base n w h pen b (\<lambda>x y. S x y \<or> T x y) b''"
  using assms by (auto simp: painted_def)

lemma painted_cong:
  assumes "painted base n w h pen b S b'"
    and "\<And>x y. 0 \<le> x \<Longrightarrow> x < w \<Longrightarrow> 0 \<le> y \<Longrightarrow> y < h \<Longrightarrow> S x y = T x y"
  shows "painted base n w h pen b T b'"
  using assms by (auto simp: painted_def)

lemma painted_room: "painted base n w h pen b S b' \<Longrightarrow> room base n w h pen b \<Longrightarrow> room base n w h pen b'"
  by (simp add: painted_def room_def)

lemma room_image_ok: "room base n w h pen b \<Longrightarrow> image_ok base n w h pen b b"
  by (auto simp: room_def image_ok_def)

lemma map_nth_take: "n \<le> length xs \<Longrightarrow> map (\<lambda>k. xs ! k) [0..<n] = take n xs"
  by (rule nth_equalityI) auto

text \<open>A clipped double loop with a condition on the pixel, as the circles and lines use it.\<close>

lemma paint_rows_if:
  assumes "room base n w h pen b" and "down_closed cx" and "down_closed cy"
  shows "\<exists>b'. clip_loop cy h (\<lambda>y. clip_loop cx w
      (\<lambda>x b. if c x y then paint base n w pen x y b else Some b) x0) y0 b = Some b' \<and>
    painted base n w h pen b (\<lambda>x y. x0 \<le> x \<and> cx x \<and> y0 \<le> y \<and> cy y \<and> c x y) b'"
proof -
  have n: "n \<le> length pen" using assms(1) by (simp add: room_def)
  show ?thesis
    using px.rows_if[OF room_image_ok[OF assms(1)] assms(2,3), where f = "\<lambda>old c. c" and c = c and ?x0.0 = x0 and ?y0.0 = y0]
      map_nth_take[OF n]
    by (auto simp: painted_def image_ok_def)
qed

lemma fill_rows_painted:
  assumes "room base n w h pen b"
  shows "\<exists>b'. fill_rows base n w h pen x0 x1 y0 y1 b = Some b' \<and>
    painted base n w h pen b (\<lambda>x y. x0 \<le> x \<and> x < x1 \<and> y0 \<le> y \<and> y < y1) b'"
  using paint_rows_if[OF assms down_closed_less down_closed_less,
      where c = "\<lambda>_ _. True" and ?x0.0 = x0 and ?y0.0 = y0]
  by (simp add: fill_rows_def)

lemma fill_columns_painted:
  assumes "room base n w h pen b"
  shows "\<exists>b'. fill_columns base n w h pen x0 x1 y0 y1 b = Some b' \<and>
    painted base n w h pen b (\<lambda>x y. x0 \<le> x \<and> x < x1 \<and> y0 \<le> y \<and> y < y1) b'"
proof -
  have n: "n \<le> length pen" using assms(1) by (simp add: room_def)
  show ?thesis
    using px.columns[OF room_image_ok[OF assms(1)], where f = "\<lambda>old c. c", of x1 y1 y0 x0] map_nth_take[OF n]
    by (auto simp: painted_def image_ok_def fill_columns_def)
qed

subsection \<open>Rectangles\<close>

text \<open>
  The pixels of a rectangle: all of it when the thickness is -1, otherwise a frame, the rectangle
  enlarged by the half thickness without the one shrunk by it.
\<close>

definition in_box :: "int \<Rightarrow> int \<Rightarrow> int \<Rightarrow> int \<Rightarrow> int \<Rightarrow> int \<Rightarrow> bool" where
  "in_box x0 x1 y0 y1 x y \<longleftrightarrow> x0 \<le> x \<and> x < x1 \<and> y0 \<le> y \<and> y < y1"

definition on_rectangle :: "int \<Rightarrow> int \<Rightarrow> int \<Rightarrow> int \<Rightarrow> int \<Rightarrow> int \<Rightarrow> int \<Rightarrow> bool" where
  "on_rectangle rx ry rw rh thickness x y =
     (if thickness = -1 then in_box rx (rx + rw) ry (ry + rh) x y
      else (let t0 = thickness sdiv 2; t1 = thickness - t0
            in in_box (rx - t0) (rx + rw + t1) (ry - t0) (ry + rh + t1) x y \<and>
               \<not> in_box (rx + t1) (rx + rw - t0) (ry + t1) (ry + rh - t0) x y))"

lemma draw_rectangle_cn_painted:
  assumes r: "room base n w h pen b" and "0 \<le> rw" and "0 \<le> rh"
  shows "\<exists>b'. draw_rectangle_cn n base w h rx ry rw rh pen thickness b = Some b' \<and>
    painted base n w h pen b (on_rectangle rx ry rw rh thickness) b'"
proof (cases "thickness = -1")
  case True
  then show ?thesis
    using fill_rows_painted[OF r, of rx "rx + rw" ry "ry + rh"] painted_cong
    by (simp add: draw_rectangle_cn_def on_rectangle_def[abs_def] in_box_def)
next
  case False
  let ?t0 = "thickness sdiv 2" and ?t1 = "thickness - thickness sdiv 2"
  obtain p1 where p1: "fill_rows base n w h pen (rx - ?t0) (rx + rw + ?t1) (ry - ?t0) (ry + ?t1) b = Some p1"
    "painted base n w h pen b (\<lambda>x y. rx - ?t0 \<le> x \<and> x < rx + rw + ?t1 \<and> ry - ?t0 \<le> y \<and> y < ry + ?t1) p1"
    using fill_rows_painted[OF r] by blast
  have r1: "room base n w h pen p1" using painted_room[OF p1(2) r] .
  obtain p2 where p2: "fill_rows base n w h pen (rx - ?t0) (rx + rw + ?t1) (ry + rh - ?t0) (ry + rh + ?t1) p1 = Some p2"
    "painted base n w h pen p1 (\<lambda>x y. rx - ?t0 \<le> x \<and> x < rx + rw + ?t1 \<and> ry + rh - ?t0 \<le> y \<and> y < ry + rh + ?t1) p2"
    using fill_rows_painted[OF r1] by blast
  have r2: "room base n w h pen p2" using painted_room[OF p2(2) r1] .
  obtain p3 where p3: "fill_columns base n w h pen (rx - ?t0) (rx + ?t1) (ry + ?t1) (ry + rh - ?t0) p2 = Some p3"
    "painted base n w h pen p2 (\<lambda>x y. rx - ?t0 \<le> x \<and> x < rx + ?t1 \<and> ry + ?t1 \<le> y \<and> y < ry + rh - ?t0) p3"
    using fill_columns_painted[OF r2] by blast
  have r3: "room base n w h pen p3" using painted_room[OF p3(2) r2] .
  obtain p4 where p4: "fill_columns base n w h pen (rx + rw - ?t0) (rx + rw + ?t1) (ry + ?t1) (ry + rh - ?t0) p3 = Some p4"
    "painted base n w h pen p3 (\<lambda>x y. rx + rw - ?t0 \<le> x \<and> x < rx + rw + ?t1 \<and> ry + ?t1 \<le> y \<and> y < ry + rh - ?t0) p4"
    using fill_columns_painted[OF r3] by blast
  have "painted base n w h pen b (on_rectangle rx ry rw rh thickness) p4"
    by (rule painted_cong[OF painted_trans[OF painted_trans[OF painted_trans[OF p1(2) p2(2)] p3(2)] p4(2)]])
      (use assms False in \<open>auto simp: on_rectangle_def in_box_def Let_def simp del: sdiv_pos\<close>)
  then show ?thesis using p1(1) p2(1) p3(1) p4(1) False
    by (simp add: draw_rectangle_cn_def Let_def del: sdiv_pos)
qed

subsection \<open>Exact float bounds\<close>

text \<open>For coordinates of moderate size the halves computed in float are exact.\<close>

lemma half_t_exact:
  assumes "\<bar>t\<bar> < 16777216"
  shows "half_t0 t = Fin (of_int t / 2)" and "half_t1 t = Fin (of_int t / 2)"
proof -
  show t0: "half_t0 t = Fin (of_int t / 2)"
    using assms by (simp add: half_t0_def i2f_exact rnd32_half)
  show "half_t1 t = Fin (of_int t / 2)"
    using assms rnd32_half[of t] unfolding half_t1_def t0 by (simp add: i2f_exact fl_sub_def)
qed

lemma trunc_half: "trunc (of_int m / 2) = m sdiv 2"
proof (cases "0 \<le> m")
  case True
  then have "\<lfloor>of_int m / 2 :: rat\<rfloor> = m div 2" using floor_divide_of_int_eq[of m 2] by simp
  then show ?thesis using True by (simp add: trunc_def)
next
  case False
  then have "\<lfloor>of_int (- m) / 2 :: rat\<rfloor> = (- m) div 2" using floor_divide_of_int_eq[of "- m" 2] by simp
  then show ?thesis using False by (simp add: trunc_def ceiling_def signed_divide_int_def)
qed

lemma loop_from_exact:
  assumes "\<bar>t\<bar> < 4000000" and "\<bar>lo\<bar> < 4000000"
  shows "loop_from lo t = Some ((2 * lo - t) sdiv 2)"
proof -
  have e: "of_int lo - of_int t / 2 = (of_int (2 * lo - t) / 2 :: rat)" by simp
  have b: "\<bar>2 * lo - t\<bar> < 16777216" "\<bar>lo\<bar> < 16777216" "\<bar>t\<bar> < 16777216" using assms by auto
  have "loop_from lo t = f2i (Fin (of_int (2 * lo - t) / 2))"
    using rnd32_half[OF b(1)] by (simp add: loop_from_def half_t_exact[OF b(3)] i2f_exact[OF b(2)] fl_sub_def e del: of_int_diff of_int_mult)
  moreover have "(2 * lo - t) sdiv 2 \<in> {- \<bar>2 * lo - t\<bar>..\<bar>2 * lo - t\<bar>}" by (rule sdiv_int_range)
  ultimately show ?thesis using b(1)
    by (simp add: f2i_def trunc_half Let_def del: of_int_diff of_int_mult)
qed

lemma half_small:
  assumes "\<bar>m\<bar> < 16777216" shows "\<bar>of_int m / 2 :: rat\<bar> < 16777215"
proof -
  have "of_int \<bar>m\<bar> < (of_int 16777216 :: rat)" using assms by (simp only: of_int_less_iff)
  then have "\<bar>of_int m :: rat\<bar> < 16777216" by simp
  then show ?thesis by linarith
qed

lemma loop_below_exact:
  assumes "\<bar>t\<bar> < 4000000" and "\<bar>hi\<bar> < 4000000"
  shows "loop_below hi t y \<longleftrightarrow> 2 * y < 2 * hi + t"
proof -
  have e: "of_int hi + of_int t / 2 = (of_int (2 * hi + t) / 2 :: rat)" by simp
  have b: "\<bar>2 * hi + t\<bar> < 16777216" "\<bar>hi\<bar> < 16777216" "\<bar>t\<bar> < 16777216" using assms by auto
  note c = half_small[OF b(1)]
  have "loop_below hi t y \<longleftrightarrow> of_int y < (of_int (2 * hi + t) / 2 :: rat)"
    unfolding i2f_less_iff[OF c, symmetric]
    using rnd32_half[OF b(1)] by (simp add: loop_below_def half_t_exact[OF b(3)] i2f_exact[OF b(2)] e del: of_int_add of_int_mult)
  also have "\<dots> \<longleftrightarrow> of_int (2 * y) < (of_int (2 * hi + t) :: rat)" by (simp add: field_simps)
  also have "\<dots> \<longleftrightarrow> 2 * y < 2 * hi + t" by (rule of_int_less_iff)
  finally show ?thesis .
qed

lemma loop_below_down: "down_closed (loop_below hi t)"
  unfolding down_closed_def
proof (intro allI impI, elim conjE)
  fix y z assume "loop_below hi t y" and "z \<le> y"
  moreover have "fl_le (i2f z) (i2f y)" using \<open>z \<le> y\<close> by (simp add: i2f_def rnd32_mono)
  ultimately show "loop_below hi t z" unfolding loop_below_def by (blast intro: fl_le_less_trans)
qed

subsection \<open>Circles\<close>

text \<open>
  A filled circle is the disc without its four extreme points; an outline is the ring between the
  radius less and plus half the thickness.
\<close>

definition on_circle :: "int \<Rightarrow> int \<Rightarrow> int \<Rightarrow> int \<Rightarrow> int \<Rightarrow> int \<Rightarrow> bool" where
  "on_circle cx cy r t x y =
     (let q = (x - cx)^2 + (y - cy)^2
      in if t = -1 then q \<le> r^2 \<and> \<bar>x - cx\<bar> < r \<and> \<bar>y - cy\<bar> < r
         else (2 * r - t)^2 \<le> 4 * q \<and> 4 * q < (2 * r + t)^2)"

lemma square_quarter:
  assumes "\<bar>m\<bar> < 4096"
  shows "fl_mul rnd32 (Fin (of_int m / 2)) (Fin (of_int m / 2)) = Fin (of_int (m^2) / 4)"
    and "\<bar>of_int (m^2) / 4 :: rat\<bar> < 16777215"
proof -
  have "\<bar>m\<bar>^2 < 4096^2" using assms by (intro power_strict_mono) auto
  then have b: "m^2 < 16777216" by simp
  have e: "of_int m / 2 * (of_int m / 2) = (of_int (m^2) / 4 :: rat)" by (simp add: power2_eq_square)
  show "fl_mul rnd32 (Fin (of_int m / 2)) (Fin (of_int m / 2)) = Fin (of_int (m^2) / 4)"
    using rnd32_quarter[of "m^2"] b unfolding fl_mul.simps e by simp
  have "of_int (m^2) < (of_int 16777216 :: rat)" using b by (simp only: of_int_less_iff)
  then show "\<bar>of_int (m^2) / 4 :: rat\<bar> < 16777215" by simp
qed

lemma distance_inrange_exact:
  assumes "0 \<le> r" "0 \<le> t" "2 * r + t < 4096"
  shows "distance_inrange x y cx cy (fl_sub rnd32 (i2f r) (half_t0 t)) (fl_add rnd32 (i2f r) (half_t1 t)) \<longleftrightarrow>
    (2 * r - t)^2 \<le> 4 * ((x - cx)^2 + (y - cy)^2) \<and> 4 * ((x - cx)^2 + (y - cy)^2) < (2 * r + t)^2"
proof -
  let ?q = "(x - cx) * (x - cx) + (y - cy) * (y - cy)"
  have quarter: "(a / 4 \<le> q \<and> q < b / 4) = (a \<le> 4 * q \<and> 4 * q < b)" for a q b :: rat by auto
  have e: "of_int r - of_int t / 2 = (of_int (2 * r - t) / 2 :: rat)" "of_int r + of_int t / 2 = (of_int (2 * r + t) / 2 :: rat)"
    by simp_all
  have b: "\<bar>2 * r - t\<bar> < 4096" "\<bar>2 * r + t\<bar> < 4096" "\<bar>r\<bar> < 16777216" "\<bar>t\<bar> < 16777216" using assms by auto
  have r01: "fl_sub rnd32 (i2f r) (half_t0 t) = Fin (of_int (2 * r - t) / 2)"
    "fl_add rnd32 (i2f r) (half_t1 t) = Fin (of_int (2 * r + t) / 2)"
    using rnd32_half[of "2 * r - t"] rnd32_half[of "2 * r + t"] b
    by (simp_all add: half_t_exact[OF b(4)] i2f_exact[OF b(3)] fl_sub_def e del: of_int_diff of_int_add of_int_mult)
  have "distance_inrange x y cx cy (fl_sub rnd32 (i2f r) (half_t0 t)) (fl_add rnd32 (i2f r) (half_t1 t)) \<longleftrightarrow>
      of_int ((2 * r - t)^2) / 4 \<le> (of_int ?q :: rat) \<and> (of_int ?q :: rat) < of_int ((2 * r + t)^2) / 4"
    unfolding distance_inrange_def Let_def r01 square_quarter(1)[OF b(1)] square_quarter(1)[OF b(2)]
      le_i2f_iff[OF square_quarter(2)[OF b(1)]] i2f_less_iff[OF square_quarter(2)[OF b(2)]] by simp
  also have "\<dots> \<longleftrightarrow> of_int ((2 * r - t)^2) \<le> (of_int (4 * ?q) :: rat) \<and> (of_int (4 * ?q) :: rat) < of_int ((2 * r + t)^2)"
    by (simp only: of_int_mult of_int_numeral quarter)
  also have "\<dots> \<longleftrightarrow> (2 * r - t)^2 \<le> 4 * ?q \<and> 4 * ?q < (2 * r + t)^2"
    by (simp only: of_int_le_iff of_int_less_iff)
  finally show ?thesis by (simp add: power2_eq_square)
qed

lemma distance_lessequal_exact:
  assumes "0 \<le> r" "r < 2048"
  shows "distance_lessequal x y cx cy (i2f r) \<longleftrightarrow> (x - cx)^2 + (y - cy)^2 \<le> r^2"
proof -
  let ?q = "(x - cx) * (x - cx) + (y - cy) * (y - cy)"
  have b: "\<bar>2 * r\<bar> < 4096" using assms by simp
  have e: "i2f r = Fin (of_int (2 * r) / 2)" using i2f_exact[of r] assms by simp
  have "distance_lessequal x y cx cy (i2f r) \<longleftrightarrow> of_int ?q \<le> (of_int ((2 * r)^2) / 4 :: rat)"
    unfolding distance_lessequal_def Let_def e square_quarter(1)[OF b] by (rule i2f_le_iff[OF square_quarter(2)[OF b]])
  also have "\<dots> \<longleftrightarrow> of_int ?q \<le> (of_int (r^2) :: rat)" by simp
  also have "\<dots> \<longleftrightarrow> ?q \<le> r^2" by (rule of_int_le_iff)
  finally show ?thesis by (simp add: power2_eq_square)
qed

lemma ring_in_loop:
  assumes "0 \<le> r" "0 \<le> t" "4 * ((u - c)^2 + d) < (2 * r + t)^2" "0 \<le> d" "0 \<le> (u::int)"
    and off: "off = 0 \<or> off = 1"
  shows "(2 * (c - (r - off)) - t) sdiv 2 \<le> u" and "2 * u < 2 * (c + r) + t"
proof -
  have "(2 * (u - c))^2 < (2 * r + t)^2" using assms(3,4) by (simp add: power2_eq_square algebra_simps)
  then have "\<bar>2 * (u - c)\<bar> < \<bar>2 * r + t\<bar>" by (simp add: abs_square_less_1 power2_less_imp_less power_strict_mono flip: abs_le_square_iff linorder_not_le)
  then have b: "2 * (u - c) < 2 * r + t" "- (2 * r + t) < 2 * (u - c)" using assms(1,2) by auto
  show "2 * u < 2 * (c + r) + t" using b(1) by simp
  let ?m = "2 * (c - (r - off)) - t"
  show "?m sdiv 2 \<le> u"
  proof (cases "0 \<le> ?m")
    case True
    have "?m \<le> 2 * u + 1" using b(2) off by auto
    then show ?thesis using True by simp
  next
    case False
    have "?m sdiv 2 \<le> 0" using False by (simp add: signed_divide_int_def pos_imp_zdiv_nonneg_iff)
    then show ?thesis using assms(5) by simp
  qed
qed

lemma draw_circle_cn_painted:
  assumes room: "room base n w h pen b" and off: "off = 0 \<or> off = 1"
    and c: "\<bar>cx\<bar> \<le> 1000000" "\<bar>cy\<bar> \<le> 1000000" and r: "0 \<le> r" "0 \<le> t \<or> t = -1" "2 * r + t < 4095"
  shows "\<exists>b'. draw_circle_cn off n base w h cx cy r pen t b = Some b' \<and>
    painted base n w h pen b (on_circle cx cy r t) b'"
proof (cases "t = -1")
  case True
  have "r < 2048" using r True by simp
  note d = distance_lessequal_exact[OF r(1) this]
  have "\<exists>b'. draw_circle_cn off n base w h cx cy r pen t b = Some b' \<and>
    painted base n w h pen b (\<lambda>x y. cx - (r - 1) \<le> x \<and> x < cx + r \<and> cy - (r - 1) \<le> y \<and> y < cy + r \<and>
       distance_lessequal x y cx cy (i2f r)) b'"
    unfolding draw_circle_cn_def if_P[OF True]
    by (rule paint_rows_if[OF room down_closed_less down_closed_less])
  then obtain b' where b': "draw_circle_cn off n base w h cx cy r pen t b = Some b'"
    "painted base n w h pen b (\<lambda>x y. cx - (r - 1) \<le> x \<and> x < cx + r \<and> cy - (r - 1) \<le> y \<and> y < cy + r \<and>
       distance_lessequal x y cx cy (i2f r)) b'" by blast
  have "painted base n w h pen b (on_circle cx cy r t) b'"
    by (rule painted_cong[OF b'(2)]) (use True in \<open>auto simp: on_circle_def d Let_def\<close>)
  then show ?thesis using b'(1) by blast
next
  case False
  then have t: "0 \<le> t" using r by simp
  have bnd: "\<bar>t\<bar> < 4000000" "\<bar>cy - (r - off)\<bar> < 4000000" "\<bar>cx - (r - off)\<bar> < 4000000"
    "\<bar>cy + r\<bar> < 4000000" "\<bar>cx + r\<bar> < 4000000"
    using r c t off by auto
  note d = distance_inrange_exact[OF r(1) t, of x y cx cy for x y]
  let ?x0 = "(2 * (cx - (r - off)) - t) sdiv 2" and ?y0 = "(2 * (cy - (r - off)) - t) sdiv 2"
  let ?S = "\<lambda>x y. ?x0 \<le> x \<and> loop_below (cx + r) t x \<and> ?y0 \<le> y \<and> loop_below (cy + r) t y \<and>
    distance_inrange x y cx cy (fl_sub rnd32 (i2f r) (half_t0 t)) (fl_add rnd32 (i2f r) (half_t1 t))"
  have "\<exists>b'. draw_circle_cn off n base w h cx cy r pen t b = Some b' \<and> painted base n w h pen b ?S b'"
    unfolding draw_circle_cn_def if_not_P[OF False] loop_from_exact[OF bnd(1,2)] loop_from_exact[OF bnd(1,3)] Option.bind.simps
    by (rule paint_rows_if[OF room loop_below_down loop_below_down])
  then obtain b' where b': "draw_circle_cn off n base w h cx cy r pen t b = Some b'"
    "painted base n w h pen b ?S b'" by blast
  have "painted base n w h pen b (on_circle cx cy r t) b'"
  proof (rule painted_cong[OF b'(2)])
    fix x y :: int assume xy: "0 \<le> x" "0 \<le> y"
    have in_x: "?x0 \<le> x \<and> 2 * x < 2 * (cx + r) + t" if "4 * ((x - cx)^2 + (y - cy)^2) < (2 * r + t)^2"
      using ring_in_loop[OF r(1) t that _ xy(1) off] by simp
    have in_y: "?y0 \<le> y \<and> 2 * y < 2 * (cy + r) + t" if "4 * ((x - cx)^2 + (y - cy)^2) < (2 * r + t)^2"
      using ring_in_loop[OF r(1) t _ _ xy(2) off, of cy "(x - cx)^2"] that by (simp add: add.commute)
    show "?S x y = on_circle cx cy r t x y"
      using in_x in_y r(3) False d unfolding loop_below_exact[OF bnd(1,4)] loop_below_exact[OF bnd(1,5)]
      by (auto simp: on_circle_def Let_def)
  qed
  then show ?thesis using b'(1) by blast
qed

subsection \<open>Lines\<close>

definition on_line :: "int \<Rightarrow> int \<Rightarrow> int \<Rightarrow> int \<Rightarrow> int \<Rightarrow> int \<Rightarrow> int \<Rightarrow> bool" where
  "on_line x0 y0 x1 y1 t x y \<longleftrightarrow>
     (2 * min x0 x1 - t) sdiv 2 \<le> x \<and> 2 * x < 2 * max x0 x1 + t \<and>
     (2 * min y0 y1 - t) sdiv 2 \<le> y \<and> 2 * y < 2 * max y0 y1 + t \<and>
     distance_lessthan x y x0 y0 x1 y1 (Fin (of_int t / 2))"

lemma draw_line_cn_painted:
  assumes room: "room base n w h pen b" and t: "\<bar>t\<bar> < 1000000"
    and c: "\<bar>x0\<bar> \<le> 1000000" "\<bar>y0\<bar> \<le> 1000000" "\<bar>x1\<bar> \<le> 1000000" "\<bar>y1\<bar> \<le> 1000000"
  shows "\<exists>b'. draw_line_cn n base w h x0 y0 x1 y1 pen t b = Some b' \<and>
    painted base n w h pen b (on_line x0 y0 x1 y1 t) b'"
proof -
  have bnd: "\<bar>t\<bar> < 4000000" "\<bar>min x0 x1\<bar> < 4000000" "\<bar>min y0 y1\<bar> < 4000000"
    "\<bar>max x0 x1\<bar> < 4000000" "\<bar>max y0 y1\<bar> < 4000000" "\<bar>t\<bar> < 16777216"
    using t c by auto
  let ?S = "\<lambda>x y. (2 * min x0 x1 - t) sdiv 2 \<le> x \<and> loop_below (max x0 x1) t x \<and>
    (2 * min y0 y1 - t) sdiv 2 \<le> y \<and> loop_below (max y0 y1) t y \<and>
    distance_lessthan x y x0 y0 x1 y1 (half_t1 t)"
  have "\<exists>b'. draw_line_cn n base w h x0 y0 x1 y1 pen t b = Some b' \<and> painted base n w h pen b ?S b'"
    unfolding draw_line_cn_def Let_def loop_from_exact[OF bnd(1,2)] loop_from_exact[OF bnd(1,3)] Option.bind.simps
    by (rule paint_rows_if[OF room loop_below_down loop_below_down])
  moreover have "?S = on_line x0 y0 x1 y1 t"
    unfolding loop_below_exact[OF bnd(1,4)] loop_below_exact[OF bnd(1,5)] half_t_exact(2)[OF bnd(6)]
    by (intro ext) (simp add: on_line_def)
  ultimately show ?thesis by metis
qed

lemma fl_mul_self_nonneg: "fl_mul rnd32 x x = NaN \<or> fl_le (Fin 0) (fl_mul rnd32 x x)"
proof (cases x)
  case (Fin q)
  have "0 \<le> q * q" by simp
  then show ?thesis using Fin rnd32_mono[of 0 "q * q"] by simp
qed auto

lemma fl_add_above:
  assumes "fl_le (Fin 0) a" and "fl_less (fl_add rnd32 a (rnd32 q)) c \<or> fl_less (fl_add rnd32 (rnd32 q) a) c"
  shows "fl_less (rnd32 q) c"
proof (cases "rnd32 q")
  case (Fin r)
  show ?thesis
  proof (cases a)
    case a: (Fin s)
    have "fl_le (Fin r) (rnd32 (s + r))" using rnd32_mono[of r "s + r"] rnd32_idem[OF Fin] assms(1) a by simp
    then show ?thesis using assms(2) Fin a by (auto simp: add.commute intro: fl_le_less_trans)
  qed (use assms Fin in \<open>cases c; auto\<close>)+
qed (use assms in \<open>cases a; cases c; auto\<close>)+

text \<open>
  The test compares the square of the distance with half the thickness: a horizontal line of
  thickness \<open>t\<close> has no pixel more than the square root of \<open>t / 2\<close> away from it.
\<close>

lemma horizontal_line_thin:
  assumes d: "distance_lessthan x y x0 y0 x1 y0 (Fin (of_int t / 2))"
    and c: "\<bar>y0\<bar> < 8000000" "\<bar>y\<bar> < 8000000" "\<bar>t\<bar> < 8000000"
  shows "2 * (y - y0)^2 < t"
proof (rule ccontr)
  let ?r = "fl_div rnd32 (i2f ((x - x0) * (x1 - x0) + (y - y0) * (y0 - y0))) (i2f ((x1 - x0) * (x1 - x0) + (y0 - y0) * (y0 - y0)))"
  assume "\<not> 2 * (y - y0)^2 < t"
  then have "of_int t \<le> (of_int (2 * (y - y0)^2) :: rat)" by (simp only: of_int_le_iff linorder_not_less)
  then have le: "of_int t / 2 \<le> (of_int (y - y0) * of_int (y - y0) :: rat)" by (simp add: power2_eq_square)
  show False
  proof (cases ?r)
    case (Fin q)
    let ?z = "of_int (y - y0) :: rat"
    have y0: "i2f y0 = Fin (of_int y0)" "rnd32 (of_int y0) = Fin (of_int y0)" and y: "i2f y = Fin (of_int y)"
      and z: "rnd32 (of_int y - of_int y0) = Fin ?z"
      using c i2f_exact[of y0] rnd32_int[of y0] i2f_exact[of y] rnd32_int[of "y - y0"] by auto
    let ?dx = "fl_sub rnd32 (i2f x) (fl_add rnd32 (i2f x0) (fl_mul rnd32 (i2f (x1 - x0)) ?r))"
    have p: "fl_less (fl_add rnd32 (fl_mul rnd32 ?dx ?dx) (rnd32 (?z * ?z))) (Fin (of_int t / 2))"
      using d Fin y0 y z by (simp add: distance_lessthan_def Let_def i2f_exact[of 0] fl_sub_def[of _ "Fin (of_int y)"] split: if_splits)
    have "fl_le (Fin 0) (fl_mul rnd32 ?dx ?dx)" using fl_mul_self_nonneg[of ?dx] p by auto
    then have "fl_less (rnd32 (?z * ?z)) (Fin (of_int t / 2))" using fl_add_above p by blast
    moreover have "fl_le (Fin (of_int t / 2)) (rnd32 (?z * ?z))"
      using rnd32_mono[OF le] rnd32_half[of t] c(3) by simp
    ultimately show False using fl_le_less_trans[of "Fin (of_int t / 2)"] by fastforce
  qed (use d i2f_exact[of y0] c(1) in \<open>auto simp: distance_lessthan_def Let_def split: if_splits\<close>)
qed

text \<open>A line from a point to itself has no pixels: the projection is 0 / 0.\<close>

lemma point_line_empty: "\<not> distance_lessthan x y x0 y0 x0 y0 t"
  by (simp add: distance_lessthan_def Let_def i2f_exact[of 0] inf_mul_def)

section \<open>The public routines on images\<close>

text \<open>The formats that keep the bytes of a pixel together, with their number.\<close>

fun packed_channels :: "image_format \<Rightarrow> nat option" where
  "packed_channels IMAGE_FORMAT_RGB888 = Some 3"
| "packed_channels IMAGE_FORMAT_RGBA8888 = Some 4"
| "packed_channels _ = None"

definition big_enough :: "image_buffer \<Rightarrow> nat \<Rightarrow> bool" where
  "big_enough im n \<longleftrightarrow> width im * height im * int n \<le> int (length (virt_addr im))"

lemma convert_color_packed:
  "packed_channels f = Some n \<Longrightarrow> \<exists>c. convert_color color f = Some c \<and> length c = 4"
  by (cases f) (auto simp: convert_color_def Let_def)

lemma packed_cases:
  assumes "packed_channels f = Some n"
  obtains "f = IMAGE_FORMAT_RGB888" "n = 3" | "f = IMAGE_FORMAT_RGBA8888" "n = 4"
  using assms by (cases f) auto

lemma packed_room:
  "packed_channels (format im) = Some n \<Longrightarrow> big_enough im n \<Longrightarrow> length c = 4 \<Longrightarrow>
   room 0 n (width im) (height im) c (virt_addr im)"
  by (erule packed_cases) (auto simp: room_def big_enough_def)


abbreviation sample_image :: "image_format \<Rightarrow> nat \<Rightarrow> image_buffer" where
  "sample_image f bytes \<equiv> \<lparr>width = 8, height = 4, width_stride = 8, height_stride = 4, format = f,
     virt_addr = replicate bytes 0, buf_size = int bytes, fd = 0\<rparr>"


text \<open>
  C24. Drawing a circle into a packed image paints exactly the disc without its four extreme points
  (thickness -1) or the ring of the given thickness around the radius; the float bounds and
  distances lose nothing, and both starting rows found in the variants give the same ring.
\<close>

theorem draw_circle_ring:
  assumes "packed_channels (format im) = Some n" and "big_enough im n"
    and "\<bar>cx\<bar> \<le> 1000000" and "\<bar>cy\<bar> \<le> 1000000"
    and "0 \<le> r" and "0 \<le> thickness \<or> thickness = -1" and "2 * r + thickness < 4095"
  shows "\<exists>c p. convert_color color (format im) = Some c \<and>
    draw_circle im cx cy r color thickness = Some (im\<lparr>virt_addr := p\<rparr>) \<and>
    painted 0 n (width im) (height im) c (virt_addr im) (on_circle cx cy r thickness) p"
proof -
  obtain c where c: "convert_color color (format im) = Some c" "length c = 4"
    using convert_color_packed[OF assms(1)] by blast
  note room = packed_room[OF assms(1,2) c(2)]
  obtain off where off: "off = 0 \<or> off = (1::int)" "off = (if n = 3 then 0 else 1)" by simp
  obtain p where p: "draw_circle_cn off n 0 (width im) (height im) cx cy r c thickness (virt_addr im) = Some p"
    "painted 0 n (width im) (height im) c (virt_addr im) (on_circle cx cy r thickness) p"
    using draw_circle_cn_painted[OF room off(1) assms(3-7)] by blast
  have "draw_circle im cx cy r color thickness = Some (im\<lparr>virt_addr := p\<rparr>)"
    using packed_cases[OF assms(1)] c(1) p(1) off(2)
    by cases (simp_all add: draw_circle_def draw_circle_c3_def draw_circle_c4_def set_pixels_def)
  then show ?thesis using c(1) p(2) by blast
qed

theorem draw_circle_ring_witness:
  "\<exists>p. draw_circle (sample_image IMAGE_FORMAT_RGBA8888 128) 3 2 2 0xFF0000FF 1 =
     Some ((sample_image IMAGE_FORMAT_RGBA8888 128)\<lparr>virt_addr := p\<rparr>)"
proof -
  have "big_enough (sample_image IMAGE_FORMAT_RGBA8888 128) 4" by (simp add: big_enough_def)
  then show ?thesis
    using draw_circle_ring[of "sample_image IMAGE_FORMAT_RGBA8888 128" 4 3 2 2 1 "0xFF0000FF"] by auto
qed

text \<open>
  Drawing a line into a packed image paints exactly the pixels of the enlarged bounding box
  that pass the distance test.  The test is too strict: it compares the square of the distance
  with half the thickness, so a horizontal line of thickness \<open>t\<close> keeps only rows with
  \<open>2 * dist\<^sup>2 < t\<close>, and a line from a point to itself paints nothing.
\<close>

theorem draw_line_thin:
  assumes "packed_channels (format im) = Some n" and "big_enough im n" and "height im \<le> 1000000"
    and "\<bar>x0\<bar> \<le> 1000000" and "\<bar>y0\<bar> \<le> 1000000" and "\<bar>x1\<bar> \<le> 1000000" and "\<bar>y1\<bar> \<le> 1000000"
    and "\<bar>thickness\<bar> < 1000000"
  shows "\<exists>c p. convert_color color (format im) = Some c \<and>
    draw_line im x0 y0 x1 y1 color thickness = Some (im\<lparr>virt_addr := p\<rparr>) \<and>
    painted 0 n (width im) (height im) c (virt_addr im) (on_line x0 y0 x1 y1 thickness) p \<and>
    (y0 = y1 \<longrightarrow> (\<forall>x y. 0 \<le> y \<and> y < height im \<and> on_line x0 y0 x1 y1 thickness x y \<longrightarrow> 2 * (y - y0)^2 < thickness)) \<and>
    (x0 = x1 \<and> y0 = y1 \<longrightarrow> (\<forall>x y. \<not> on_line x0 y0 x1 y1 thickness x y))"
proof -
  obtain c where c: "convert_color color (format im) = Some c" "length c = 4"
    using convert_color_packed[OF assms(1)] by blast
  obtain p where p: "draw_line_cn n 0 (width im) (height im) x0 y0 x1 y1 c thickness (virt_addr im) = Some p"
    "painted 0 n (width im) (height im) c (virt_addr im) (on_line x0 y0 x1 y1 thickness) p"
    using draw_line_cn_painted[OF packed_room[OF assms(1,2) c(2)] assms(8,4-7)] by blast
  have "draw_line im x0 y0 x1 y1 color thickness = Some (im\<lparr>virt_addr := p\<rparr>)"
    using packed_cases[OF assms(1)] c(1) p(1)
    by cases (simp_all add: draw_line_def draw_line_c3_def draw_line_c4_def set_pixels_def)
  moreover have "2 * (y - y0)^2 < thickness"
    if "y0 = y1" "0 \<le> y" "y < height im" "on_line x0 y0 x1 y1 thickness x y" for x y
    using horizontal_line_thin[of x y x0 y0 x1 thickness] that assms by (auto simp: on_line_def)
  ultimately show ?thesis using c(1) p(2) point_line_empty by (auto simp: on_line_def)
qed

theorem draw_line_thin_witness:
  "\<exists>p. draw_line (sample_image IMAGE_FORMAT_RGB888 96) 1 1 6 1 0xFF00FF00 8 =
     Some ((sample_image IMAGE_FORMAT_RGB888 96)\<lparr>virt_addr := p\<rparr>)"
proof -
  have "big_enough (sample_image IMAGE_FORMAT_RGB888 96) 3" by (simp add: big_enough_def)
  then show ?thesis
    using draw_line_thin[of "sample_image IMAGE_FORMAT_RGB888 96" 3 1 1 6 1 8 "0xFF00FF00"] by auto
qed

subsection \<open>Images\<close>

lemma pixel_le: "0 \<le> k \<Longrightarrow> k < n \<Longrightarrow> a * n \<le> b * n + k \<longleftrightarrow> a \<le> (b :: int)"
proof (cases "a \<le> b")
  case True
  assume "0 \<le> k" "k < n"
  then have "a * n \<le> b * n" using mult_right_mono[OF True, of n] by simp
  then show ?thesis using True \<open>0 \<le> k\<close> by linarith
next
  case False
  assume "0 \<le> k" "k < n"
  then show ?thesis using mult_right_mono[of "b + 1" a n] False by (simp add: algebra_simps)
qed

lemma row_segment:
  assumes "0 \<le> x" "x + rw \<le> w" "0 \<le> u" "u < w"
  shows "r * w + x \<le> v * w + u \<and> v * w + u < r * w + (x + rw) \<longleftrightarrow> v = r \<and> x \<le> u \<and> u < x + (rw :: int)"
proof
  assume a: "r * w + x \<le> v * w + u \<and> v * w + u < r * w + (x + rw)"
  have w: "0 < w" using assms by simp
  have "v * w < (r + 1) * w" "r * w < (v + 1) * w" using a assms by (auto simp: algebra_simps)
  then have "v = r" using w by (simp add: mult_less_cancel_right)
  then show "v = r \<and> x \<le> u \<and> u < x + rw" using a by simp
qed auto

lemma draw_image_cn_blit:
  assumes n: "0 < n" and box: "0 \<le> x" "0 \<le> rw" "x + rw \<le> w" "0 \<le> y" "0 \<le> rh" "y + rh \<le> h"
    and b: "w * h * int n \<le> int (length b)" and src: "0 \<le> soff" "soff + rw * rh * int n \<le> int (length src)"
  shows "\<exists>b'. draw_image_cn n w h src soff x y rw rh b = Some b' \<and> length b' = length b \<and>
    (\<forall>i < length b. w * h * int n \<le> int i \<longrightarrow> b' ! i = b ! i) \<and>
    (\<forall>u v. 0 \<le> u \<and> u < w \<and> 0 \<le> v \<and> v < h \<longrightarrow> px_view 0 n w b' u v =
       (if in_box x (x + rw) y (y + rh) u v then px_view soff n rw src (u - x) (v - y) else px_view 0 n w b u v))"
proof -
  let ?P = "\<lambda>i b'. length b' = length b \<and>
    (\<forall>j < length b. w * h * int n \<le> int j \<longrightarrow> b' ! j = b ! j) \<and>
    (\<forall>u v. 0 \<le> u \<and> u < w \<and> 0 \<le> v \<and> v < h \<longrightarrow> px_view 0 n w b' u v =
       (if in_box x (x + rw) y (y + i) u v then px_view soff n rw src (u - x) (v - y) else px_view 0 n w b u v))"
  have "\<exists>b'. draw_image_cn n w h src soff x y rw rh b = Some b' \<and> ?P (max 0 rh) b'"
    unfolding draw_image_cn_def
  proof (rule for_each_rule)
    show "?P 0 b" by (auto simp: in_box_def)
  next
    fix i t assume i: "0 \<le> i" "i < rh" and P: "?P i t"
    let ?d = "((y + i) * w + x) * int n" and ?s = "soff + i * rw * int n"
    have "(y + i) * w + (x + rw) \<le> h * w"
      using mult_right_mono[of "y + i + 1" h w] box i by (simp add: algebra_simps)
    then have dhi: "?d + rw * int n \<le> w * h * int n"
      using mult_right_mono[of "(y + i) * w + (x + rw)" "h * w" "int n"] by (simp add: algebra_simps)
    have "i * rw + rw \<le> rw * rh" using mult_right_mono[of "i + 1" rh rw] box i by (simp add: algebra_simps)
    then have shi: "?s + rw * int n \<le> int (length src)"
      using mult_right_mono[of "i * rw + rw" "rw * rh" "int n"] src(2) by (simp add: algebra_simps)
    have lo: "0 \<le> ?d" "0 \<le> ?s" "0 \<le> rw * int n" using box i src(1) by simp_all
    obtain t' where t': "memcpy_at t ?d (rw * int n) src ?s = Some t'" "length t' = length t"
      "\<And>j. j < length t \<Longrightarrow> t' ! j =
         (if ?d \<le> int j \<and> int j < ?d + rw * int n then src ! (j - nat ?d + nat ?s) else t ! j)"
      using memcpy_at_spec[OF lo(3,2) shi lo(1), of t] dhi b P by auto
    have "px_view 0 n w t' u v =
        (if in_box x (x + rw) y (y + (i + 1)) u v then px_view soff n rw src (u - x) (v - y) else px_view 0 n w b u v)"
      if uv: "0 \<le> u \<and> u < w \<and> 0 \<le> v \<and> v < h" for u v
    proof -
      have byte: "t' ! nat (w * int n * v + u * int n + int k) =
          (if v = y + i \<and> x \<le> u \<and> u < x + rw
           then src ! nat (soff + rw * int n * (v - y) + (u - x) * int n + int k)
           else t ! nat (w * int n * v + u * int n + int k))" if k: "k < n" for k
      proof -
        let ?j = "w * int n * v + u * int n + int k"
        have j: "0 \<le> ?j" "?j < int (length t)" using px_offset[of u w v h "int k" n] uv k P b by auto
        have e: "?j = (v * w + u) * int n + int k" "?d + rw * int n = ((y + i) * w + (x + rw)) * int n"
          by (simp_all add: algebra_simps)
        have "?d \<le> ?j \<and> ?j < ?d + rw * int n \<longleftrightarrow> v = y + i \<and> x \<le> u \<and> u < x + rw"
          unfolding e not_le[symmetric] pixel_le[OF of_nat_0_le_iff k[folded of_nat_less_iff[where 'a = int]]]
          using row_segment[of x rw w u "y + i" v] box uv by (simp add: not_le)
        moreover have "nat ?j - nat ?d + nat ?s = nat (soff + rw * int n * (v - y) + (u - x) * int n + int k)"
          if "v = y + i \<and> x \<le> u \<and> u < x + rw"
        proof -
          have "?j - ?d = (u - x) * int n + int k" using that by (simp add: algebra_simps)
          moreover have "0 \<le> (u - x) * int n" using that by simp
          ultimately have "nat ?j - nat ?d + nat ?s = nat ((u - x) * int n + int k + ?s)"
            using lo j(1) by (simp add: nat_add_distrib nat_diff_distrib[symmetric])
          then show ?thesis using that by (simp add: algebra_simps)
        qed
        ultimately show ?thesis using t'(3)[of "nat ?j"] j by (auto simp: nat_less_iff)
      qed
      have "px_view 0 n w t' u v =
          (if v = y + i \<and> x \<le> u \<and> u < x + rw then px_view soff n rw src (u - x) (v - y) else px_view 0 n w t u v)"
        using byte by (auto simp: px_view_def)
      then show ?thesis using P uv i by (auto simp: in_box_def)
    qed
    moreover have "\<forall>j < length b. w * h * int n \<le> int j \<longrightarrow> t' ! j = b ! j"
    proof (intro allI impI)
      fix j assume j: "j < length b" "w * h * int n \<le> int j"
      then have "\<not> int j < ?d + rw * int n" using dhi by linarith
      then show "t' ! j = b ! j" using t'(3)[of j] j P by simp
    qed
    ultimately show "\<exists>t'. memcpy_at t ?d (rw * int n) src ?s = Some t' \<and> ?P (i + 1) t'"
      using P by (intro exI[of _ t'] conjI t'(1)) (simp_all add: t'(2))
  qed
  then show ?thesis using box by simp
qed

text \<open>
  C32. Drawing an image into a packed image copies it row by row: inside its box the result shows
  the image, pixel for pixel, elsewhere nothing changes.  The box has to lie inside the image:
  unlike the shapes, images are not clipped.
\<close>

theorem draw_image_blit:
  assumes "packed_channels (format im) = Some n" and "big_enough im n"
    and "0 \<le> x" "0 \<le> rw" "x + rw \<le> width im" "0 \<le> y" "0 \<le> rh" "y + rh \<le> height im"
    and "rw * rh * int n \<le> int (length img)"
  shows "\<exists>p. draw_image im img x y rw rh = Some (im\<lparr>virt_addr := p\<rparr>) \<and> length p = length (virt_addr im) \<and>
    (\<forall>u v. 0 \<le> u \<and> u < width im \<and> 0 \<le> v \<and> v < height im \<longrightarrow> px_view 0 n (width im) p u v =
       (if in_box x (x + rw) y (y + rh) u v then px_view 0 n rw img (u - x) (v - y)
        else px_view 0 n (width im) (virt_addr im) u v))"
proof -
  have n: "0 < n" using packed_cases[OF assms(1)] by cases auto
  obtain p where p: "draw_image_cn n (width im) (height im) img 0 x y rw rh (virt_addr im) = Some p"
    "length p = length (virt_addr im)"
    "\<forall>u v. 0 \<le> u \<and> u < width im \<and> 0 \<le> v \<and> v < height im \<longrightarrow> px_view 0 n (width im) p u v =
       (if in_box x (x + rw) y (y + rh) u v then px_view 0 n rw img (u - x) (v - y)
        else px_view 0 n (width im) (virt_addr im) u v)"
    using draw_image_cn_blit[OF n assms(3-8), where b = "virt_addr im" and src = img and soff = 0] assms(2,9)
    by (auto simp: big_enough_def)
  have "draw_image im img x y rw rh = Some (im\<lparr>virt_addr := p\<rparr>)"
    using packed_cases[OF assms(1)] p(1)
    by cases (simp_all add: draw_image_def draw_image_c3_def draw_image_c4_def set_pixels_def)
  then show ?thesis using p(2,3) by blast
qed

theorem draw_image_blit_witness:
  "\<exists>p. draw_image (sample_image IMAGE_FORMAT_RGB888 96) (replicate 12 7) 1 1 2 2 =
     Some ((sample_image IMAGE_FORMAT_RGB888 96)\<lparr>virt_addr := p\<rparr>)"
proof -
  have "big_enough (sample_image IMAGE_FORMAT_RGB888 96) 3" by (simp add: big_enough_def)
  then show ?thesis
    using draw_image_blit[of "sample_image IMAGE_FORMAT_RGB888 96" 3 1 2 1 2 "replicate 12 7"] by auto
qed

text \<open>
  Drawing a YUV420SP image always reads past its end: an image of even size with exactly the
  bytes of its two planes makes the chroma copy, which takes two bytes per chroma column of the
  full width, run over the end of the buffer.
\<close>

theorem draw_image_yuv_overrun:
  assumes "format im \<in> {IMAGE_FORMAT_YUV420SP_NV12, IMAGE_FORMAT_YUV420SP_NV21}"
    and "0 < rw" and "2 \<le> rh" and "even rw" and "even rh" and "2 * int (length img) = 3 * rw * rh"
  shows "draw_image im img x y rw rh = None"
proof -
  obtain k where k: "rh = 2 * k" using assms(5) by blast
  have len: "int (length img) = 3 * rw * k" using assms(6) k by simp
  have "memcpy_at t ((((y sdiv 2) + (k - 1)) * width im + x) * int 2) (rw * int 2) img (rw * rh + (k - 1) * rw * int 2) = None" for t
    by (rule memcpy_at_fails) (use assms(2,3) k len in \<open>simp_all add: algebra_simps\<close>)
  then have "draw_image_c2 w h' img (rw * rh) x (y sdiv 2) rw (rh sdiv 2) t = None" if "w = width im" for w h' t
    unfolding draw_image_c2_def draw_image_cn_def
    by (intro for_each_fails[of _ "k - 1"]) (use assms(3) k that in simp_all)
  then show ?thesis using assms(1)
    by (auto simp: draw_image_def draw_image_yuv420sp_def set_pixels_def split: bind_splits)
qed

theorem draw_image_yuv_overrun_witness:
  "draw_image (sample_image IMAGE_FORMAT_YUV420SP_NV12 48) (replicate 6 7) 0 0 2 2 = None"
  by (rule draw_image_yuv_overrun) simp_all

subsection \<open>Colours\<close>

lemma rnd64_quarter: "\<bar>n\<bar> < 9007199254740992 \<Longrightarrow> rnd64 (of_int n / 4) = Fin (of_int n / 4)"
  using rnd64_exact[of n "- 2"] by (simp add: pow2_def)

lemma rnd64_grid: "\<bar>n\<bar> < 9007199254740992 \<Longrightarrow> rnd64 (of_int n / 1048576) = Fin (of_int n / 1048576)"
  using rnd64_exact[of n "- 20"] by (simp add: pow2_def)

lemma rnd64_within:
  assumes "of_int m / 1048576 \<le> q" "q \<le> of_int n / 1048576" "\<bar>m\<bar> < 9007199254740992" "\<bar>n\<bar> < 9007199254740992"
  shows "\<exists>r. rnd64 q = Fin r \<and> of_int m / 1048576 \<le> r \<and> r \<le> of_int n / 1048576"
  using rnd64_mono[OF assms(1)] rnd64_mono[OF assms(2)] rnd64_grid[OF assms(3)] rnd64_grid[OF assms(4)]
  by (cases "rnd64 q") auto

lemma luma_byte:
  assumes "0 \<le> r" "r \<le> 255" "0 \<le> g" "g \<le> 255" "0 \<le> b" "b \<le> 255"
  shows "\<exists>y. f2u8 (luma r g b) = Some y \<and> 0 \<le> y \<and> y \<le> 255"
proof -
  have prod: "\<exists>p. fl_mul rnd64 (rnd64 q) (i2d c) = Fin p \<and> 0 \<le> p \<and> p \<le> of_int n / 1048576"
    if "0 \<le> c" "c \<le> 255" "0 \<le> q" "q \<le> of_int m / 1048576" "255 * m \<le> n" "\<bar>m\<bar> < 9007199254740992" "\<bar>n\<bar> < 9007199254740992"
    for q c m n
  proof -
    have "of_int 0 / 1048576 \<le> q" "\<bar>0::int\<bar> < 9007199254740992" using that(3) by simp_all
    from rnd64_within[OF this(1) that(4) this(2) that(6)]
    obtain k where k: "rnd64 q = Fin k" "0 \<le> k" "k \<le> of_int m / 1048576" by auto
    have "k * of_int c \<le> of_int m / 1048576 * 255"
      using k that by (intro mult_mono) auto
    also have "\<dots> \<le> of_int n / 1048576"
    proof -
      have "of_int (255 * m) \<le> (of_int n :: rat)" using that by (simp only: of_int_le_iff)
      then show ?thesis by simp
    qed
    finally have "k * of_int c \<le> of_int n / 1048576" .
    moreover have "0 \<le> k * of_int c" using k(2) that by simp
    ultimately show ?thesis using rnd64_within[of 0 "k * of_int c" n] k(1) that by (auto simp: i2d_exact)
  qed
  obtain p1 where p1: "fl_mul rnd64 (rnd64 (299/1000)) (i2d r) = Fin p1" "0 \<le> p1" "p1 \<le> 80000000 / 1048576"
    using prod[of r "299/1000" 313530 80000000] assms by auto
  obtain p2 where p2: "fl_mul rnd64 (rnd64 (587/1000)) (i2d g) = Fin p2" "0 \<le> p2" "p2 \<le> 157000000 / 1048576"
    using prod[of g "587/1000" 615520 157000000] assms by auto
  obtain p3 where p3: "fl_mul rnd64 (rnd64 (114/1000)) (i2d b) = Fin p3" "0 \<le> p3" "p3 \<le> 30500000 / 1048576"
    using prod[of b "114/1000" 119550 30500000] assms by auto
  obtain s where s: "rnd64 (p1 + p2) = Fin s" "0 \<le> s" "s \<le> 237000000 / 1048576"
    using rnd64_within[of 0 "p1 + p2" 237000000] p1 p2 by auto
  obtain z where z: "rnd64 (s + p3) = Fin z" "0 \<le> z" "z \<le> 267500000 / 1048576"
    using rnd64_within[of 0 "s + p3" 267500000] s p3 by auto
  have "luma r g b = Fin z" using p1 p2 p3 s z by (simp add: luma_def)
  moreover have "0 \<le> \<lfloor>z\<rfloor>" "\<lfloor>z\<rfloor> \<le> 255" using z(2,3) by linarith+
  ultimately show ?thesis using z(2) by (auto simp: f2u8_def trunc_def Let_def)
qed

lemma chroma_defined_iff:
  assumes q: "of_int m / 1048576 \<le> q" "q \<le> of_int n / 1048576" and mn: "0 < m" "m \<le> n" "n < 1048576"
    and d: "- 255 \<le> d" "d \<le> 255" and j: "0 < j" "j * n < 1048576" "1048576 \<le> (j + 1) * m"
  shows "f2u8 (fl_mul rnd64 (rnd64 q) (i2d d)) = None \<longleftrightarrow> d < - j"
proof -
  obtain k where k: "rnd64 q = Fin k" "of_int m / 1048576 \<le> k" "k \<le> of_int n / 1048576"
    using rnd64_within[OF q] mn by auto
  have kpos: "0 < k" "k < 1" 
  proof -
    have "0 < (of_int m :: rat)" "of_int n < (of_int 1048576 :: rat)" using mn by (simp_all only: of_int_less_iff of_int_0_less_iff)
    then show "0 < k" "k < 1" using k(2,3) by simp_all
  qed
  have e: "fl_mul rnd64 (rnd64 q) (i2d d) = rnd64 (k * of_int d)" using k(1) d by (simp add: i2d_exact)
  show ?thesis
  proof (cases "d < - j")
    case True
    have "k * of_int d \<le> k * of_int (- (j + 1))" using True kpos by (intro mult_left_mono) (auto simp del: of_int_minus)
    also have "\<dots> \<le> of_int m / 1048576 * of_int (- (j + 1))"
      using k(2) j(1) by (intro mult_right_mono_neg) auto
    also have "\<dots> \<le> - 1"
    proof -
      have "(of_int 1048576 :: rat) \<le> of_int ((j + 1) * m)" using j(3) by (simp only: of_int_le_iff)
      then show ?thesis by (simp add: field_simps)
    qed
    finally have "fl_le (rnd64 (k * of_int d)) (Fin (- 1))" using rnd64_mono[of "k * of_int d" "- 1"] rnd64_int[of "- 1"] by simp
    then show ?thesis unfolding e f2u8_def using True
      by (cases "rnd64 (k * of_int d)") (auto simp: Let_def trunc_def le_ceiling_iff)
  next
    case False
    have lo: "of_int (- (j * n)) / 1048576 \<le> k * of_int d"
    proof -
      have "of_int n / 1048576 * of_int (- j) \<le> k * of_int (- j)" using k(3) j(1) by (intro mult_right_mono_neg) auto
      also have "\<dots> \<le> k * of_int d" using False kpos by (intro mult_left_mono) (auto simp del: of_int_minus)
      finally show ?thesis by (simp add: field_simps)
    qed
    have hi: "k * of_int d \<le> of_int 267386880 / 1048576"
      using mult_mono[of k 1 "of_int d" 255] kpos d by (cases "0 \<le> d") (auto simp: mult_nonneg_nonpos intro: order_trans[of _ 0])
    obtain z where z: "rnd64 (k * of_int d) = Fin z" "of_int (- (j * n)) / 1048576 \<le> z" "z \<le> of_int 267386880 / 1048576"
      using rnd64_within[OF lo hi] j mn by auto
    have "of_int (j * n) < (of_int 1048576 :: rat)" using j(2) by (simp only: of_int_less_iff)
    then have "- 1 < z" "z \<le> 255" using z(2,3) by simp_all
    then have "0 \<le> trunc z" "trunc z \<le> 255" by (simp_all add: trunc_def)
    then show ?thesis unfolding e z(1) f2u8_def using False by (simp add: Let_def)
  qed
qed

text \<open>
  Converting a colour to YUV is undefined for every colour whose blue or red lies clearly
  below its brightness: the chroma values are signed (no 128 is added), and a negative one does
  not fit \<open>unsigned char\<close>.  With \<open>y\<close> the brightness the conversion is undefined exactly when
  \<open>b + 2 < y\<close> or \<open>r + 1 < y\<close>.
\<close>

theorem yuv_colour_undefined:
  "\<exists>y. f2u8 (luma (uint (byte_of 2 color)) (uint (byte_of 1 color)) (uint (byte_of 0 color))) = Some y \<and>
     0 \<le> y \<and> y \<le> 255 \<and>
     (convert_color color IMAGE_FORMAT_YUV420SP_NV12 = None \<longleftrightarrow>
        uint (byte_of 0 color) + 2 < y \<or> uint (byte_of 2 color) + 1 < y) \<and>
     (convert_color color IMAGE_FORMAT_YUV420SP_NV21 = None \<longleftrightarrow>
        uint (byte_of 0 color) + 2 < y \<or> uint (byte_of 2 color) + 1 < y)"
proof -
  let ?r = "uint (byte_of 2 color)" and ?g = "uint (byte_of 1 color)" and ?b = "uint (byte_of 0 color)"
  have c: "0 \<le> uint (byte_of k color)" "uint (byte_of k color) \<le> 255" for k
    using uint_lt2p[of "byte_of k color"] by simp_all
  obtain y where y: "f2u8 (luma ?r ?g ?b) = Some y" "0 \<le> y" "y \<le> 255"
    using luma_byte[OF c c c, of 2 1 0] by blast
  have d: "- 255 \<le> ?b - y" "?b - y \<le> 255" "- 255 \<le> ?r - y" "?r - y \<le> 255"
    using c[of 0] c[of 2] y(2,3) by linarith+
  have u: "f2u8 (fl_mul rnd64 (rnd64 (492/1000)) (i2d (?b - y))) = None \<longleftrightarrow> ?b - y < - 2"
    by (rule chroma_defined_iff[of 515000 _ 517000]) (use d in auto)
  have v: "f2u8 (fl_mul rnd64 (rnd64 (877/1000)) (i2d (?r - y))) = None \<longleftrightarrow> ?r - y < - 1"
    by (rule chroma_defined_iff[of 919000 _ 920000]) (use d in auto)
  have u': "?b - y < - 2 \<longleftrightarrow> ?b + 2 < y" and v': "?r - y < - 1 \<longleftrightarrow> ?r + 1 < y" by linarith+
  have bind: "(do { i \<leftarrow> p; j \<leftarrow> q; Some (f i j) }) = None \<longleftrightarrow> p = None \<or> q = None" for p q :: "int option" and f :: "int \<Rightarrow> int \<Rightarrow> byte list"
    by (cases p; cases q) simp_all
  have "convert_color color IMAGE_FORMAT_YUV420SP_NV12 = None \<longleftrightarrow> ?b + 2 < y \<or> ?r + 1 < y"
    unfolding convert_color_def Let_def image_format.case y(1) Option.bind.simps bind u v u' v' by (simp only:)
  moreover have "convert_color color IMAGE_FORMAT_YUV420SP_NV21 = None \<longleftrightarrow> ?b + 2 < y \<or> ?r + 1 < y"
    unfolding convert_color_def Let_def image_format.case y(1) Option.bind.simps bind u v u' v' by (simp only: disj_commute)
  ultimately show ?thesis using y by (intro exI[of _ y] conjI)
qed

subsection \<open>The two planes of a YUV420SP image\<close>

lemma chroma_plane_room:
  assumes "0 \<le> w" "0 \<le> h" "3 * (w * h) \<le> 2 * int (length b)" "2 \<le> length pen"
  shows "room (w * h) 2 (w sdiv 2) (h sdiv 2) pen b"
proof -
  have "w div 2 * (h div 2) * 2 = w div 2 * (h div 2 * 2)" by simp
  also have "\<dots> \<le> w div 2 * h" using assms(1) by (intro mult_left_mono) auto
  finally have "2 * (w div 2 * (h div 2) * 2) \<le> (w div 2 * 2) * h" by (simp only: mult.assoc mult.commute mult.left_commute)
  also have "\<dots> \<le> w * h" using assms(2) by (intro mult_right_mono) auto
  finally have "2 * (w * h + w div 2 * (h div 2) * 2) \<le> 3 * (w * h)" by (simp add: mult.commute)
  also have "\<dots> \<le> 2 * int (length b)" by (rule assms(3))
  finally have "w * h + w div 2 * (h div 2) * 2 \<le> int (length b)"
    by (simp only: mult_le_cancel_left_pos[OF zero_less_numeral])
  then show ?thesis using assms(1,2,4) by (simp add: room_def)
qed

text \<open>
  Drawing a rectangle into a YUV420SP image, in a colour the conversion accepts, paints the
  rectangle's pixels in the luma plane and then the halved rectangle's pixels, with the halved
  thickness, in the chroma plane, each plane leaving the other alone.
\<close>

theorem draw_rectangle_planes:
  assumes "format im \<in> {IMAGE_FORMAT_YUV420SP_NV12, IMAGE_FORMAT_YUV420SP_NV21}"
    and "convert_color color (format im) = Some c"
    and "0 \<le> width im" and "0 \<le> height im" and "3 * (width im * height im) \<le> 2 * int (length (virt_addr im))"
    and "0 \<le> rw" and "0 \<le> rh"
  shows "\<exists>p q. draw_rectangle im rx ry rw rh color thickness = Some (im\<lparr>virt_addr := q\<rparr>) \<and>
    painted 0 1 (width im) (height im) (pen_y c) (virt_addr im) (on_rectangle rx ry rw rh thickness) p \<and>
    painted (width im * height im) 2 (width im sdiv 2) (height im sdiv 2) (pen_uv c) p
      (on_rectangle (rx sdiv 2) (ry sdiv 2) (rw sdiv 2) (rh sdiv 2) (thickness_uv thickness)) q"
proof -
  have c: "length c = 4" using assms(1,2) by (auto simp: convert_color_def Let_def split: bind_splits)
  have wh: "0 \<le> width im * height im" using assms(3,4) by simp
  have "room 0 1 (width im) (height im) (pen_y c) (virt_addr im)"
    using c wh assms(5) by (simp add: room_def pen_y_def)
  from draw_rectangle_cn_painted[OF this assms(6,7), of rx ry thickness]
  obtain p where p: "draw_rectangle_c1 0 (width im) (height im) rx ry rw rh (pen_y c) thickness (virt_addr im) = Some p"
    "painted 0 1 (width im) (height im) (pen_y c) (virt_addr im) (on_rectangle rx ry rw rh thickness) p"
    by (auto simp: draw_rectangle_c1_def)
  have "room (width im * height im) 2 (width im sdiv 2) (height im sdiv 2) (pen_uv c) p"
    using c p(2) assms(3-5) by (intro chroma_plane_room) (auto simp: pen_uv_def painted_def)
  moreover have "0 \<le> rw sdiv 2" "0 \<le> rh sdiv 2" using assms(6,7) by simp_all
  ultimately obtain q where q: "draw_rectangle_c2 (width im * height im) (width im sdiv 2) (height im sdiv 2)
      (rx sdiv 2) (ry sdiv 2) (rw sdiv 2) (rh sdiv 2) (pen_uv c) (thickness_uv thickness) p = Some q"
    "painted (width im * height im) 2 (width im sdiv 2) (height im sdiv 2) (pen_uv c) p
      (on_rectangle (rx sdiv 2) (ry sdiv 2) (rw sdiv 2) (rh sdiv 2) (thickness_uv thickness)) q"
    using draw_rectangle_cn_painted unfolding draw_rectangle_c2_def by blast
  have "draw_rectangle im rx ry rw rh color thickness = Some (im\<lparr>virt_addr := q\<rparr>)"
    using assms(1,2) p(1) q(1)
    by (auto simp: draw_rectangle_def draw_rectangle_yuv420sp_def set_pixels_def)
  then show ?thesis using p(2) q(2) by blast
qed

theorem draw_rectangle_planes_witness:
  "convert_color 0 IMAGE_FORMAT_YUV420SP_NV12 = Some [0, 0, 0, 0] \<and>
   (\<exists>q. draw_rectangle (sample_image IMAGE_FORMAT_YUV420SP_NV12 48) 1 1 4 2 0 2 =
     Some ((sample_image IMAGE_FORMAT_YUV420SP_NV12 48)\<lparr>virt_addr := q\<rparr>))"
proof -
  have zero: "fl_mul rnd64 (rnd64 q) (i2d 0) = Fin 0" if "0 \<le> q" "q \<le> 1" for q
    using rnd64_within[of 0 q 1048576] that by (auto simp: i2d_exact)
  have c: "convert_color 0 IMAGE_FORMAT_YUV420SP_NV12 = Some [0, 0, 0, 0]"
    by (simp add: convert_color_def byte_of_def luma_def zero f2u8_def trunc_def Let_def)
  then show ?thesis
    using draw_rectangle_planes[of "sample_image IMAGE_FORMAT_YUV420SP_NV12 48" 0 "[0, 0, 0, 0]" 4 2 1 1 2] by auto
qed

end
