(* ===== verification/Bilinear.thy ===== *)
theory Bilinear
  imports CFloat
begin

text \<open>
  The float arithmetic that the two bilinear scalers share (\<open>resize_bilinear_c1\<close> of
  \<^verbatim>\<open>utils/image_drawing.c\<close> and \<open>crop_and_scale_image_c\<close> of \<^verbatim>\<open>utils/image_utils.c\<close>): a scaled
  coordinate stays below the source size and has a fraction in the unit interval, and the weighted
  sum of four bytes rounds to less than 256.
\<close>

section \<open>Scaled coordinates\<close>

lemma fl_mul_commute: "fl_mul r x y = fl_mul r y x"
  by (cases x; cases y) (auto simp: mult.commute)

lemma scaled_product:
  assumes m: "1 \<le> m" "m < 16777216" and n: "0 < n" "n \<le> 65536" and j: "0 \<le> j" "j < n"
  shows "\<exists>p. fl_mul rnd32 (fl_div rnd32 (i2f m) (i2f n)) (i2f j) = Fin p \<and> 0 \<le> p \<and> p < of_int m"
proof -
  let ?q = "of_int m / of_int n :: rat"
  have n1: "(1 :: rat) \<le> of_int n" "of_int n \<le> (65536 :: rat)" and j1: "(0 :: rat) \<le> of_int j" "of_int j \<le> of_int n - (1 :: rat)"
    and m1: "1 \<le> (of_int m :: rat)" using n j m by simp_all
  have "1 / 65536 \<le> ?q" using m1 n1 by (intro frac_le) auto
  moreover have p16: "pow2 (- 16) = 1 / 65536" "pow2 (- 126) \<le> pow2 (- 16)" by (simp add: pow2_def) (rule pow2_mono, simp)
  ultimately have lo: "pow2 (- 126) \<le> ?q" "pow2 (- 16) \<le> ?q" by linarith+
  have "?q \<le> of_int m" using n1 m1 by (simp add: field_simps)
  moreover have rm: "rnd32 (of_int m) = Fin (of_int m)" using m by (simp add: rnd32_int)
  moreover have r16: "rnd32 (pow2 (- 16)) = Fin (pow2 (- 16))" using rnd32_exact[of 1 "- 16"] by simp
  ultimately obtain r where r: "rnd32 ?q = Fin r" "pow2 (- 16) \<le> r" "r \<le> of_int m"
    using rnd32_bracket[of "pow2 (- 16)" "of_int m" ?q] lo(2) by auto
  have r0: "0 \<le> r" using r(2) pow2_nonneg[of "- 16"] by linarith
  have div: "fl_div rnd32 (i2f m) (i2f n) = Fin r" using r(1) m n by (simp add: i2f_exact)
  have mul: "fl_mul rnd32 (fl_div rnd32 (i2f m) (i2f n)) (i2f j) = rnd32 (r * of_int j)"
    unfolding div using j n i2f_exact[of j] by simp
  show ?thesis
  proof (cases "j = 0")
    case True
    then show ?thesis using mul m by simp
  next
    case False
    then have "(1 :: rat) \<le> of_int j" using j by simp
    then have "pow2 (- 16) * 1 \<le> r * of_int j" using r(2) r0 by (intro mult_mono) auto
    then have lo': "pow2 (- 126) \<le> r * of_int j" using p16(2) by simp
    let ?e = "1 + 1 / 16777216 :: rat"
    have "r * of_int j \<le> ?q * ?e * (of_int n - 1)"
      using rnd32_rel_le[OF lo(1) r(1)] j1 n1 m1 by (intro mult_mono) auto
    also have "\<dots> = of_int m * (?e * (1 - 1 / of_int n))" using n1 by (simp add: field_simps)
    finally have hi: "r * of_int j \<le> of_int m * (?e * (1 - 1 / of_int n))" .
    have frac: "1 - 1 / of_int n \<le> (1 - 1 / 65536 :: rat)"
    proof -
      have "1 / 65536 \<le> (1 / of_int n :: rat)" using n1 by (intro frac_le) auto
      then show ?thesis by linarith
    qed
    have "of_int m * (?e * (1 - 1 / of_int n)) \<le> of_int m * (?e * (1 - 1 / 65536))"
      using frac m1 by (intro mult_left_mono) auto
    then have hi': "r * of_int j \<le> of_int m * (?e * (1 - 1 / 65536))" using hi by linarith
    also have "\<dots> \<le> of_int m * 1" using m1 by (intro mult_left_mono) auto
    finally have "r * of_int j \<le> of_int m" by simp
    then obtain p where p: "rnd32 (r * of_int j) = Fin p" "0 \<le> p" "p \<le> of_int m"
      using rnd32_bracket[OF _ rm, of 0 "r * of_int j"] r0 j1 by auto
    have "p \<le> r * of_int j * ?e" by (rule rnd32_rel_le[OF lo' p(1)])
    also have "\<dots> \<le> of_int m * (?e * (1 - 1 / 65536)) * ?e" using hi' by (intro mult_right_mono) auto
    also have "\<dots> < of_int m" using m1 by simp
    finally show ?thesis unfolding mul using p(1,2) by blast
  qed
qed

text \<open>The integer part and the fraction.\<close>

lemma scaled_index:
  assumes "1 \<le> m" "m < 16777216" "0 < n" "n \<le> 65536" "0 \<le> j" "j < n"
  shows "\<exists>k d. let p = fl_mul rnd32 (fl_div rnd32 (i2f m) (i2f n)) (i2f j) in
    f2i p = Some k \<and> 0 \<le> k \<and> k < m \<and> fl_sub rnd32 p (i2f k) = Fin d \<and> 0 \<le> d \<and> d \<le> 1"
proof -
  obtain p where p: "fl_mul rnd32 (fl_div rnd32 (i2f m) (i2f n)) (i2f j) = Fin p" "0 \<le> p" "p < of_int m"
    using scaled_product[OF assms] by blast
  let ?k = "\<lfloor>p\<rfloor>"
  have k: "0 \<le> ?k" "?k < m" using p(2,3) by (simp, linarith)
  have "?k \<le> 2147483647" using k(2) assms(2) by linarith
  then have f: "f2i (Fin p) = Some ?k" using p(2) k(1) by (simp add: f2i_def trunc_def Let_def del: floor_le_numeral)
  obtain d where d: "rnd32 (p - of_int ?k) = Fin d" "0 \<le> d" "d \<le> 1"
  proof -
    have "0 \<le> p - of_int ?k" "p - of_int ?k \<le> 1" by linarith+
    then show ?thesis using rnd32_bracket[of 0 1 "p - of_int ?k"] that by auto
  qed
  have "i2f ?k = Fin (of_int ?k)" by (rule i2f_exact) (use k assms(2) in linarith)
  then have "fl_sub rnd32 (Fin p) (i2f ?k) = Fin d" using d(1) by (simp add: fl_sub_def)
  then show ?thesis unfolding p(1) Let_def using f k d by blast
qed

section \<open>Weights\<close>

lemma one_minus: "0 \<le> d \<Longrightarrow> d \<le> 1 \<Longrightarrow> \<exists>e. fl_sub rnd32 (Fin 1) (Fin d) = Fin e \<and> 0 \<le> e \<and> e \<le> 1"
  using rnd32_bracket[of 0 1 "1 - d"] by (auto simp: fl_sub_def)

lemma mul_unit:
  assumes "rnd32 b = Fin b" "0 \<le> p" "p \<le> b" "0 \<le> d" "d \<le> 1"
  shows "\<exists>r. fl_mul rnd32 (Fin p) (Fin d) = Fin r \<and> 0 \<le> r \<and> r \<le> b"
proof -
  have "p * d \<le> b * 1" using assms by (intro mult_mono) auto
  then show ?thesis using rnd32_bracket[OF _ assms(1), of 0 "p * d"] assms by auto
qed

lemma add_bounded:
  assumes "rnd32 c = Fin c" "a + b \<le> c" "0 \<le> p" "p \<le> a" "0 \<le> q" "q \<le> b"
  shows "\<exists>r. fl_add rnd32 (Fin p) (Fin q) = Fin r \<and> 0 \<le> r \<and> r \<le> c"
  using rnd32_bracket[OF _ assms(1), of 0 "p + q"] assms by auto

section \<open>Absolute error and the weighted sum\<close>

lemma rnd32_abs_le:
  assumes "0 \<le> q" "q \<le> pow2 k" "- 100 \<le> k" "rnd32 q = Fin r"
  shows "r \<le> q + pow2 (k - 24)"
proof (cases "q = 0")
  case True
  then show ?thesis using assms(4) by simp
next
  case False
  then have q0: "0 < q" using assms(1) by simp
  let ?u = "max (ilog2 q - 23) (- 149)"
  have "q < pow2 (k + 1)" using assms(2) pow2_less[of k "k + 1"] by linarith
  then have u: "?u \<le> k - 23" using ilog2_le_iff[OF q0, of k] assms(3) by simp
  have "r = of_int (rne (q / pow2 ?u)) * pow2 ?u"
    using assms(4) q0 by (auto simp: rnd32_def rnd_def rnd_val_def Let_def split: if_splits)
  also have "\<dots> \<le> (q / pow2 ?u + 1 / 2) * pow2 ?u"
    by (intro mult_right_mono rne_error) simp
  also have "\<dots> = q + pow2 ?u / 2" by (simp add: field_simps)
  also have "\<dots> \<le> q + pow2 (k - 23) / 2" using pow2_mono[OF u] by simp
  also have "pow2 (k - 23) / 2 = pow2 (k - 24)" by (simp add: pow2_diff) (simp add: pow2_def)
  finally show ?thesis .
qed

lemma mul_err:
  assumes "0 \<le> p" "p \<le> 256" "0 \<le> d" "d \<le> 1"
  shows "\<exists>r. fl_mul rnd32 (Fin p) (Fin d) = Fin r \<and> 0 \<le> r \<and> r \<le> 256 \<and> r \<le> p * d + 1 / 65536"
proof -
  obtain r where r: "fl_mul rnd32 (Fin p) (Fin d) = Fin r" "0 \<le> r" "r \<le> 256"
    using mul_unit[of 256 p d] assms by auto
  have "p * d \<le> 256 * 1" using assms by (intro mult_mono) auto
  then have "r \<le> p * d + pow2 (8 - 24)" using rnd32_abs_le[of "p * d" 8 r] assms r(1) by (simp add: pow2_def)
  then show ?thesis using r by (auto simp: pow2_def)
qed

lemma mul2_err:
  assumes "0 \<le> p" "p \<le> 255" "0 \<le> d" "d \<le> 1" "0 \<le> e" "e \<le> 1"
  shows "\<exists>r. fl_mul rnd32 (fl_mul rnd32 (Fin p) (Fin d)) (Fin e) = Fin r \<and> 0 \<le> r \<and> r \<le> 256 \<and> r \<le> p * d * e + 2 / 65536"
proof -
  obtain s where s: "fl_mul rnd32 (Fin p) (Fin d) = Fin s" "0 \<le> s" "s \<le> 256" "s \<le> p * d + 1 / 65536"
    using mul_err[of p d] assms by auto
  obtain r where r: "fl_mul rnd32 (Fin s) (Fin e) = Fin r" "0 \<le> r" "r \<le> 256" "r \<le> s * e + 1 / 65536"
    using mul_err[of s e] assms s by blast
  have "s * e \<le> (p * d + 1 / 65536) * e" using s(4) assms by (intro mult_right_mono) auto
  also have "\<dots> \<le> p * d * e + 1 / 65536" using assms by (simp add: algebra_simps)
  finally show ?thesis unfolding s(1) using r by auto
qed

lemma add_err:
  assumes "0 \<le> p" "0 \<le> q" "p + q \<le> 2048"
  shows "\<exists>r. fl_add rnd32 (Fin p) (Fin q) = Fin r \<and> 0 \<le> r \<and> r \<le> p + q + 1 / 8192"
proof -
  obtain r where r: "rnd32 (p + q) = Fin r" "0 \<le> r"
    using rnd32_bracket[of 0 2048 "p + q"] assms by auto
  then show ?thesis using rnd32_abs_le[of "p + q" 11 r] assms by (simp add: pow2_def)
qed

definition weighted :: "fl \<Rightarrow> fl \<Rightarrow> fl \<Rightarrow> fl \<Rightarrow> fl \<Rightarrow> fl \<Rightarrow> fl" where
  "weighted a b c d x_diff y_diff =
     (let one_x = fl_sub rnd32 (Fin 1) x_diff; one_y = fl_sub rnd32 (Fin 1) y_diff
      in fl_add rnd32 (fl_add rnd32 (fl_add rnd32
           (fl_mul rnd32 (fl_mul rnd32 a one_x) one_y)
           (fl_mul rnd32 (fl_mul rnd32 b x_diff) one_y))
           (fl_mul rnd32 (fl_mul rnd32 c y_diff) one_x))
           (fl_mul rnd32 (fl_mul rnd32 d x_diff) y_diff))"

lemma weighted_byte:
  assumes v: "0 \<le> a" "a \<le> 255" "0 \<le> b" "b \<le> 255" "0 \<le> c" "c \<le> 255" "0 \<le> d" "d \<le> 255"
    and x: "0 \<le> x" "x \<le> 1" and y: "0 \<le> y" "y \<le> 1"
  shows "\<exists>g. weighted (Fin a) (Fin b) (Fin c) (Fin d) (Fin x) (Fin y) = Fin g \<and> 0 \<le> g \<and> g < 256"
proof -
  obtain ex where ex: "fl_sub rnd32 (Fin 1) (Fin x) = Fin ex" "0 \<le> ex" "ex \<le> 1" using one_minus[OF x] by blast
  obtain ey where ey: "fl_sub rnd32 (Fin 1) (Fin y) = Fin ey" "0 \<le> ey" "ey \<le> 1" using one_minus[OF y] by blast
  have ex1: "ex + x \<le> 1 + 1 / 16777216" using rnd32_abs_le[of "1 - x" 0 ex] ex(1) x by (simp add: fl_sub_def pow2_def)
  have ey1: "ey + y \<le> 1 + 1 / 16777216" using rnd32_abs_le[of "1 - y" 0 ey] ey(1) y by (simp add: fl_sub_def pow2_def)
  obtain ga where ga: "fl_mul rnd32 (fl_mul rnd32 (Fin a) (Fin ex)) (Fin ey) = Fin ga" "0 \<le> ga" "ga \<le> 256" "ga \<le> a * ex * ey + 2 / 65536"
    using mul2_err[OF v(1,2) ex(2,3) ey(2,3)] by blast
  obtain gb where gb: "fl_mul rnd32 (fl_mul rnd32 (Fin b) (Fin x)) (Fin ey) = Fin gb" "0 \<le> gb" "gb \<le> 256" "gb \<le> b * x * ey + 2 / 65536"
    using mul2_err[OF v(3,4) x ey(2,3)] by blast
  obtain gc where gc: "fl_mul rnd32 (fl_mul rnd32 (Fin c) (Fin y)) (Fin ex) = Fin gc" "0 \<le> gc" "gc \<le> 256" "gc \<le> c * y * ex + 2 / 65536"
    using mul2_err[OF v(5,6) y ex(2,3)] by blast
  obtain gd where gd: "fl_mul rnd32 (fl_mul rnd32 (Fin d) (Fin x)) (Fin y) = Fin gd" "0 \<le> gd" "gd \<le> 256" "gd \<le> d * x * y + 2 / 65536"
    using mul2_err[OF v(7,8) x y] by blast
  obtain s1 where s1: "fl_add rnd32 (Fin ga) (Fin gb) = Fin s1" "0 \<le> s1" "s1 \<le> ga + gb + 1 / 8192"
    using add_err[of ga gb] ga gb by auto
  obtain s2 where s2: "fl_add rnd32 (Fin s1) (Fin gc) = Fin s2" "0 \<le> s2" "s2 \<le> s1 + gc + 1 / 8192"
    using add_err[of s1 gc] s1 ga gb gc by auto
  obtain s3 where s3: "fl_add rnd32 (Fin s2) (Fin gd) = Fin s3" "0 \<le> s3" "s3 \<le> s2 + gd + 1 / 8192"
    using add_err[of s2 gd] s2 s1 ga gb gc gd by auto
  have w: "0 \<le> ex * ey" "0 \<le> x * ey" "0 \<le> y * ex" "0 \<le> x * y" using ex ey x y by simp_all
  have "a * ex * ey \<le> 255 * (ex * ey)" "b * x * ey \<le> 255 * (x * ey)" "c * y * ex \<le> 255 * (y * ex)" "d * x * y \<le> 255 * (x * y)"
    unfolding mult.assoc using v w by (intro mult_right_mono; simp)+
  then have "s3 \<le> 255 * ((ex + x) * (ey + y)) + 8 / 65536 + 3 / 8192"
    using ga(4) gb(4) gc(4) gd(4) s1(3) s2(3) s3(3) by (simp add: algebra_simps)
  also have "(ex + x) * (ey + y) \<le> (1 + 1 / 16777216) * (1 + 1 / 16777216)"
    using ex1 ey1 ex(2) ey(2) x y by (intro mult_mono) auto
  finally have "s3 < 256" by simp
  then show ?thesis unfolding weighted_def Let_def ex(1) ey(1) ga(1) gb(1) gc(1) gd(1) s1(1) s2(1) s3(1) using s3(2) by blast
qed

lemma weighted_start:
  assumes "\<bar>n\<bar> \<le> 255" "\<bar>b\<bar> \<le> 255" "\<bar>c\<bar> \<le> 255" "\<bar>d\<bar> \<le> 255"
  shows "weighted (i2f n) (i2f b) (i2f c) (i2f d) (Fin 0) (Fin 0) = Fin (of_int n)"
  using assms rnd32_int[of n] by (simp add: weighted_def Let_def i2f_exact fl_sub_def)

lemma f2u8_byte: "0 \<le> g \<Longrightarrow> g < 256 \<Longrightarrow> \<exists>p. f2u8 (Fin g) = Some p \<and> 0 \<le> p \<and> p \<le> 255"
  by (auto simp: f2u8_def trunc_def Let_def floor_le_iff)

end
