(* ===== verification/Text_Drawing.thy ===== *)
theory Text_Drawing
  imports Image_Drawing Bilinear
begin

text \<open>
  Safety of the text routines of \<^verbatim>\<open>utils/image_drawing.c\<close>: the bilinear resizing of a
  glyph reads inside the 20 by 40 bitmap and fills its buffer, and drawing a text changes only
  pixels inside the box that \<open>get_text_drawing_size\<close> announces.
\<close>

section \<open>Resizing a glyph\<close>

lemma bilinear_at_defined:
  assumes src: "length src = 800" and n: "0 < n" "n \<le> 20000" "0 < n2" "n2 \<le> 20000"
    and ij: "0 \<le> i" "i < n2" "0 \<le> j" "j < n"
  shows "\<exists>g. bilinear_at src 20 (fl_div rnd32 (i2f 19) (i2f n)) (fl_div rnd32 (i2f 39) (i2f n2)) i j = Some g"
proof -
  let ?px = "fl_mul rnd32 (fl_div rnd32 (i2f 19) (i2f n)) (i2f j)" and ?py = "fl_mul rnd32 (fl_div rnd32 (i2f 39) (i2f n2)) (i2f i)"
  obtain x dx where x: "f2i ?px = Some x" "0 \<le> x" "x < 19" "fl_sub rnd32 ?px (i2f x) = Fin dx" "0 \<le> dx" "dx \<le> 1"
    using scaled_index[of 19 n j] n ij by (auto simp: Let_def)
  obtain y dy where y: "f2i ?py = Some y" "0 \<le> y" "y < 39" "fl_sub rnd32 ?py (i2f y) = Fin dy" "0 \<le> dy" "dy \<le> 1"
    using scaled_index[of 39 n2 i] n ij by (auto simp: Let_def)
  obtain ex where ex: "fl_sub rnd32 (Fin 1) (Fin dx) = Fin ex" "0 \<le> ex" "ex \<le> 1" using one_minus[OF x(5,6)] by blast
  obtain ey where ey: "fl_sub rnd32 (Fin 1) (Fin dy) = Fin ey" "0 \<le> ey" "ey \<le> 1" using one_minus[OF y(5,6)] by blast
  have byte: "\<exists>c. rd src k = Some c" if "0 \<le> k" "k < 800" for k using that src by (simp add: rd_Some)
  obtain a where a: "rd src (y * 20 + x) = Some a" using byte[of "y * 20 + x"] x(2,3) y(2,3) by auto
  obtain b where b: "rd src (y * 20 + x + 1) = Some b" using byte[of "y * 20 + x + 1"] x(2,3) y(2,3) by auto
  obtain c where c: "rd src (y * 20 + x + 20) = Some c" using byte[of "y * 20 + x + 20"] x(2,3) y(2,3) by auto
  obtain d where d: "rd src (y * 20 + x + 20 + 1) = Some d" using byte[of "y * 20 + x + 20 + 1"] x(2,3) y(2,3) by auto
  have u: "\<exists>A. i2f (uint z) = Fin A \<and> 0 \<le> A \<and> A \<le> 255" for z :: byte
  proof -
    have "uint z < 256" using uint_lt2p[of z] by simp
    then show ?thesis using i2f_exact[of "uint z"] rnd32_bracket[of 0 255 "of_int (uint z)"] of_int_le_iff[of "uint z" 255, where 'a = rat]
        of_int_le_iff[of 0 "uint z", where 'a = rat] unfolding i2f_def by (simp del: of_int_le_iff)
  qed
  obtain A where A: "i2f (uint a) = Fin A" "0 \<le> A" "A \<le> 255" using u by blast
  obtain B where B: "i2f (uint b) = Fin B" "0 \<le> B" "B \<le> 255" using u by blast
  obtain C where C: "i2f (uint c) = Fin C" "0 \<le> C" "C \<le> 255" using u by blast
  obtain D where D: "i2f (uint d) = Fin D" "0 \<le> D" "D \<le> 255" using u by blast
  have two: "\<exists>r. fl_mul rnd32 (fl_mul rnd32 (Fin p) (Fin s)) (Fin t) = Fin r \<and> 0 \<le> r \<and> r \<le> 255"
    if p: "0 \<le> p" "p \<le> 255" and st: "0 \<le> s" "s \<le> 1" "0 \<le> t" "t \<le> 1" for p s t
  proof -
    obtain r where r: "fl_mul rnd32 (Fin p) (Fin s) = Fin r" "0 \<le> r" "r \<le> 255"
      using mul_unit[of 255 p s] p st by (auto simp del: fl_mul.simps)
    show ?thesis unfolding r(1) using mul_unit[of 255 r t] r st by (auto simp del: fl_mul.simps)
  qed
  obtain ga where ga: "fl_mul rnd32 (fl_mul rnd32 (Fin A) (Fin ex)) (Fin ey) = Fin ga" "0 \<le> ga" "ga \<le> 255"
    using two[OF A(2,3) ex(2,3) ey(2,3)] by blast
  obtain gb where gb: "fl_mul rnd32 (fl_mul rnd32 (Fin B) (Fin dx)) (Fin ey) = Fin gb" "0 \<le> gb" "gb \<le> 255"
    using two[OF B(2,3) x(5,6) ey(2,3)] by blast
  obtain gc where gc: "fl_mul rnd32 (fl_mul rnd32 (Fin C) (Fin dy)) (Fin ex) = Fin gc" "0 \<le> gc" "gc \<le> 255"
    using two[OF C(2,3) y(5,6) ex(2,3)] by blast
  obtain t where t: "fl_mul rnd32 (Fin dx) (Fin dy) = Fin t" "0 \<le> t" "t \<le> 1"
    using mul_unit[of 1 dx dy] x y by (auto simp del: fl_mul.simps)
  obtain gd where gd: "fl_mul rnd32 (Fin D) (Fin t) = Fin gd" "0 \<le> gd" "gd \<le> 255"
    using mul_unit[of 255 D t] D(2,3) t by (auto simp del: fl_mul.simps)
  obtain s1 where s1: "fl_add rnd32 (Fin ga) (Fin gb) = Fin s1" "0 \<le> s1" "s1 \<le> 510"
    using add_bounded[of 510 255 255 ga gb] ga gb by (auto simp del: fl_add.simps)
  obtain s2 where s2: "fl_add rnd32 (Fin s1) (Fin gc) = Fin s2" "0 \<le> s2" "s2 \<le> 765"
    using add_bounded[of 765 510 255 s1 gc] s1 gc by (auto simp del: fl_add.simps)
  obtain s3 where s3: "fl_add rnd32 (Fin s2) (Fin gd) = Fin s3" "0 \<le> s3" "s3 \<le> 1020"
    using add_bounded[of 1020 765 255 s2 gd] s2 gd by (auto simp del: fl_add.simps)
  have "\<exists>g. f2i (Fin s3) = Some g" using f2i_between[of 0 "Fin s3" 1020] s3(2,3) by auto
  then show ?thesis
    unfolding bilinear_at_def Let_def x(1) y(1) Option.bind.simps a b c d
    by (simp add: x y A(1) B(1) C(1) D(1) ex ey ga gb gc t gd s1 s2 s3 del: fl_mul.simps fl_add.simps)
qed

text \<open>The whole glyph: every read is inside the source, every write inside the buffer.\<close>

lemma resize_defined:
  fixes dst :: "byte list"
  assumes src: "length src = 800" and n: "0 \<le> w2" "w2 \<le> 20000" "0 \<le> h2" "h2 \<le> 20000"
    and dst: "w2 * h2 \<le> int (length dst)"
  shows "\<exists>d. resize_bilinear_c1 src 20 40 dst w2 h2 = Some d \<and> length d = length dst"
proof -
  let ?xr = "fl_div rnd32 (i2f (20 - 1)) (i2f w2)" and ?yr = "fl_div rnd32 (i2f (40 - 1)) (i2f h2)"
  let ?inner = "\<lambda>i j (dst :: byte list, offset :: int). map_option Nxt (do {
      gray \<leftarrow> bilinear_at src 20 ?xr ?yr i j;
      dst' \<leftarrow> wr dst offset (word_of_int gray);
      Some (dst', offset + 1)
    })"
  have row: "\<exists>s'. for_up (?inner i) 0 w2 s = Some s' \<and> length (fst s') = length dst \<and> snd s' = (i + 1) * w2"
    if i: "0 \<le> i" "i < h2" and s: "length (fst s) = length dst" "snd s = i * w2" for i and s :: "byte list \<times> int"
  proof -
    let ?Q = "\<lambda>j (s :: byte list \<times> int). length (fst s) = length dst \<and> snd s = i * w2 + j"
    have "\<exists>s'. for_up (?inner i) 0 w2 s = Some s' \<and> ?Q (max 0 w2) s'"
    proof (rule for_up_rule)
      show "?Q 0 s" using s by simp
    next
      fix j t assume j: "0 \<le> j" "j < w2" and t: "?Q j t"
      obtain g where g: "bilinear_at src 20 ?xr ?yr i j = Some g"
        using bilinear_at_defined[OF src, of w2 h2 i j] n i j by auto
      have "0 \<le> i * w2 + j" "i * w2 + j < h2 * w2" using grid_index[OF i j] .
      then have "wr (fst t) (snd t) (word_of_int g) = Some ((fst t)[nat (snd t) := word_of_int g])"
        using t dst by (intro wr_Some) (auto simp: mult.commute)
      then show "(\<exists>t'. ?inner i j t = Some (Nxt t') \<and> ?Q (j + 1) t') \<or> (\<exists>t'. ?inner i j t = Some (Brk t') \<and> ?Q w2 t')"
        using g t by (auto simp: case_prod_beta)
    qed
    then show ?thesis using n by (auto simp: algebra_simps)
  qed
  let ?P = "\<lambda>i (s :: byte list \<times> int). length (fst s) = length dst \<and> snd s = i * w2"
  have "\<exists>s'. for_up (\<lambda>i s. map_option Nxt (for_up (?inner i) 0 w2 s)) 0 h2 (dst, 0) = Some s' \<and> ?P (max 0 h2) s'"
    by (rule for_each_rule) (use row in auto)
  then show ?thesis unfolding resize_bilinear_c1_def Let_def by auto
qed

section \<open>Drawing a glyph\<close>

lemma touched_room: "touched base n w h b S b' \<Longrightarrow> room base n w h pen b \<Longrightarrow> room base n w h pen b'"
  by (simp add: touched_def room_def)

text \<open>Blending with a position-dependent alpha is a canvas, too.\<close>

interpretation blended: canvas "\<lambda>x y. put_px (f x y) base n w pen x y" w h "px_view base n w"
    "\<lambda>x y p. map (\<lambda>k. f x y (p ! k) (pen ! k)) [0..<n]" "image_ok base n w h pen orig"
  for f base n w pen h orig
  by unfold_locales (rule put_px_at_law)

lemma draw_glyph_touched:
  assumes room: "room base n w h pen b" and fs: "0 \<le> fs" and bm: "int (length bitmap) = fs * fs * 2"
  shows "\<exists>b'. draw_glyph n base w h bitmap fs pen cx cy b = Some b' \<and>
    touched base n w h b (in_box cx (cx + fs) cy (cy + fs * 2)) b'"
proof -
  let ?alpha = "\<lambda>k j. bitmap ! nat ((j - cy) * fs + (k - cx))"
  have rd: "rd bitmap ((j - cy) * fs + (k - cx)) = Some (?alpha k j)"
    if "cy \<le> j" "j < cy + fs * 2" "cx \<le> k" "k < cx + fs" for j k
  proof (rule rd_Some)
    have "0 \<le> (j - cy) * fs + (k - cx)" "(j - cy) * fs + (k - cx) < (fs * 2) * fs"
      using grid_index[of "j - cy" "fs * 2" "k - cx" fs] that by simp_all
    then show "0 \<le> (j - cy) * fs + (k - cx)" "(j - cy) * fs + (k - cx) < int (length bitmap)"
      using bm by (simp_all add: mult.assoc mult.left_commute)
  qed
  have "draw_glyph n base w h bitmap fs pen cx cy b =
    clip_loop (\<lambda>j. j < cy + fs * 2) h (\<lambda>j. clip_loop (\<lambda>k. k < cx + fs) w
      (\<lambda>k px. put_px (blend (?alpha k j)) base n w pen k j px) cx) cy b"
    unfolding draw_glyph_def by (intro clip_loop_cong) (simp add: rd)
  then show ?thesis
    using blended.rows[OF room_image_ok[OF room], of "cy + fs * 2" "cx + fs" "\<lambda>k j. blend (?alpha k j)" cx cy]
    by (auto simp: touched_def image_ok_def in_box_def)
qed

section \<open>Drawing a text\<close>

text \<open>The announced box only grows along the text.\<close>

lemma text_size_grows:
  assumes "0 \<le> fs" and "text_size_loop chs fs (w, h, l) = (w', h', l')"
  shows "max w l \<le> max w' l'" and "h \<le> h'"
proof -
  have "max w l \<le> max w' l' \<and> h \<le> h'" using assms
  proof (induction chs arbitrary: w h l)
    case (Cons ch chs)
    show ?case
      using Cons.IH[of "if ch = 10 then max w l else w" "if ch = 10 then h + fs * 2 else h"
          "(if ch = 10 then 0 else l) + (if is_print ch then fs else 0)"] Cons.prems
      by (auto simp: Let_def split: if_splits)
  qed auto
  then show "max w l \<le> max w' l'" "h \<le> h'" by auto
qed

definition font_ok :: "byte list list \<Rightarrow> bool" where
  "font_ok font \<longleftrightarrow> length font = 95 \<and> (\<forall>g \<in> set font. length g = 800)"

lemma font_glyph:
  assumes "font_ok font" and "is_print ch"
  shows "\<exists>g. rd font (uint ch - 32) = Some g \<and> length g = 800"
proof -
  have "32 \<le> uint ch" "uint ch \<le> 126" using assms(2) by (simp_all add: is_print_def word_le_def)
  then have i: "0 \<le> uint ch - 32" "uint ch - 32 < int (length font)" using assms(1) by (simp_all add: font_ok_def)
  then have "font ! nat (uint ch - 32) \<in> set font" by (intro nth_mem) linarith
  then show ?thesis using rd_Some[OF i] assms(1) by (auto simp: font_ok_def)
qed

lemma draw_text_loop_touched:
  assumes font: "font_ok font" and fs: "0 \<le> fs" "fs \<le> 10000"
    and room: "room base n w h pen px" and bm: "int (length bm) = fs * fs * 2"
    and pos: "0 \<le> tw" "0 \<le> th" "0 \<le> lw"
    and size: "text_size_loop chs fs (tw, th, lw) = (tw', th', lw')"
  shows "\<exists>px'. draw_text_loop font n base w h x fs pen chs (x + lw, y + th, bm, px) = Some px' \<and>
    touched base n w h px (in_box x (x + max tw' lw') y (y + th' + fs * 2)) px'"
  using room bm pos size
proof (induction chs arbitrary: px bm tw th lw)
  case Nil
  then show ?case by (auto intro: touched_refl)
next
  case (Cons ch chs)
  let ?B = "in_box x (x + max tw' lw') y (y + th' + fs * 2)"
  obtain tw1 th1 lw1 where s1: "(tw1, th1, lw1) = (if ch = 10 then (max tw lw, th + fs * 2, 0) else (tw, th, lw))"
    by (metis prod_cases3)
  have pos1: "0 \<le> tw1" "0 \<le> th1" "0 \<le> lw1" using s1 Cons.prems(3-5) fs by (auto split: if_splits)
  have cur: "(if ch = 10 then (x, (y + th) + fs * 2) else (x + lw, y + th)) = (x + lw1, y + th1)"
    using s1 by (auto split: if_splits)
  show ?case
  proof (cases "is_print ch")
    case False
    have "text_size_loop chs fs (tw1, th1, lw1) = (tw', th', lw')"
      using Cons.prems(6) False by (simp add: s1[symmetric])
    from Cons.IH[OF Cons.prems(1,2) pos1 this] show ?thesis using False cur by simp
  next
    case True
    have size': "text_size_loop chs fs (tw1, th1, lw1 + fs) = (tw', th', lw')"
      using Cons.prems(6) True by (simp add: s1[symmetric])
    obtain g where g: "rd font (uint ch - 32) = Some g" "length g = 800" using font_glyph[OF font True] by blast
    obtain bm' where bm': "resize_bilinear_c1 g 20 40 bm fs (fs * 2) = Some bm'" "length bm' = length bm"
      using resize_defined[OF g(2), of fs "fs * 2" bm] fs Cons.prems(2) by (auto simp: mult.assoc)
    obtain px1 where px1: "draw_glyph n base w h bm' fs pen (x + lw1) (y + th1) px = Some px1"
      "touched base n w h px (in_box (x + lw1) (x + lw1 + fs) (y + th1) (y + th1 + fs * 2)) px1"
      using draw_glyph_touched[OF Cons.prems(1) fs(1), of bm' "x + lw1" "y + th1"] bm'(2) Cons.prems(2) by auto
    have "lw1 + fs \<le> max tw' lw'" "th1 \<le> th'"
      using text_size_grows[OF fs(1) size'] by auto
    then have px1': "touched base n w h px ?B px1"
      using px1(2) pos1 by (elim touched_mono) (auto simp: in_box_def)
    have "0 \<le> lw1 + fs" using pos1(3) fs(1) by simp
    from Cons.IH[OF touched_room[OF px1(2) Cons.prems(1)] _ pos1(1,2) this size', of bm']
    obtain px' where px': "draw_text_loop font n base w h x fs pen chs (x + (lw1 + fs), y + th1, bm', px1) = Some px'"
      "touched base n w h px1 ?B px'"
      using bm'(2) Cons.prems(2) by auto
    have "draw_text_loop font n base w h x fs pen (ch # chs) (x + lw, y + th, bm, px) = Some px'"
      using True g(1) bm'(1) px1(1) px'(1) by (simp add: cur add.assoc)
    then show ?thesis using touched_trans[OF px1' px'(2)] by blast
  qed
qed



end
