(* ===== verification/Image_Utils.thy ===== *)
theory Image_Utils
  imports Bilinear Image_Drawing Postprocess File_Utils
begin

text \<open>
  \<^verbatim>\<open>utils/image_utils.c\<close>: cropping and scaling by bilinear interpolation, the conversion of an
  image on the CPU or by the RGA hardware, and the letterbox geometry.  The RGA library is a
  parameter.  A null pointer in \<open>virt_addr\<close> is the empty buffer.  Source and destination are different buffers.
\<close>

section \<open>Cropping and scaling\<close>

text \<open>
  The four source offsets and the two fractions for a destination offset \<open>(xo, yo)\<close> in the box:
  at the last column or row the neighbour is the previous one.
\<close>

definition source_at ::
    "int \<Rightarrow> int \<Rightarrow> int \<Rightarrow> int \<Rightarrow> int \<Rightarrow> fl \<Rightarrow> fl \<Rightarrow> int \<Rightarrow> int \<Rightarrow> (int \<times> int \<times> int \<times> int \<times> fl \<times> fl) option" where
  "source_at channel src_width src_height crop_x crop_y x_ratio y_ratio dst_x_offset dst_y_offset =
     do {
       sx \<leftarrow> f2i (fl_mul rnd32 (i2f dst_x_offset) x_ratio);
       sy \<leftarrow> f2i (fl_mul rnd32 (i2f dst_y_offset) y_ratio);
       let src_x = sx + crop_x;
       let src_y = sy + crop_y;
       let x_diff = fl_sub rnd32 (fl_mul rnd32 (i2f dst_x_offset) x_ratio) (i2f (src_x - crop_x));
       let y_diff = fl_sub rnd32 (fl_mul rnd32 (i2f dst_y_offset) y_ratio) (i2f (src_y - crop_y));
       let index1 = src_y * src_width * channel + src_x * channel;
       let index2 = (if src_y = src_height - 1 then index1 - src_width * channel else index1 + src_width * channel);
       let index3 = (if src_x = src_width - 1 then index1 - 1 * channel else index1 + 1 * channel);
       let index4 = (if src_x = src_width - 1 then index2 - 1 * channel else index2 + 1 * channel);
       Some (index1, index2, index3, index4, x_diff, y_diff)
     }"

text \<open>One channel of the pixel; the conversion to \<open>unsigned char\<close> is undefined out of range.\<close>

definition source_byte :: "byte list \<Rightarrow> int \<Rightarrow> int \<times> int \<times> int \<times> int \<times> fl \<times> fl \<Rightarrow> int \<Rightarrow> byte option" where
  "source_byte src sbase s c =
     (case s of (index1, index2, index3, index4, x_diff, y_diff) \<Rightarrow> do {
       A \<leftarrow> rd src (sbase + (index1 + c));
       B \<leftarrow> rd src (sbase + (index3 + c));
       C \<leftarrow> rd src (sbase + (index2 + c));
       D \<leftarrow> rd src (sbase + (index4 + c));
       pixel \<leftarrow> f2u8 (weighted (i2f (uint A)) (i2f (uint B)) (i2f (uint C)) (i2f (uint D)) x_diff y_diff);
       Some (word_of_int pixel)
     })"

text \<open>
  \<open>sbase\<close> and \<open>dbase\<close> are the offsets of the planes in their buffers.
\<close>

definition crop_and_scale_image_c ::
    "int \<Rightarrow> byte list \<Rightarrow> int \<Rightarrow> int \<Rightarrow> int \<Rightarrow> int \<Rightarrow> int \<Rightarrow> int \<Rightarrow> int \<Rightarrow>
     byte list \<Rightarrow> int \<Rightarrow> int \<Rightarrow> int \<Rightarrow> int \<Rightarrow> int \<Rightarrow> int \<Rightarrow> int \<Rightarrow> (int \<times> byte list) option" where
  "crop_and_scale_image_c channel src sbase src_width src_height crop_x crop_y crop_width crop_height
     dst dbase dst_width dst_height dst_box_x dst_box_y dst_box_width dst_box_height =
     (if dst = [] then Some (-1, dst)
      else
        (let x_ratio = fl_div rnd32 (i2f crop_width) (i2f dst_box_width);
             y_ratio = fl_div rnd32 (i2f crop_height) (i2f dst_box_height)
         in map_option (\<lambda>d. (0, d)) (for_up (\<lambda>dst_y d. map_option Nxt (
              for_up (\<lambda>dst_x d. map_option Nxt (do {
                s \<leftarrow> source_at channel src_width src_height crop_x crop_y x_ratio y_ratio
                       (dst_x - dst_box_x) (dst_y - dst_box_y);
                for_up (\<lambda>c d. map_option Nxt (do {
                  pixel \<leftarrow> source_byte src sbase s c;
                  wr d (dbase + ((dst_y * dst_width + dst_x) * channel + c)) pixel
                })) 0 channel d
              })) dst_box_x (dst_box_x + dst_box_width) d)) dst_box_y (dst_box_y + dst_box_height) dst)))"

definition crop_and_scale_image_yuv420sp ::
    "byte list \<Rightarrow> int \<Rightarrow> int \<Rightarrow> int \<Rightarrow> int \<Rightarrow> int \<Rightarrow> int \<Rightarrow>
     byte list \<Rightarrow> int \<Rightarrow> int \<Rightarrow> int \<Rightarrow> int \<Rightarrow> int \<Rightarrow> int \<Rightarrow> (int \<times> byte list) option" where
  "crop_and_scale_image_yuv420sp src src_width src_height crop_x crop_y crop_width crop_height
     dst dst_width dst_height dst_box_x dst_box_y dst_box_width dst_box_height =
     do {
       (_, d) \<leftarrow> crop_and_scale_image_c 1 src 0 src_width src_height crop_x crop_y crop_width crop_height
         dst 0 dst_width dst_height dst_box_x dst_box_y dst_box_width dst_box_height;
       (_, d') \<leftarrow> crop_and_scale_image_c 2 src (src_width * src_height) (src_width sdiv 2) (src_height sdiv 2)
         (crop_x sdiv 2) (crop_y sdiv 2) (crop_width sdiv 2) (crop_height sdiv 2)
         d (dst_width * dst_height) (dst_width sdiv 2) (dst_height sdiv 2) dst_box_x dst_box_y dst_box_width dst_box_height;
       Some (0, d')
     }"

section \<open>Conversion on the CPU\<close>

definition get_image_size :: "image_buffer \<Rightarrow> int" where
  "get_image_size image_buf =
     (case format image_buf of
        IMAGE_FORMAT_GRAY8 \<Rightarrow> width image_buf * height image_buf
      | IMAGE_FORMAT_RGB888 \<Rightarrow> width image_buf * height image_buf * 3
      | IMAGE_FORMAT_RGBA8888 \<Rightarrow> width image_buf * height image_buf * 4
      | IMAGE_FORMAT_YUV420SP_NV12 \<Rightarrow> width image_buf * height image_buf * 3 sdiv 2
      | IMAGE_FORMAT_YUV420SP_NV21 \<Rightarrow> width image_buf * height image_buf * 3 sdiv 2)"

text \<open>\<open>memset\<close> on the first \<open>n\<close> bytes of a buffer.\<close>

definition fill_bytes :: "byte list \<Rightarrow> byte \<Rightarrow> int \<Rightarrow> byte list option" where
  "fill_bytes buf c n =
     (if 0 \<le> n \<and> n \<le> int (length buf) then Some (replicate (nat n) c @ drop (nat n) buf) else None)"

text \<open>A box, or the whole image for a null pointer: x, y, width, height.\<close>

definition box_of :: "image_rect option \<Rightarrow> image_buffer \<Rightarrow> int \<times> int \<times> int \<times> int" where
  "box_of rect im =
     (case rect of
        None \<Rightarrow> (0, 0, width im, height im)
      | Some r \<Rightarrow> (left r, top r, right r - left r + 1, bottom r - top r + 1))"

definition convert_image_cpu ::
    "image_buffer \<Rightarrow> image_buffer \<Rightarrow> image_rect option \<Rightarrow> image_rect option \<Rightarrow> byte \<Rightarrow> (int \<times> image_buffer) option" where
  "convert_image_cpu src dst src_box dst_box color =
     (if virt_addr dst = [] then Some (-1, dst)
      else if virt_addr src = [] then Some (-1, dst)
      else if format src \<noteq> format dst then Some (-1, dst)
      else
        (let (src_box_x, src_box_y, src_box_w, src_box_h) = box_of src_box src;
             (dst_box_x, dst_box_y, dst_box_w, dst_box_h) = box_of dst_box dst;
             scale = (\<lambda>channel d. crop_and_scale_image_c channel (virt_addr src) 0 (width src) (height src)
               src_box_x src_box_y src_box_w src_box_h d 0 (width dst) (height dst)
               dst_box_x dst_box_y dst_box_w dst_box_h)
         in do {
           d \<leftarrow> (if dst_box_w \<noteq> width dst \<or> dst_box_h \<noteq> height dst
                then fill_bytes (virt_addr dst) color (get_image_size dst) else Some (virt_addr dst));
           (reti, d') \<leftarrow>
             (if format src = IMAGE_FORMAT_RGB888 then scale 3 d
              else if format src = IMAGE_FORMAT_RGBA8888 then scale 4 d
              else if format src = IMAGE_FORMAT_GRAY8 then scale 1 d
              else if format src = IMAGE_FORMAT_YUV420SP_NV12 \<or> format src = IMAGE_FORMAT_YUV420SP_NV12
              then crop_and_scale_image_yuv420sp (virt_addr src) (width src) (height src)
                src_box_x src_box_y src_box_w src_box_h d (width dst) (height dst)
                dst_box_x dst_box_y dst_box_w dst_box_h
              else Some (0, d));
           Some (if reti \<noteq> 0 then -1 else 0, dst\<lparr>virt_addr := d'\<rparr>)
         }))"

section \<open>Conversion by the RGA hardware\<close>

definition get_rga_fmt :: "image_format \<Rightarrow> int" where
  "get_rga_fmt fmt =
     (case fmt of
        IMAGE_FORMAT_RGB888 \<Rightarrow> 0x200
      | IMAGE_FORMAT_RGBA8888 \<Rightarrow> 0
      | IMAGE_FORMAT_YUV420SP_NV12 \<Rightarrow> 0xa00
      | IMAGE_FORMAT_YUV420SP_NV21 \<Rightarrow> 0xe00
      | IMAGE_FORMAT_GRAY8 \<Rightarrow> -1)"

text \<open>
  What the library answers: the handles of the two imports (not positive on failure), the status
  of the fill and of the processing, and what these do to the destination's memory, given the format
  and rectangle of both sides.
\<close>

record rga_lib =
  use_handle :: bool
  import_src :: int
  import_dst :: int
  imfill_status :: int
  imfill_mem :: "byte \<Rightarrow> byte list \<Rightarrow> byte list"
  improcess_status :: int
  improcess_mem :: "int \<times> int \<times> int \<times> int \<times> int \<Rightarrow> int \<times> int \<times> int \<times> int \<times> int \<Rightarrow> byte list \<Rightarrow> byte list \<Rightarrow> byte list"

text \<open>The calls that acquire and release a handle, in order.\<close>

datatype handle_call = Import int | Release int

text \<open>
  \<open>err:\<close> both handles are released when they are positive.
\<close>

definition rga_release :: "int \<Rightarrow> int \<Rightarrow> handle_call list" where
  "rga_release h_src h_dst = (if h_src > 0 then [Release h_src] else []) @ (if h_dst > 0 then [Release h_dst] else [])"

definition rga_fill :: "rga_lib \<Rightarrow> image_buffer \<Rightarrow> int \<times> int \<Rightarrow> byte \<Rightarrow> byte list option" where
  "rga_fill lib dst_img box color =
     (if fst box \<noteq> width dst_img \<or> snd box \<noteq> height dst_img then
        let d = imfill_mem lib color (virt_addr dst_img)
        in if imfill_status lib \<le> 0 then
             (if d \<noteq> [] then fill_bytes d color (get_image_size dst_img) else Some d)
           else Some d
      else Some (virt_addr dst_img))"

definition rga_process ::
    "rga_lib \<Rightarrow> image_buffer \<Rightarrow> image_buffer \<Rightarrow> image_rect option \<Rightarrow> image_rect option \<Rightarrow> byte \<Rightarrow> (int \<times> image_buffer) option" where
  "rga_process lib src_img dst_img src_box dst_box color =
     (let srect = box_of src_box src_img; (drect_x, drect_y, drect_w, drect_h) = box_of dst_box dst_img
      in do {
        d \<leftarrow> rga_fill lib dst_img (drect_w, drect_h) color;
        let d' = improcess_mem lib (get_rga_fmt (format src_img), srect)
          (get_rga_fmt (format dst_img), drect_x, drect_y, drect_w, drect_h) (virt_addr src_img) d;
        Some (if improcess_status lib \<le> 0 then -1 else 0, dst_img\<lparr>virt_addr := d'\<rparr>)
      })"

definition convert_image_rga ::
    "rga_lib \<Rightarrow> image_buffer \<Rightarrow> image_buffer \<Rightarrow> image_rect option \<Rightarrow> image_rect option \<Rightarrow> byte \<Rightarrow>
     (int \<times> image_buffer \<times> handle_call list) option" where
  "convert_image_rga lib src_img dst_img src_box dst_box color =
     (if use_handle lib then
        (if import_src lib \<le> 0 then Some (-1, dst_img, rga_release (import_src lib) 0)
         else if import_dst lib \<le> 0 then
           Some (-1, dst_img, Import (import_src lib) # rga_release (import_src lib) (import_dst lib))
         else map_option (\<lambda>(ret, dst). (ret, dst, [Import (import_src lib), Import (import_dst lib)] @
                rga_release (import_src lib) (import_dst lib)))
              (rga_process lib src_img dst_img src_box dst_box color))
      else map_option (\<lambda>(ret, dst). (ret, dst, rga_release 0 0)) (rga_process lib src_img dst_img src_box dst_box color))"

text \<open>The hardware first, the CPU when it fails.\<close>

definition convert_image ::
    "rga_lib \<Rightarrow> image_buffer \<Rightarrow> image_buffer \<Rightarrow> image_rect option \<Rightarrow> image_rect option \<Rightarrow> byte \<Rightarrow>
     (int \<times> image_buffer) option" where
  "convert_image lib src_img dst_img src_box dst_box color =
     do {
       (ret, dst, _) \<leftarrow> convert_image_rga lib src_img dst_img src_box dst_box color;
       if ret \<noteq> 0 then convert_image_cpu src_img dst src_box dst_box color else Some (ret, dst)
     }"

section \<open>Letterbox\<close>

record letterbox_t =
  x_pad :: int
  y_pad :: int
  lb_scale :: fl

text \<open>
  The size of the scaled image, aligned to 4 columns and 2 rows, and its box in the destination;
  \<open>(int) src_h*scale\<close> converts \<open>src_h\<close>, not the product, so the product is converted by the assignment.
\<close>

definition align_down :: "int \<Rightarrow> int \<Rightarrow> int" where
  "align_down a n = (if a smod n \<noteq> 0 then a - a smod n else a)"

definition center_even :: "int \<Rightarrow> int" where
  "center_even padding =
     (let p = padding sdiv 2
      in if p smod 2 \<noteq> 0 then (let p' = p - p smod 2 in if p' < 0 then 0 else p') else p)"

definition letterbox_geometry :: "int \<Rightarrow> int \<Rightarrow> int \<Rightarrow> int \<Rightarrow> (image_rect \<times> letterbox_t) option" where
  "letterbox_geometry src_w src_h dst_w dst_h =
     (let scale_w = fl_div rnd32 (i2f dst_w) (i2f src_w);
          scale_h = fl_div rnd32 (i2f dst_h) (i2f src_h)
      in if fl_less scale_w scale_h then do {
           rh \<leftarrow> f2i (fl_mul rnd32 (i2f src_h) scale_w);
           let resize_h = align_down rh 2;
           let t = center_even (dst_h - resize_h);
           Some (\<lparr>left = 0, top = t, right = dst_w - 1, bottom = t + resize_h - 1\<rparr>,
                 \<lparr>x_pad = 0, y_pad = t, lb_scale = scale_w\<rparr>)
         }
         else do {
           rw \<leftarrow> f2i (fl_mul rnd32 (i2f src_w) scale_h);
           let resize_w = align_down rw 4;
           let l = center_even (dst_w - resize_w);
           Some (\<lparr>left = l, top = 0, right = l + resize_w - 1, bottom = dst_h - 1\<rparr>,
                 \<lparr>x_pad = l, y_pad = 0, lb_scale = scale_h\<rparr>)
         })"

definition convert_image_with_letterbox ::
    "rga_lib \<Rightarrow> (int \<Rightarrow> bool) \<Rightarrow> image_buffer \<Rightarrow> image_buffer \<Rightarrow> byte \<Rightarrow>
     (int \<times> image_buffer \<times> letterbox_t) option" where
  "convert_image_with_letterbox lib malloc_ok src_image dst_image color =
     do {
       (dst_box, lb) \<leftarrow> letterbox_geometry (width src_image) (height src_image) (width dst_image) (height dst_image);
       let src_box = \<lparr>left = 0, top = 0, right = width src_image - 1, bottom = height src_image - 1\<rparr>;
       if virt_addr dst_image = [] \<and> fd dst_image \<le> 0 then
         (if \<not> malloc_ok (get_image_size dst_image) then Some (-1, dst_image, lb)
          else do {
            (ret, dst) \<leftarrow> convert_image lib src_image
              (dst_image\<lparr>virt_addr := replicate (nat (get_image_size dst_image)) 0\<rparr>) (Some src_box) (Some dst_box) color;
            Some (ret, dst, lb)
          })
       else do {
         (ret, dst) \<leftarrow> convert_image lib src_image dst_image (Some src_box) (Some dst_box) color;
         Some (ret, dst, lb)
       }
     }"

section \<open>What the scaler computes\<close>

lemma neighbour_bounds:
  assumes "0 \<le> (a::int)" "a < w" "2 \<le> w"
  shows "0 \<le> (if a = w - 1 then a - 1 else a + 1)" and "(if a = w - 1 then a - 1 else a + 1) < w"
  using assms by auto

text \<open>All four source pixels lie inside the image, for a crop inside it and two rows and columns.\<close>

lemma source_at_ok:
  assumes crop: "0 \<le> cx" "1 \<le> cw" "cx + cw \<le> sw" "0 \<le> cy" "1 \<le> ch" "cy + ch \<le> sh"
    and src: "2 \<le> sw" "2 \<le> sh" "sw < 16777216" "sh < 16777216"
    and box: "bw \<le> 65536" "bh \<le> 65536" and o: "0 \<le> xo" "xo < bw" "0 \<le> yo" "yo < bh"
  shows "\<exists>i1 i2 i3 i4 dx dy. source_at (int n) sw sh cx cy (fl_div rnd32 (i2f cw) (i2f bw)) (fl_div rnd32 (i2f ch) (i2f bh)) xo yo =
      Some (i1, i2, i3, i4, Fin dx, Fin dy) \<and> 0 \<le> dx \<and> dx \<le> 1 \<and> 0 \<le> dy \<and> dy \<le> 1 \<and>
      (\<forall>i \<in> {i1, i2, i3, i4}. \<forall>c. 0 \<le> c \<and> c < int n \<longrightarrow> 0 \<le> i + c \<and> i + c < sw * sh * int n)"
proof -
  obtain kx dx where x: "f2i (fl_mul rnd32 (i2f xo) (fl_div rnd32 (i2f cw) (i2f bw))) = Some kx" "0 \<le> kx" "kx < cw"
    "fl_sub rnd32 (fl_mul rnd32 (i2f xo) (fl_div rnd32 (i2f cw) (i2f bw))) (i2f kx) = Fin dx" "0 \<le> dx" "dx \<le> 1"
    using scaled_index[of cw bw xo] crop src box o unfolding Let_def fl_mul_commute[of _ _ "i2f xo"] by auto
  obtain ky dy where y: "f2i (fl_mul rnd32 (i2f yo) (fl_div rnd32 (i2f ch) (i2f bh))) = Some ky" "0 \<le> ky" "ky < ch"
    "fl_sub rnd32 (fl_mul rnd32 (i2f yo) (fl_div rnd32 (i2f ch) (i2f bh))) (i2f ky) = Fin dy" "0 \<le> dy" "dy \<le> 1"
    using scaled_index[of ch bh yo] crop src box o unfolding Let_def fl_mul_commute[of _ _ "i2f yo"] by auto
  let ?x = "kx + cx" and ?y = "ky + cy"
  let ?x' = "if ?x = sw - 1 then ?x - 1 else ?x + 1" and ?y' = "if ?y = sh - 1 then ?y - 1 else ?y + 1"
  let ?i = "\<lambda>a b. b * sw * int n + a * int n"
  have xy: "0 \<le> ?x" "?x < sw" "0 \<le> ?y" "?y < sh" using x y crop by auto
  have inside: "0 \<le> ?i a b + c \<and> ?i a b + c < sw * sh * int n"
    if "0 \<le> a" "a < sw" "0 \<le> b" "b < sh" "0 \<le> c" "c < int n" for a b c
    using px_offset[OF that] by (simp add: mult.commute mult.left_commute)
  have all: "\<forall>i \<in> {?i ?x ?y, ?i ?x ?y', ?i ?x' ?y, ?i ?x' ?y'}. \<forall>c. 0 \<le> c \<and> c < int n \<longrightarrow>
      0 \<le> i + c \<and> i + c < sw * sh * int n"
    using inside xy neighbour_bounds[OF xy(1,2) src(1)] neighbour_bounds[OF xy(3,4) src(2)] by blast
  have "source_at (int n) sw sh cx cy (fl_div rnd32 (i2f cw) (i2f bw)) (fl_div rnd32 (i2f ch) (i2f bh)) xo yo =
      Some (?i ?x ?y, ?i ?x ?y', ?i ?x' ?y, ?i ?x' ?y', Fin dx, Fin dy)"
    using x y by (auto simp: source_at_def Let_def algebra_simps)
  then show ?thesis using all x(5,6) y(5,6) by blast
qed

lemma source_byte_ok:
  assumes "0 \<le> dx" "dx \<le> 1" "0 \<le> dy" "dy \<le> 1"
    and "\<forall>i \<in> {i1, i2, i3, i4}. 0 \<le> i + c \<and> i + c < m" and "0 \<le> sbase" "sbase + m \<le> int (length src)"
  shows "\<exists>p. source_byte src sbase (i1, i2, i3, i4, Fin dx, Fin dy) c = Some p"
proof -
  have r: "\<exists>b. rd src (sbase + (i + c)) = Some b" if "i \<in> {i1, i2, i3, i4}" for i
    using assms(5-7) that by (auto simp: rd_Some)
  obtain A where A: "rd src (sbase + (i1 + c)) = Some A" using r by blast
  obtain B where B: "rd src (sbase + (i3 + c)) = Some B" using r by blast
  obtain C where C: "rd src (sbase + (i2 + c)) = Some C" using r by blast
  obtain D where D: "rd src (sbase + (i4 + c)) = Some D" using r by blast
  have u: "\<exists>a. i2f (uint z) = Fin a \<and> 0 \<le> a \<and> a \<le> 255" for z :: byte
  proof -
    have "uint z < 256" using uint_lt2p[of z] by simp
    then show ?thesis using rnd32_bracket[of 0 255 "of_int (uint z)"] of_int_le_iff[of "uint z" 255, where 'a = rat]
        of_int_le_iff[of 0 "uint z", where 'a = rat] unfolding i2f_def by (simp del: of_int_le_iff)
  qed
  obtain a where a: "i2f (uint A) = Fin a" "0 \<le> a" "a \<le> 255" using u by blast
  obtain b where b: "i2f (uint B) = Fin b" "0 \<le> b" "b \<le> 255" using u by blast
  obtain c' where c': "i2f (uint C) = Fin c'" "0 \<le> c'" "c' \<le> 255" using u by blast
  obtain d where d: "i2f (uint D) = Fin d" "0 \<le> d" "d \<le> 255" using u by blast
  obtain g where g: "weighted (Fin a) (Fin b) (Fin c') (Fin d) (Fin dx) (Fin dy) = Fin g" "0 \<le> g" "g < 256"
    using weighted_byte[OF a(2,3) b(2,3) c'(2,3) d(2,3) assms(1-4)] by blast
  then show ?thesis
    using f2u8_byte[OF g(2,3)] by (auto simp: source_byte_def A B C D a(1) b(1) c'(1) d(1) g(1))
qed

text \<open>The loop over the channels writes a pixel.\<close>

lemma channel_loop_from:
  assumes "\<And>k. k < length ps \<Longrightarrow> f (int k) = Some (ps ! k)" and "j \<le> length ps"
  shows "for_up (\<lambda>c d. map_option Nxt (do { p \<leftarrow> f c; wr d (off + c) p })) (int j) (int (length ps)) d =
    upd_bytes (\<lambda>old c. c) (drop j ps) (off + int j) d"
  using assms(2)
proof (induction "length ps - j" arbitrary: j d)
  case 0
  then show ?case by (simp add: for_up_done)
next
  case (Suc m)
  then have j: "j < length ps" by simp
  have IH: "for_up (\<lambda>c d. map_option Nxt (do { p \<leftarrow> f c; wr d (off + c) p })) (int j + 1) (int (length ps)) t =
      upd_bytes (\<lambda>old c. c) (drop (Suc j) ps) (off + int j + 1) t" for t
    using Suc.hyps(1)[of "Suc j" t] Suc.hyps(2) Suc.prems j by (simp add: add.commute add.left_commute)
  have "drop j ps = ps ! j # drop (Suc j) ps" using j by (simp add: Cons_nth_drop_Suc)
  show ?case
  proof (cases "0 \<le> off + int j \<and> off + int j < int (length d)")
    case True
    then have "rd d (off + int j) = Some (d ! nat (off + int j))" "wr d (off + int j) v = Some (d[nat (off + int j) := v])" for v
      by (simp_all add: rd_Some wr_Some)
    then show ?thesis using j assms(1)[OF j] IH \<open>drop j ps = _\<close> by (simp add: for_up_step)
  next
    case False
    then have "rd d (off + int j) = None" "wr d (off + int j) v = None" for v by (auto simp: rd_def wr_def)
    then show ?thesis using j assms(1)[OF j] \<open>drop j ps = _\<close> by (simp add: for_up_step)
  qed
qed

lemma channel_loop:
  assumes "\<And>k. k < n \<Longrightarrow> f (int k) = Some (ps ! k)" and "length ps = n"
  shows "for_up (\<lambda>c d. map_option Nxt (do { p \<leftarrow> f c; wr d (off + c) p })) 0 (int n) d =
    upd_bytes (\<lambda>old c. c) ps off d"
  using channel_loop_from[of ps f 0 off d] assms by simp

text \<open>The pixel of the scaled image at a destination offset.\<close>

definition scaled_pixel ::
    "nat \<Rightarrow> byte list \<Rightarrow> int \<Rightarrow> int \<Rightarrow> int \<Rightarrow> int \<Rightarrow> int \<Rightarrow> int \<Rightarrow> int \<Rightarrow> int \<Rightarrow> int \<Rightarrow> int \<Rightarrow> int \<Rightarrow> byte list" where
  "scaled_pixel n src sbase sw sh cx cy cw ch bw bh xo yo =
     (let s = the (source_at (int n) sw sh cx cy (fl_div rnd32 (i2f cw) (i2f bw)) (fl_div rnd32 (i2f ch) (i2f bh)) xo yo)
      in map (\<lambda>k. the (source_byte src sbase s (int k))) [0..<n])"

definition crop_ok :: "int \<Rightarrow> int \<Rightarrow> int \<Rightarrow> int \<Rightarrow> int \<Rightarrow> int \<Rightarrow> bool" where
  "crop_ok sw sh cx cy cw ch \<longleftrightarrow>
     2 \<le> sw \<and> 2 \<le> sh \<and> sw < 16777216 \<and> sh < 16777216 \<and>
     0 \<le> cx \<and> 1 \<le> cw \<and> cx + cw \<le> sw \<and> 0 \<le> cy \<and> 1 \<le> ch \<and> cy + ch \<le> sh"

definition dst_box_ok :: "int \<Rightarrow> int \<Rightarrow> int \<Rightarrow> int \<Rightarrow> int \<Rightarrow> int \<Rightarrow> bool" where
  "dst_box_ok dw dh bx by' bw bh \<longleftrightarrow>
     0 \<le> bx \<and> bw \<le> 65536 \<and> bx + bw \<le> dw \<and> 0 \<le> by' \<and> bh \<le> 65536 \<and> by' + bh \<le> dh"

lemma pixel_write:
  assumes crop: "crop_ok sw sh cx cy cw ch" and box: "bw \<le> 65536" "bh \<le> 65536"
    and src: "0 \<le> sbase" "sbase + sw * sh * int n \<le> int (length src)"
    and o: "0 \<le> xo" "xo < bw" "0 \<le> yo" "yo < bh"
  shows "(do {
      s \<leftarrow> source_at (int n) sw sh cx cy (fl_div rnd32 (i2f cw) (i2f bw)) (fl_div rnd32 (i2f ch) (i2f bh)) xo yo;
      for_up (\<lambda>c d. map_option Nxt (do {
        pixel \<leftarrow> source_byte src sbase s c;
        wr d (dbase + ((y * dw + x) * int n + c)) pixel
      })) 0 (int n) d
    }) = put_px (\<lambda>old c. c) dbase n dw (scaled_pixel n src sbase sw sh cx cy cw ch bw bh xo yo) x y d"
proof -
  obtain i1 i2 i3 i4 dx dy where s: "source_at (int n) sw sh cx cy (fl_div rnd32 (i2f cw) (i2f bw)) (fl_div rnd32 (i2f ch) (i2f bh)) xo yo =
      Some (i1, i2, i3, i4, Fin dx, Fin dy)" "0 \<le> dx" "dx \<le> 1" "0 \<le> dy" "dy \<le> 1"
      "\<forall>i \<in> {i1, i2, i3, i4}. \<forall>c. 0 \<le> c \<and> c < int n \<longrightarrow> 0 \<le> i + c \<and> i + c < sw * sh * int n"
    using source_at_ok[OF _ _ _ _ _ _ _ _ _ _ box o, of cx cw sw cy ch sh n] crop unfolding crop_ok_def by blast
  let ?ps = "scaled_pixel n src sbase sw sh cx cy cw ch bw bh xo yo"
  have byte: "source_byte src sbase (i1, i2, i3, i4, Fin dx, Fin dy) (int k) = Some (?ps ! k)" if "k < n" for k
  proof -
    have "\<forall>i \<in> {i1, i2, i3, i4}. 0 \<le> i + int k \<and> i + int k < sw * sh * int n" using s(6) that by auto
    from source_byte_ok[OF s(2-5) this src] show ?thesis using that by (auto simp: scaled_pixel_def s(1))
  qed
  have len: "length ?ps = n" by (simp add: scaled_pixel_def)
  have "for_up (\<lambda>c d. map_option Nxt (do {
        pixel \<leftarrow> source_byte src sbase (i1, i2, i3, i4, Fin dx, Fin dy) c;
        wr d (dbase + (y * dw + x) * int n + c) pixel
      })) 0 (int n) d = upd_bytes (\<lambda>old c. c) ?ps (dbase + (y * dw + x) * int n) d"
    by (rule channel_loop[OF byte len])
  then show ?thesis unfolding s(1) put_px_def using len by (simp add: algebra_simps)
qed

text \<open>
  The scaled image: defined, exact in its box, and nothing else changes.
\<close>

lemma crop_and_scale_spec:
  assumes crop: "crop_ok sw sh cx cy cw ch" and box: "dst_box_ok dw dh bx by' bw bh"
    and src: "0 \<le> sbase" "sbase + sw * sh * int n \<le> int (length src)"
    and dst: "dst \<noteq> []" "0 \<le> dbase" "dbase + dw * dh * int n \<le> int (length dst)"
  shows "\<exists>d. crop_and_scale_image_c (int n) src sbase sw sh cx cy cw ch dst dbase dw dh bx by' bw bh = Some (0, d) \<and>
    length d = length dst \<and>
    (\<forall>i < length dst. int i < dbase \<or> dbase + dw * dh * int n \<le> int i \<longrightarrow> d ! i = dst ! i) \<and>
    (\<forall>u v. 0 \<le> u \<and> u < dw \<and> 0 \<le> v \<and> v < dh \<longrightarrow> px_view dbase n dw d u v =
       (if in_box bx (bx + bw) by' (by' + bh) u v
        then scaled_pixel n src sbase sw sh cx cy cw ch bw bh (u - bx) (v - by') else px_view dbase n dw dst u v))"
proof -
  let ?pen = "\<lambda>x y. scaled_pixel n src sbase sw sh cx cy cw ch bw bh (x - bx) (y - by')"
  let ?pixel = "\<lambda>dst_y dst_x d. do {
      s \<leftarrow> source_at (int n) sw sh cx cy (fl_div rnd32 (i2f cw) (i2f bw)) (fl_div rnd32 (i2f ch) (i2f bh)) (dst_x - bx) (dst_y - by');
      for_up (\<lambda>c d. map_option Nxt (do {
        pixel \<leftarrow> source_byte src sbase s c;
        wr d (dbase + ((dst_y * dw + dst_x) * int n + c)) pixel
      })) 0 (int n) d
    }"
  let ?op = "\<lambda>x y. put_px (\<lambda>old c. c) dbase n dw (?pen x y) x y"
  have b: "0 \<le> bx" "bw \<le> 65536" "bx + bw \<le> dw" "0 \<le> by'" "bh \<le> 65536" "by' + bh \<le> dh"
    using box by (auto simp: dst_box_ok_def)
  have row: "for_up (\<lambda>x d. map_option Nxt (?pixel y x d)) bx (bx + bw) d =
      clip_loop (\<lambda>x. x < bx + bw) dw (\<lambda>x. ?op x y) bx d" if "by' \<le> y" "y < by' + bh" for y d
    unfolding for_up_clip_loop[OF b(1,3)]
    by (rule clip_loop_cong, rule pixel_write[OF crop b(2,5) src]) (use that in auto)
  have all: "for_up (\<lambda>y d. map_option Nxt (for_up (\<lambda>x d. map_option Nxt (?pixel y x d)) bx (bx + bw) d)) by' (by' + bh) d =
      clip_loop (\<lambda>y. y < by' + bh) dh (\<lambda>y. clip_loop (\<lambda>x. x < bx + bw) dw (\<lambda>x. ?op x y) bx) by' d" for d
    unfolding for_up_clip_loop[OF b(4,6)] by (rule clip_loop_cong) (rule row)
  have law: "pixel_law ?op dw dh (px_view dbase n dw) (\<lambda>x y p. map (\<lambda>k. ?pen x y ! k) [0..<n])
      (image_ok dbase n dw dh (replicate n 0) dst)"
    by (rule put_px_pen_law[where f = "\<lambda>_ _ old c. c"]) (simp add: scaled_pixel_def)
  have ok: "image_ok dbase n dw dh (replicate n 0) dst dst" using dst by (auto simp: image_ok_def)
  have pen: "map (\<lambda>k. ?pen x y ! k) [0..<n] = ?pen x y" for x y
    by (rule nth_equalityI) (simp_all add: scaled_pixel_def)
  from canvas.rows[OF canvas.intro[OF law] ok, of "by' + bh" "bx + bw" bx by']
  obtain d where d: "clip_loop (\<lambda>y. y < by' + bh) dh (\<lambda>y. clip_loop (\<lambda>x. x < bx + bw) dw (\<lambda>x. ?op x y) bx) by' dst = Some d"
    "image_ok dbase n dw dh (replicate n 0) dst d"
    "\<forall>u v. 0 \<le> u \<and> u < dw \<and> 0 \<le> v \<and> v < dh \<longrightarrow> px_view dbase n dw d u v =
       (if bx \<le> u \<and> u < bx + bw \<and> by' \<le> v \<and> v < by' + bh then ?pen u v else px_view dbase n dw dst u v)"
    unfolding pen by blast
  have "crop_and_scale_image_c (int n) src sbase sw sh cx cy cw ch dst dbase dw dh bx by' bw bh = Some (0, d)"
    using dst(1) d(1) unfolding crop_and_scale_image_c_def Let_def all by simp
  then show ?thesis using d(2,3) by (auto simp: image_ok_def in_box_def)
qed

subsection \<open>Scaling to the same size\<close>

lemma scaled_same:
  assumes "1 \<le> m" "m < 16777216" "0 \<le> j" "j < m"
  shows "fl_mul rnd32 (i2f j) (fl_div rnd32 (i2f m) (i2f m)) = Fin (of_int j)"
  using assms rnd32_int[of j] by (simp add: i2f_exact)

lemma f2u8_of_int: "0 \<le> n \<Longrightarrow> n \<le> 255 \<Longrightarrow> f2u8 (Fin (of_int n)) = Some n"
  by (simp add: f2u8_def Let_def)

lemma scaled_pixel_same:
  assumes crop: "crop_ok sw sh cx cy cw ch" and o: "0 \<le> xo" "xo < cw" "0 \<le> yo" "yo < ch"
    and box: "cw \<le> 65536" "ch \<le> 65536" and src: "0 \<le> sbase" "sbase + sw * sh * int n \<le> int (length src)"
  shows "scaled_pixel n src sbase sw sh cx cy cw ch cw ch xo yo = px_view sbase n sw src (cx + xo) (cy + yo)"
proof -
  have c: "1 \<le> cw" "cw < 16777216" "1 \<le> ch" "ch < 16777216" using crop by (auto simp: crop_ok_def)
  have f: "f2i (Fin (of_int xo)) = Some xo" "f2i (Fin (of_int yo)) = Some yo" using o c by (auto intro: f2i_of_int)
  have i: "i2f xo = Fin (of_int xo)" "i2f yo = Fin (of_int yo)" using o c by (auto intro: i2f_exact)
  obtain i2 i3 i4 where s: "source_at (int n) sw sh cx cy (fl_div rnd32 (i2f cw) (i2f cw)) (fl_div rnd32 (i2f ch) (i2f ch)) xo yo =
      Some ((yo + cy) * sw * int n + (xo + cx) * int n, i2, i3, i4, Fin 0, Fin 0)"
    unfolding source_at_def scaled_same[OF c(1,2) o(1,2)] scaled_same[OF c(3,4) o(3,4)] f Option.bind.simps Let_def
    by (simp add: i fl_sub_def)
  have all: "\<forall>j \<in> {(yo + cy) * sw * int n + (xo + cx) * int n, i2, i3, i4}. \<forall>k. 0 \<le> k \<and> k < int n \<longrightarrow> 0 \<le> j + k \<and> j + k < sw * sh * int n"
    using source_at_ok[of cx cw sw cy ch sh cw ch xo yo n] crop o box unfolding s crop_ok_def by auto
  have "source_byte src sbase ((yo + cy) * sw * int n + (xo + cx) * int n, i2, i3, i4, Fin 0, Fin 0) (int k) =
      Some (src ! nat (sbase + sw * int n * (cy + yo) + (cx + xo) * int n + int k))" if k: "k < n" for k
  proof -
    let ?i = "(yo + cy) * sw * int n + (xo + cx) * int n"
    have r: "rd src (sbase + (j + int k)) = Some (src ! nat (sbase + (j + int k)))" if "j \<in> {?i, i2, i3, i4}" for j
      using bspec[OF all that, THEN spec, of "int k"] k src by (intro rd_Some) auto
    have u: "0 \<le> uint b" "uint b \<le> 255" for b :: byte using uint_lt2p[of b] by simp_all
    have f: "f2u8 (Fin (of_int (uint b))) = Some (uint b)" for b :: byte
      using f2u8_of_int[OF u] .
    have w: "weighted (i2f (uint a)) (i2f (uint b)) (i2f (uint c)) (i2f (uint d)) (Fin 0) (Fin 0) = Fin (of_int (uint a))"
      for a b c d :: byte using u by (intro weighted_start) auto
    show ?thesis
      unfolding source_byte_def prod.case r[of ?i, simplified] r[of i2, simplified] r[of i3, simplified] r[of i4, simplified]
        Option.bind.simps w f by (simp add: algebra_simps)
  qed
  then show ?thesis by (simp add: scaled_pixel_def s px_view_def)
qed

section \<open>The conversion on the CPU\<close>

fun cpu_channels :: "image_format \<Rightarrow> nat option" where
  "cpu_channels IMAGE_FORMAT_GRAY8 = Some 1"
| "cpu_channels IMAGE_FORMAT_RGB888 = Some 3"
| "cpu_channels IMAGE_FORMAT_RGBA8888 = Some 4"
| "cpu_channels _ = None"

text \<open>An image with its pixels in memory.\<close>

definition has_pixels :: "image_buffer \<Rightarrow> nat \<Rightarrow> bool" where
  "has_pixels im n \<longleftrightarrow> virt_addr im \<noteq> [] \<and> 0 \<le> width im \<and> 0 \<le> height im \<and>
     width im * height im * int n \<le> int (length (virt_addr im))"

lemma cpu_channels_cases:
  assumes "cpu_channels f = Some n"
  obtains "f = IMAGE_FORMAT_GRAY8" "n = 1" | "f = IMAGE_FORMAT_RGB888" "n = 3" | "f = IMAGE_FORMAT_RGBA8888" "n = 4"
  using assms by (cases f) auto

lemma fill_bytes_px:
  assumes "0 \<le> w" "0 \<le> h" "w * h * int n \<le> int (length b)"
  shows "\<exists>d. fill_bytes b color (w * h * int n) = Some d \<and> length d = length b \<and>
    (\<forall>i < length b. w * h * int n \<le> int i \<longrightarrow> d ! i = b ! i) \<and>
    (\<forall>u v. 0 \<le> u \<and> u < w \<and> 0 \<le> v \<and> v < h \<longrightarrow> px_view 0 n w d u v = replicate n color)"
proof -
  let ?m = "w * h * int n"
  let ?d = "replicate (nat ?m) color @ drop (nat ?m) b"
  have m: "0 \<le> ?m" using assms by simp
  have "px_view 0 n w ?d u v = replicate n color" if uv: "0 \<le> u \<and> u < w \<and> 0 \<le> v \<and> v < h" for u v
  proof (rule nth_equalityI)
    fix k assume "k < length (px_view 0 n w ?d u v)"
    then have k: "k < n" by (simp add: px_view_def)
    have "0 \<le> w * int n * v + u * int n + int k" "w * int n * v + u * int n + int k < ?m"
      using px_offset[of u w v h "int k" n] uv k by auto
    then show "px_view 0 n w ?d u v ! k = replicate n color ! k"
      using k by (simp add: px_view_def nth_append nat_less_iff)
  qed (simp add: px_view_def)
  moreover have "?d ! i = b ! i" if "i < length b" "?m \<le> int i" for i
    using that m by (auto simp: nth_append nat_le_iff)
  ultimately show ?thesis using assms(3) m by (auto simp: fill_bytes_def)
qed

text \<open>The conversion with all of its effect on the destination.\<close>

lemma convert_cpu_spec:
  assumes fmt: "format src = format dst" "cpu_channels (format src) = Some n"
    and mem: "has_pixels src n" "has_pixels dst n"
    and sbox: "box_of src_box src = (cx, cy, cw, ch)" "crop_ok (width src) (height src) cx cy cw ch"
    and dbox: "box_of dst_box dst = (bx, y0, bw, bh)" "dst_box_ok (width dst) (height dst) bx y0 bw bh"
  shows "\<exists>d. convert_image_cpu src dst src_box dst_box color = Some (0, dst\<lparr>virt_addr := d\<rparr>) \<and>
    length d = length (virt_addr dst) \<and>
    (\<forall>i < length d. width dst * height dst * int n \<le> int i \<longrightarrow> d ! i = virt_addr dst ! i) \<and>
    (\<forall>u v. 0 \<le> u \<and> u < width dst \<and> 0 \<le> v \<and> v < height dst \<longrightarrow> px_view 0 n (width dst) d u v =
       (if in_box bx (bx + bw) y0 (y0 + bh) u v
        then scaled_pixel n (virt_addr src) 0 (width src) (height src) cx cy cw ch bw bh (u - bx) (v - y0)
        else replicate n color))"
proof -
  let ?w = "width dst" and ?h = "height dst"
  have m: "virt_addr dst \<noteq> []" "virt_addr src \<noteq> []" "0 \<le> ?w" "0 \<le> ?h" "?w * ?h * int n \<le> int (length (virt_addr dst))"
    "width src * height src * int n \<le> int (length (virt_addr src))"
    using mem by (auto simp: has_pixels_def)
  have size: "get_image_size dst = ?w * ?h * int n"
    using cpu_channels_cases[OF fmt(2)] fmt(1) by cases (simp_all add: get_image_size_def)
  obtain b where b: "(if bw \<noteq> ?w \<or> bh \<noteq> ?h then fill_bytes (virt_addr dst) color (get_image_size dst) else Some (virt_addr dst)) = Some b"
    "length b = length (virt_addr dst)" "\<forall>i < length b. ?w * ?h * int n \<le> int i \<longrightarrow> b ! i = virt_addr dst ! i"
    "bw = ?w \<and> bh = ?h \<or> (\<forall>u v. 0 \<le> u \<and> u < ?w \<and> 0 \<le> v \<and> v < ?h \<longrightarrow> px_view 0 n ?w b u v = replicate n color)"
    using fill_bytes_px[OF m(3-5), of color] size by (cases "bw = ?w \<and> bh = ?h") auto
  have b0: "b \<noteq> []" using b(2) m(1) by auto
  obtain d where d: "crop_and_scale_image_c (int n) (virt_addr src) 0 (width src) (height src) cx cy cw ch b 0 ?w ?h bx y0 bw bh = Some (0, d)"
    "length d = length b" "\<forall>i < length b. int i < 0 \<or> 0 + ?w * ?h * int n \<le> int i \<longrightarrow> d ! i = b ! i"
    "\<forall>u v. 0 \<le> u \<and> u < ?w \<and> 0 \<le> v \<and> v < ?h \<longrightarrow> px_view 0 n ?w d u v =
       (if in_box bx (bx + bw) y0 (y0 + bh) u v
        then scaled_pixel n (virt_addr src) 0 (width src) (height src) cx cy cw ch bw bh (u - bx) (v - y0) else px_view 0 n ?w b u v)"
    using crop_and_scale_spec[OF sbox(2) dbox(2) order_refl _ b0 order_refl, of n "virt_addr src"] m b(2) by auto
  have "convert_image_cpu src dst src_box dst_box color = Some (0, dst\<lparr>virt_addr := d\<rparr>)"
    using cpu_channels_cases[OF fmt(2)] m(1,2) fmt(1) b(1) d(1)
    by cases (simp_all add: convert_image_cpu_def sbox(1) dbox(1) Let_def)
  moreover have "\<forall>u v. 0 \<le> u \<and> u < ?w \<and> 0 \<le> v \<and> v < ?h \<longrightarrow> px_view 0 n ?w d u v =
       (if in_box bx (bx + bw) y0 (y0 + bh) u v
        then scaled_pixel n (virt_addr src) 0 (width src) (height src) cx cy cw ch bw bh (u - bx) (v - y0)
        else replicate n color)"
  proof (cases "bw = ?w \<and> bh = ?h")
    case True
    then have "bx = 0" "y0 = 0" using dbox(2) by (auto simp: dst_box_ok_def)
    then have "in_box bx (bx + bw) y0 (y0 + bh) u v" if "0 \<le> u \<and> u < ?w \<and> 0 \<le> v \<and> v < ?h" for u v
      using True that by (simp add: in_box_def)
    then show ?thesis using d(4) by simp
  next
    case False
    then have "\<forall>u v. 0 \<le> u \<and> u < ?w \<and> 0 \<le> v \<and> v < ?h \<longrightarrow> px_view 0 n ?w b u v = replicate n color" using b(4) by blast
    then show ?thesis using d(4) by auto
  qed
  ultimately show ?thesis using d(2,3) b(2,3) by (intro exI[of _ d] conjI) simp_all
qed

text \<open>
  C11. Converting an image on the CPU between buffers of one packed format, with a crop inside the
  source (of at least two rows and columns) and a box inside the destination: it returns 0 without
  an access outside the buffers, fills the box with the bilinear pixels of the crop and the rest
  of the image with the padding colour, and changes no byte behind the image.
\<close>

theorem convert_cpu_fills_box:
  assumes fmt: "format src = format dst" "cpu_channels (format src) = Some n"
    and mem: "has_pixels src n" "has_pixels dst n"
    and sbox: "box_of src_box src = (cx, cy, cw, ch)" "crop_ok (width src) (height src) cx cy cw ch"
    and dbox: "box_of dst_box dst = (bx, y0, bw, bh)" "dst_box_ok (width dst) (height dst) bx y0 bw bh"
  shows "\<exists>d. convert_image_cpu src dst src_box dst_box color = Some (0, dst\<lparr>virt_addr := d\<rparr>) \<and>
    length d = length (virt_addr dst) \<and>
    (\<forall>i < length d. width dst * height dst * int n \<le> int i \<longrightarrow> d ! i = virt_addr dst ! i) \<and>
    (\<forall>u v. 0 \<le> u \<and> u < width dst \<and> 0 \<le> v \<and> v < height dst \<longrightarrow> px_view 0 n (width dst) d u v =
       (if in_box bx (bx + bw) y0 (y0 + bh) u v
        then scaled_pixel n (virt_addr src) 0 (width src) (height src) cx cy cw ch bw bh (u - bx) (v - y0)
        else replicate n color))"
  by (rule convert_cpu_spec[OF assms])

abbreviation grey_image :: "int \<Rightarrow> int \<Rightarrow> byte list \<Rightarrow> image_buffer" where
  "grey_image w h b \<equiv> \<lparr>width = w, height = h, width_stride = w, height_stride = h, format = IMAGE_FORMAT_GRAY8,
     virt_addr = b, buf_size = int (length b), fd = 0\<rparr>"

theorem convert_cpu_fills_box_witness:
  "\<exists>d. convert_image_cpu (grey_image 3 2 [10, 20, 30, 40, 50, 60]) (grey_image 4 3 (replicate 12 0))
     None (Some \<lparr>left = 1, top = 0, right = 3, bottom = 1\<rparr>) 128 = Some (0, (grey_image 4 3 (replicate 12 0))\<lparr>virt_addr := d\<rparr>)"
  using convert_cpu_fills_box[of "grey_image 3 2 [10, 20, 30, 40, 50, 60]" "grey_image 4 3 (replicate 12 0)" 1
      None 0 0 3 2 "Some \<lparr>left = 1, top = 0, right = 3, bottom = 1\<rparr>" 1 0 3 2 128]
  by (auto simp: has_pixels_def box_of_def crop_ok_def dst_box_ok_def)

text \<open>
  C13. Converting between boxes of equal size copies: every pixel of the destination box is the pixel
  of the source crop at the same offset, bit for bit, the float interpolation included.
\<close>

theorem convert_cpu_same_size:
  assumes fmt: "format src = format dst" "cpu_channels (format src) = Some n"
    and mem: "has_pixels src n" "has_pixels dst n"
    and sbox: "box_of src_box src = (cx, cy, cw, ch)" "crop_ok (width src) (height src) cx cy cw ch"
    and dbox: "box_of dst_box dst = (bx, y0, cw, ch)" "dst_box_ok (width dst) (height dst) bx y0 cw ch"
  shows "\<exists>d. convert_image_cpu src dst src_box dst_box color = Some (0, dst\<lparr>virt_addr := d\<rparr>) \<and>
    (\<forall>xo yo. 0 \<le> xo \<and> xo < cw \<and> 0 \<le> yo \<and> yo < ch \<longrightarrow>
       px_view 0 n (width dst) d (bx + xo) (y0 + yo) = px_view 0 n (width src) (virt_addr src) (cx + xo) (cy + yo))"
proof -
  obtain d where d: "convert_image_cpu src dst src_box dst_box color = Some (0, dst\<lparr>virt_addr := d\<rparr>)"
    "\<forall>u v. 0 \<le> u \<and> u < width dst \<and> 0 \<le> v \<and> v < height dst \<longrightarrow> px_view 0 n (width dst) d u v =
       (if in_box bx (bx + cw) y0 (y0 + ch) u v
        then scaled_pixel n (virt_addr src) 0 (width src) (height src) cx cy cw ch cw ch (u - bx) (v - y0)
        else replicate n color)"
    using convert_cpu_spec[OF assms, of color] by blast
  have m: "width src * height src * int n \<le> int (length (virt_addr src))" using mem by (auto simp: has_pixels_def)
  have "px_view 0 n (width dst) d (bx + xo) (y0 + yo) = px_view 0 n (width src) (virt_addr src) (cx + xo) (cy + yo)"
    if o: "0 \<le> xo" "xo < cw" "0 \<le> yo" "yo < ch" for xo yo
    using d(2)[rule_format, of "bx + xo" "y0 + yo"] o dbox(2) m
      scaled_pixel_same[OF sbox(2) o _ _ order_refl, of n "virt_addr src"]
    by (simp add: dst_box_ok_def in_box_def)
  then show ?thesis using d(1) by blast
qed

theorem convert_cpu_same_size_witness:
  "\<exists>d. convert_image_cpu (grey_image 2 2 [10, 20, 30, 40]) (grey_image 2 2 (replicate 4 0)) None None 0 =
     Some (0, (grey_image 2 2 (replicate 4 0))\<lparr>virt_addr := d\<rparr>) \<and> px_view 0 1 2 d 1 0 = [20]"
proof -
  have "box_of None (grey_image 2 2 b) = (0, 0, 2, 2)" for b by (simp add: box_of_def)
  from convert_cpu_same_size[of "grey_image 2 2 [10, 20, 30, 40]" "grey_image 2 2 (replicate 4 0)" 1, OF _ _ _ _ this _ this, of 0]
  obtain d where d: "convert_image_cpu (grey_image 2 2 [10, 20, 30, 40]) (grey_image 2 2 (replicate 4 0)) None None 0 =
      Some (0, (grey_image 2 2 (replicate 4 0))\<lparr>virt_addr := d\<rparr>)"
    "\<And>xo yo. 0 \<le> xo \<and> xo < 2 \<and> 0 \<le> yo \<and> yo < 2 \<Longrightarrow> px_view 0 1 2 d (0 + xo) (0 + yo) = px_view 0 1 2 [10, 20, 30, 40] (0 + xo) (0 + yo)"
    by (auto simp: has_pixels_def crop_ok_def dst_box_ok_def)
  show ?thesis using d(1) d(2)[of 1 0] by (auto simp: px_view_def)
qed

subsection \<open>The semi-planar formats\<close>

lemma crop_and_scale_length:
  assumes "crop_and_scale_image_c ch src sbase sw sh cx cy cw ch' dst dbase dw dh bx y0 bw bh = Some (r, d)"
  shows "length d = length dst"
proof (cases "dst = []")
  case True
  then show ?thesis using assms by (simp add: crop_and_scale_image_c_def)
next
  case False
  have chan: "length d' = length dst"
    if "for_up (\<lambda>c d. map_option Nxt (do { pixel \<leftarrow> source_byte src sbase s c; wr d (off + (k + c)) pixel })) 0 ch d = Some d'"
      "length d = length dst" for s off k d d'
    by (rule for_each_keeps[OF that(1), where P = "\<lambda>d. length d = length dst"])
      (use that(2) in \<open>auto simp: wr_length split: bind_splits\<close>)
  show ?thesis using assms False unfolding crop_and_scale_image_c_def Let_def
    by (auto elim!: for_each_keeps[where P = "\<lambda>d. length d = length dst"] dest!: chan split: bind_splits)
qed

text \<open>The chroma plane is scaled into the box of the luma plane, so a whole image runs over it.\<close>

lemma chroma_overrun:
  assumes w: "2 \<le> w" "even w" and h: "2 \<le> h" and len: "2 * int (length dst) = 3 * w * h" and ne: "dst \<noteq> []"
  shows "crop_and_scale_image_c 2 src sbase sw sh cx cy cw ch dst (w * h) (w sdiv 2) hh 0 0 w h = None"
proof -
  obtain k where k: "w = 2 * k" using w(2) by blast
  let ?s = "source_at 2 sw sh cx cy (fl_div rnd32 (i2f cw) (i2f w)) (fl_div rnd32 (i2f ch) (i2f h))"
  let ?chan = "\<lambda>y x s d. for_up (\<lambda>c d. map_option Nxt (do {
      pixel \<leftarrow> source_byte src sbase s c; wr d (w * h + ((y * (w sdiv 2) + x) * 2 + c)) pixel })) 0 2 d"
  have out: "int (length dst) \<le> w * h + (((h - 1) * (w sdiv 2) + 0) * 2 + 0)"
  proof -
    have "2 * k \<le> h * k" using h w k by (intro mult_right_mono) auto
    then show ?thesis using len k w by (simp add: algebra_simps)
  qed
  have fail: "?chan (h - 1) 0 s d = None" if "length d = length dst" for s d
  proof -
    have "(do { pixel \<leftarrow> source_byte src sbase s 0; wr d (w * h + (((h - 1) * (w sdiv 2) + 0) * 2 + 0)) pixel }) = None"
      using out that by (auto simp: wr_def split: bind_splits)
    then show ?thesis by (simp add: for_up_step)
  qed
  have keep: "length d' = length dst" if "?chan y x s d = Some d'" "length d = length dst" for y x s d d'
    by (rule for_each_keeps[OF that(1), where P = "\<lambda>d. length d = length dst"])
      (use that(2) in \<open>auto simp: wr_length split: bind_splits\<close>)
  have row_keep: "length d' = length dst"
    if "for_up (\<lambda>x d. map_option Nxt (do { s \<leftarrow> ?s (x - 0) (y - 0); ?chan y x s d })) 0 (0 + w) d = Some d'" "length d = length dst" for y d d'
    by (rule for_each_keeps[OF that(1), where P = "\<lambda>d. length d = length dst"])
      (use that(2) keep in \<open>auto split: bind_splits\<close>)
  have row_step: "(do { s \<leftarrow> ?s (0 - 0) ((h - 1) - 0); ?chan (h - 1) 0 s d }) = None" if "length d = length dst" for d
    using fail[OF that] by (cases "?s (0 - 0) ((h - 1) - 0)") simp_all
  have px_keep: "length d' = length dst" if "length d = length dst" "(do { s \<leftarrow> ?s (x - 0) ((h - 1) - 0); ?chan (h - 1) x s d }) = Some d'" for x d d'
    using keep that by (cases "?s (x - 0) ((h - 1) - 0)") auto
  have row_fail: "for_up (\<lambda>x d. map_option Nxt (do { s \<leftarrow> ?s (x - 0) ((h - 1) - 0); ?chan (h - 1) x s d })) 0 (0 + w) d = None"
    if "length d = length dst" for d
    by (rule for_each_fails_inv[where P = "\<lambda>d. length d = length dst" and j = 0])
      (rule that, erule (1) px_keep, erule row_step, use w in simp_all)
  have "for_up (\<lambda>y d. map_option Nxt (for_up (\<lambda>x d. map_option Nxt (do { s \<leftarrow> ?s (x - 0) (y - 0); ?chan y x s d })) 0 (0 + w) d)) 0 (0 + h) dst = None"
    by (rule for_each_fails_inv[where P = "\<lambda>d. length d = length dst" and j = "h - 1"])
      (use row_keep row_fail h in auto)
  then show ?thesis using ne by (simp add: crop_and_scale_image_c_def Let_def)
qed

text \<open>
  C14. Converting NV12 on the CPU always runs over the destination: the chroma plane is written with
  the luma plane's box, so the conversion into an image of even size whose buffer holds exactly its
  two planes has an access outside it.
\<close>

theorem convert_cpu_nv12_overrun:
  assumes "format src = IMAGE_FORMAT_YUV420SP_NV12" "format dst = IMAGE_FORMAT_YUV420SP_NV12"
    and "virt_addr src \<noteq> []" "virt_addr dst \<noteq> []"
    and "2 \<le> width dst" "even (width dst)" "2 \<le> height dst"
    and "2 * int (length (virt_addr dst)) = 3 * width dst * height dst"
  shows "convert_image_cpu src dst src_box None color = None"
proof -
  obtain cx cy cw ch where b: "box_of src_box src = (cx, cy, cw, ch)" by (metis prod_cases4)
  have "crop_and_scale_image_yuv420sp (virt_addr src) (width src) (height src) cx cy cw ch (virt_addr dst)
      (width dst) (height dst) 0 0 (width dst) (height dst) = None"
  proof (cases "crop_and_scale_image_c 1 (virt_addr src) 0 (width src) (height src) cx cy cw ch (virt_addr dst) 0
      (width dst) (height dst) 0 0 (width dst) (height dst)")
    case (Some rd)
    obtain r d where rd: "rd = (r, d)" by (cases rd)
    have len: "length d = length (virt_addr dst)" using crop_and_scale_length[OF Some[unfolded rd]] .
    then have ne: "d \<noteq> []" using assms(4) by auto
    have "2 * int (length d) = 3 * width dst * height dst" using assms(8) len by simp
    note over = chroma_overrun[OF assms(5-7) this ne]
    show ?thesis unfolding crop_and_scale_image_yuv420sp_def Some rd Option.bind.simps prod.case over by (rule refl)
  qed (simp add: crop_and_scale_image_yuv420sp_def)
  then show ?thesis using assms(1-4) b by (simp add: convert_image_cpu_def box_of_def[of None])
qed

abbreviation nv12_image :: "byte list \<Rightarrow> image_buffer" where
  "nv12_image b \<equiv> \<lparr>width = 4, height = 4, width_stride = 4, height_stride = 4, format = IMAGE_FORMAT_YUV420SP_NV12,
     virt_addr = b, buf_size = int (length b), fd = 0\<rparr>"

theorem convert_cpu_nv12_overrun_witness:
  "convert_image_cpu (nv12_image (replicate 24 9)) (nv12_image (replicate 24 0)) None None 0 = None"
  by (rule convert_cpu_nv12_overrun) simp_all

text \<open>NV21 is tested for nowhere (the test for NV12 is written twice) and reported as converted.\<close>

lemma nv21_not_converted:
  assumes "format src = IMAGE_FORMAT_YUV420SP_NV21" "format dst = IMAGE_FORMAT_YUV420SP_NV21"
    and "virt_addr src \<noteq> []" "virt_addr dst \<noteq> []"
  shows "convert_image_cpu src dst src_box None color = Some (0, dst)"
  using assms by (simp add: convert_image_cpu_def box_of_def Let_def split: prod.split)

section \<open>The hardware path\<close>

text \<open>
  The RGA conversion releases every buffer handle it has acquired, on every path, and no other.
\<close>

theorem rga_handles_released:
  assumes "convert_image_rga lib src dst src_box dst_box color = Some (ret, dst', calls)"
  shows "mset (filter (\<lambda>c. \<exists>h. c = Release h) calls) =
    image_mset (\<lambda>c. case c of Import h \<Rightarrow> Release h | Release h \<Rightarrow> Release h) (mset (filter (\<lambda>c. \<exists>h. c = Import h) calls))"
  using assms by (auto simp: convert_image_rga_def rga_release_def split: if_splits)

abbreviation idle_rga :: rga_lib where
  "idle_rga \<equiv> \<lparr>use_handle = True, import_src = 7, import_dst = 0, imfill_status = 0, imfill_mem = (\<lambda>_ d. d),
     improcess_status = 0, improcess_mem = (\<lambda>_ _ _ d. d)\<rparr>"

theorem rga_handles_released_witness:
  "convert_image_rga idle_rga (nv12_image []) (nv12_image []) None None 0 =
     Some (-1, nv12_image [], [Import 7, Release 7]) \<and>
   mset (filter (\<lambda>c. \<exists>h. c = Release h) [Import 7, Release 7]) =
     image_mset (\<lambda>c. case c of Import h \<Rightarrow> Release h | Release h \<Rightarrow> Release h) (mset (filter (\<lambda>c. \<exists>h. c = Import h) [Import 7, Release 7]))"
proof -
  have "convert_image_rga idle_rga (nv12_image []) (nv12_image []) None None 0 =
      Some (-1, nv12_image [], [Import 7, Release 7])"
    by (simp add: convert_image_rga_def rga_release_def)
  from this rga_handles_released[OF this] show ?thesis by (rule conjI)
qed

section \<open>The letterbox\<close>

text \<open>Scaling one side by the smaller ratio does not exceed the destination.\<close>

lemma scaled_side:
  assumes s: "1 \<le> s" "s < 65536" and d: "1 \<le> d" "d < 65536"
    and q: "fl_le (Fin 0) q" "fl_le q (fl_div rnd32 (i2f d) (i2f s))"
  shows "\<exists>r. f2i (fl_mul rnd32 (i2f s) q) = Some r \<and> 0 \<le> r \<and> r \<le> d"
proof -
  have s1: "(1 :: rat) \<le> of_int s" "of_int s \<le> (65536 :: rat)" and d1: "(1 :: rat) \<le> of_int d" "of_int d \<le> (65535 :: rat)"
    using s d by simp_all
  have div: "fl_div rnd32 (i2f d) (i2f s) = rnd32 (of_int d / of_int s)" using s d by (simp add: i2f_exact)
  have "of_int d / of_int s \<le> (of_int d :: rat)" using s1 d1 by (simp add: field_simps)
  moreover have "0 \<le> (of_int d / of_int s :: rat)" using s1 d1 by simp
  ultimately obtain k where k: "rnd32 (of_int d / of_int s) = Fin k" "0 \<le> k"
    using rnd32_bracket[of 0 "of_int d" "of_int d / of_int s"] d by (auto simp: rnd32_int)
  obtain p where p: "q = Fin p" "0 \<le> p" "p \<le> k" using q k(1) unfolding div by (cases q) auto
  have "pow2 (- 126) \<le> pow2 (- 16)" by (rule pow2_mono) simp
  also have "\<dots> \<le> of_int d / of_int s" using frac_le[of "of_int d" 1 "of_int s" "65536 :: rat"] s1 d1 by (simp add: pow2_def)
  finally have "k \<le> of_int d / of_int s * (1 + 1 / 16777216)" using rnd32_rel_le[OF _ k(1)] by blast
  then have "of_int s * p \<le> of_int s * (of_int d / of_int s * (1 + 1 / 16777216))"
    using p(3) s1 by (intro mult_left_mono) auto
  also have "\<dots> \<le> of_int (2 * d + 1) / 2" using s1 d1 by simp
  finally have hi: "of_int s * p \<le> of_int (2 * d + 1) / 2" .
  have "rnd32 (of_int (2 * d + 1) / 2) = Fin (of_int (2 * d + 1) / 2)" using d by (intro rnd32_half) simp
  then obtain r where r: "rnd32 (of_int s * p) = Fin r" "0 \<le> r" "r \<le> of_int (2 * d + 1) / 2"
    using rnd32_bracket[of 0 "of_int (2 * d + 1) / 2" "of_int s * p"] hi p(2) s1 by auto
  have "\<lfloor>r\<rfloor> \<le> d" using r(3) by (simp add: floor_le_iff)
  moreover have "0 \<le> \<lfloor>r\<rfloor>" using r(2) by simp
  ultimately have "f2i (Fin r) = Some \<lfloor>r\<rfloor> \<and> 0 \<le> \<lfloor>r\<rfloor> \<and> \<lfloor>r\<rfloor> \<le> d"
    using r(2) d(2) unfolding f2i_def fl_to_int.simps Let_def trunc_def by (simp del: floor_le_numeral)
  then show ?thesis using s(2) r(1) p(1) s by (simp add: i2f_exact)
qed

lemma align_down_range: "0 \<le> r \<Longrightarrow> 0 < n \<Longrightarrow> 0 \<le> align_down r n \<and> align_down r n \<le> r \<and> align_down r n mod n = 0"
proof -
  assume a: "0 \<le> r" "0 < n"
  have "r mod n \<le> r" "0 \<le> r mod n" using a by (simp_all add: zmod_le_nonneg_dividend)
  moreover have "(r - r mod n) mod n = 0" by (simp add: minus_mod_eq_mult_div)
  ultimately show ?thesis using a by (simp add: align_down_def)
qed

lemma center_even_range: "0 \<le> p \<Longrightarrow> 0 \<le> center_even p \<and> 2 * center_even p \<le> p \<and> even (center_even p)"
  by (auto simp: center_even_def Let_def)

lemma letterbox_geometry_spec:
  assumes s: "1 \<le> sw" "sw < 65536" "1 \<le> sh" "sh < 65536" and d: "1 \<le> dw" "dw < 65536" "1 \<le> dh" "dh < 65536"
  shows "\<exists>b l. letterbox_geometry sw sh dw dh = Some (b, l) \<and>
    0 \<le> left b \<and> left b \<le> right b + 1 \<and> right b < dw \<and> 0 \<le> top b \<and> top b \<le> bottom b + 1 \<and> bottom b < dh \<and>
    x_pad l = left b \<and> y_pad l = top b \<and> even (left b) \<and> even (top b) \<and>
    (right b - left b + 1 = dw \<or> bottom b - top b + 1 = dh)"
proof -
  let ?w = "fl_div rnd32 (i2f dw) (i2f sw)" and ?h = "fl_div rnd32 (i2f dh) (i2f sh)"
  have nn: "fl_le (Fin 0) (fl_div rnd32 (i2f a) (i2f b))" if "1 \<le> a" "a < 65536" "1 \<le> b" "b < 65536" for a b
    using that rnd32_mono[of 0 "of_int a / of_int b"] by (simp add: i2f_exact)
  show ?thesis
  proof (cases "fl_less ?w ?h")
    case True
    obtain r where r: "f2i (fl_mul rnd32 (i2f sh) ?w) = Some r" "0 \<le> r" "r \<le> dh"
      using scaled_side[OF s(3,4) d(3,4) nn[OF d(1,2) s(1,2)]] fl_less_imp_le[OF True] by blast
    note a = align_down_range[OF r(2), of 2]
    have "0 \<le> dh - align_down r 2" using a r(3) by simp
    note c = center_even_range[OF this]
    show ?thesis using True r a c d by (simp add: letterbox_geometry_def Let_def)
  next
    case False
    then have le: "fl_le ?h ?w" using fl_not_less[of ?w ?h] fl_le_not_nan[OF nn[OF d(1,2) s(1,2)]] fl_le_not_nan[OF nn[OF d(3,4) s(3,4)]] by blast
    obtain r where r: "f2i (fl_mul rnd32 (i2f sw) ?h) = Some r" "0 \<le> r" "r \<le> dw"
      using scaled_side[OF s(1,2) d(1,2) nn[OF d(3,4) s(3,4)] le] by blast
    note a = align_down_range[OF r(2), of 4]
    have "0 \<le> dw - align_down r 4" using a r(3) by simp
    note c = center_even_range[OF this]
    show ?thesis using False r a c d by (simp add: letterbox_geometry_def Let_def)
  qed
qed

text \<open>A library that leaves the sizes of buffers alone.\<close>

definition keeps_sizes :: "rga_lib \<Rightarrow> bool" where
  "keeps_sizes lib \<longleftrightarrow> (\<forall>c d. length (imfill_mem lib c d) = length d) \<and>
     (\<forall>s t src d. length (improcess_mem lib s t src d) = length d)"

lemma convert_image_rga_keeps:
  assumes "keeps_sizes lib" and "get_image_size dst \<le> int (length (virt_addr dst))" "0 \<le> get_image_size dst"
  shows "\<exists>r d calls. convert_image_rga lib src dst src_box dst_box color = Some (r, dst\<lparr>virt_addr := d\<rparr>, calls) \<and>
    length d = length (virt_addr dst) \<and> (r = 0 \<or> r = -1)"
proof -
  obtain bx by' bw bh where b: "box_of dst_box dst = (bx, by', bw, bh)" by (metis prod_cases4)
  have "\<exists>f. rga_fill lib dst (bw, bh) color = Some f \<and> length f = length (virt_addr dst)"
  proof -
    have l: "length (imfill_mem lib color (virt_addr dst)) = length (virt_addr dst)" using assms(1) by (simp add: keeps_sizes_def)
    then have "imfill_mem lib color (virt_addr dst) = [] \<longleftrightarrow> virt_addr dst = []" by (metis length_0_conv)
    then show ?thesis using assms(2,3) l by (auto simp: rga_fill_def Let_def fill_bytes_def)
  qed
  then obtain f where f: "rga_fill lib dst (bw, bh) color = Some f" "length f = length (virt_addr dst)" by blast
  have "\<exists>r d. rga_process lib src dst src_box dst_box color = Some (r, dst\<lparr>virt_addr := d\<rparr>) \<and>
      length d = length (virt_addr dst) \<and> (r = 0 \<or> r = -1)"
  proof -
    let ?d = "improcess_mem lib (get_rga_fmt (format src), box_of src_box src) (get_rga_fmt (format dst), bx, by', bw, bh) (virt_addr src) f"
    have "\<forall>s t src d. length (improcess_mem lib s t src d) = length d"
      using assms(1) unfolding keeps_sizes_def by (rule conjunct2)
    then have "length ?d = length (virt_addr dst)" using f(2) by metis
    then show ?thesis
      by (intro exI[of _ "if improcess_status lib \<le> 0 then -1 else 0"] exI[of _ ?d]) (simp add: rga_process_def b Let_def f(1))
  qed
  then obtain r d where p: "rga_process lib src dst src_box dst_box color = Some (r, dst\<lparr>virt_addr := d\<rparr>)"
    "length d = length (virt_addr dst)" "r = 0 \<or> r = -1" by blast
  show ?thesis
  proof (cases "use_handle lib \<and> (import_src lib \<le> 0 \<or> import_dst lib \<le> 0)")
    case True
    have "\<exists>d. dst = dst\<lparr>virt_addr := d\<rparr> \<and> length d = length (virt_addr dst)"
      by (rule exI[of _ "virt_addr dst"]) simp
    then show ?thesis using True by (auto simp: convert_image_rga_def)
  next
    case False
    then show ?thesis using p by (auto simp: convert_image_rga_def)
  qed
qed

text \<open>
  C12. Letterboxing: for images of one packed format with sizes from 2 up to 65535 and a destination
  buffer, whatever the RGA library answers, the conversion returns 0 without an access outside the
  buffers (the CPU takes over when the hardware fails), and the letterbox it reports is the even
  offset of a box that lies inside the destination and spans its width or its height.
\<close>

theorem letterbox_never_fails:
  assumes fmt: "format src = format dst" "cpu_channels (format src) = Some n"
    and mem: "has_pixels src n" "has_pixels dst n"
    and s: "2 \<le> width src" "width src < 65536" "2 \<le> height src" "height src < 65536"
    and d: "1 \<le> width dst" "width dst < 65536" "1 \<le> height dst" "height dst < 65536"
    and lib: "keeps_sizes lib"
  shows "\<exists>b l p. letterbox_geometry (width src) (height src) (width dst) (height dst) = Some (b, l) \<and>
    convert_image_with_letterbox lib malloc_ok src dst color = Some (0, dst\<lparr>virt_addr := p\<rparr>, l) \<and>
    0 \<le> x_pad l \<and> even (x_pad l) \<and> 0 \<le> y_pad l \<and> even (y_pad l) \<and>
    x_pad l = left b \<and> y_pad l = top b \<and> right b < width dst \<and> bottom b < height dst \<and>
    (right b - left b + 1 = width dst \<or> bottom b - top b + 1 = height dst)"
proof -
  obtain b l where b: "letterbox_geometry (width src) (height src) (width dst) (height dst) = Some (b, l)"
    "0 \<le> left b" "left b \<le> right b + 1" "right b < width dst" "0 \<le> top b" "top b \<le> bottom b + 1" "bottom b < height dst"
    "x_pad l = left b" "y_pad l = top b" "even (left b)" "even (top b)"
    "right b - left b + 1 = width dst \<or> bottom b - top b + 1 = height dst"
    using letterbox_geometry_spec[OF _ s(2) _ s(4) d] s by auto
  let ?sb = "\<lparr>left = 0, top = 0, right = width src - 1, bottom = height src - 1\<rparr>"
  have size: "get_image_size dst = width dst * height dst * int n"
    using cpu_channels_cases[OF fmt(2)] fmt(1) by cases (simp_all add: get_image_size_def)
  have m: "get_image_size dst \<le> int (length (virt_addr dst))" "0 \<le> get_image_size dst" "virt_addr dst \<noteq> []"
    using mem(2) by (auto simp: size has_pixels_def)
  obtain r e calls where r: "convert_image_rga lib src dst (Some ?sb) (Some b) color = Some (r, dst\<lparr>virt_addr := e\<rparr>, calls)"
    "length e = length (virt_addr dst)" "r = 0 \<or> r = -1"
    using convert_image_rga_keeps[OF lib m(1,2)] by blast
  have "\<exists>p. convert_image lib src dst (Some ?sb) (Some b) color = Some (0, dst\<lparr>virt_addr := p\<rparr>)"
  proof (cases "r = 0")
    case True
    then show ?thesis using r(1) by (intro exI[of _ e]) (simp add: convert_image_def)
  next
    case False
    have e: "has_pixels (dst\<lparr>virt_addr := e\<rparr>) n" using mem(2) r(2) m(3) by (auto simp: has_pixels_def)
    have "crop_ok (width src) (height src) 0 0 (width src) (height src)"
      "dst_box_ok (width dst) (height dst) (left b) (top b) (right b - left b + 1) (bottom b - top b + 1)"
      using s d b by (auto simp: crop_ok_def dst_box_ok_def)
    from convert_cpu_spec[OF _ fmt(2) mem(1) e, of "Some ?sb" 0 0 "width src" "height src" "Some b"
        "left b" "top b" "right b - left b + 1" "bottom b - top b + 1" color] this fmt(1)
    show ?thesis using False r(1) by (auto simp: convert_image_def box_of_def)
  qed
  then obtain p where "convert_image lib src dst (Some ?sb) (Some b) color = Some (0, dst\<lparr>virt_addr := p\<rparr>)" by blast
  then have "convert_image_with_letterbox lib malloc_ok src dst color = Some (0, dst\<lparr>virt_addr := p\<rparr>, l)"
    using b(1) m(3) by (simp add: convert_image_with_letterbox_def Let_def)
  then show ?thesis using b by auto
qed

theorem letterbox_never_fails_witness:
  "\<exists>l p. convert_image_with_letterbox idle_rga (\<lambda>_. True) (grey_image 3 2 [10, 20, 30, 40, 50, 60]) (grey_image 8 8 (replicate 64 0)) 114 =
     Some (0, (grey_image 8 8 (replicate 64 0))\<lparr>virt_addr := p\<rparr>, l)"
proof -
  have "keeps_sizes idle_rga" by (simp add: keeps_sizes_def)
  then show ?thesis
    using letterbox_never_fails[of "grey_image 3 2 [10, 20, 30, 40, 50, 60]" "grey_image 8 8 (replicate 64 0)" 1 idle_rga "\<lambda>_. True" 114]
    by (auto simp: has_pixels_def)
qed

end
