(* ===== verification/Image_IO.thy ===== *)
theory Image_IO
  imports Image_Utils
begin

text \<open>
  Reading and writing image files in \<^verbatim>\<open>utils/image_utils.c\<close>, over the byte-level files of
  \<open>File_Utils\<close>.  The codecs (TurboJPEG and stb) are parameters: functions from the encoded bytes to
  what the library reports.  A null \<open>virt_addr\<close> is the empty buffer.
\<close>

section \<open>File names\<close>

text \<open>\<open>strrchr(path, '.')\<close>: the suffix from the last dot.\<close>

definition last_dot :: "path \<Rightarrow> string option" where
  "last_dot p = (if CHR ''.'' \<in> set p
     then Some (CHR ''.'' # rev (takeWhile (\<lambda>c. c \<noteq> CHR ''.'') (rev p))) else None)"

fun strstr :: "string \<Rightarrow> string \<Rightarrow> bool" where
  "strstr [] needle \<longleftrightarrow> needle = []"
| "strstr (c # cs) needle \<longleftrightarrow> take (length needle) (c # cs) = needle \<or> strstr cs needle"

definition filter_image_names :: "string list" where
  "filter_image_names = [''jpg'', ''jpeg'', ''JPG'', ''JPEG'', ''png'', ''PNG'', ''data'']"

definition image_file_filter :: "string \<Rightarrow> int" where
  "image_file_filter d_name = (if list_ex (strstr d_name) filter_image_names then 1 else 0)"

definition is_jpeg_ext :: "string \<Rightarrow> bool" where
  "is_jpeg_ext ext \<longleftrightarrow> ext = ''.jpg'' \<or> ext = ''.jpeg'' \<or> ext = ''.JPG'' \<or> ext = ''.JPEG''"

section \<open>Raw files\<close>

text \<open>
  The whole file goes into the caller's buffer, or into a new one with room for a terminator.  The
  terminator is written first, at the index of the file's size.
\<close>

definition read_image_raw :: "(nat \<Rightarrow> bool) \<Rightarrow> file_system \<Rightarrow> path \<Rightarrow> image_buffer \<Rightarrow> (int \<times> image_buffer) option" where
  "read_image_raw alloc fs path image_buf =
     (case fopen fs path of
        None \<Rightarrow> Some (-1, image_buf)
      | Some fp \<Rightarrow>
          let file_size = length (content fp) in do {
            data \<leftarrow> (if virt_addr image_buf = []
              then (if alloc (file_size + 1) then Some (replicate (file_size + 1) 0) else None)
              else Some (virt_addr image_buf));
            data0 \<leftarrow> wr data (int file_size) 0;
            (case fread file_size fp of (bytes, fp') \<Rightarrow>
              if file_size \<noteq> length bytes then Some (-1, image_buf)
              else do {
                data1 \<leftarrow> memcpy_at data0 0 (int file_size) bytes 0;
                Some (0, if virt_addr image_buf = []
                  then image_buf\<lparr>virt_addr := data1, buf_size := int file_size\<rparr>
                  else image_buf\<lparr>virt_addr := data1\<rparr>)
              })
          })"

section \<open>JPEG and PNG files\<close>

text \<open>
  \<open>tjDecompressHeader3\<close> gives its return value, the size, the subsampling and the colour space;
  \<open>tjDecompress2\<close> its return value, the error code and the pixels; \<open>tjCompress2\<close> the encoded bytes.
\<close>

record codecs =
  tj_header :: "byte list \<Rightarrow> int \<times> int \<times> int \<times> int \<times> int"
  tj_decompress :: "byte list \<Rightarrow> int \<Rightarrow> int \<Rightarrow> int \<times> int \<times> byte list"
  tj_compress :: "byte list \<Rightarrow> int \<Rightarrow> int \<Rightarrow> int \<Rightarrow> byte list option"
  stbi_load :: "path \<Rightarrow> (byte list \<times> int \<times> int \<times> int) option"
  stbi_write_png :: "path \<Rightarrow> int \<Rightarrow> int \<Rightarrow> int \<Rightarrow> byte list \<Rightarrow> int"

definition subsampName :: "string list" where
  "subsampName = [''4:4:4'', ''4:2:2'', ''4:2:0'', ''Grayscale'', ''4:4:0'', ''4:1:1'']"

definition colorspaceName :: "string list" where
  "colorspaceName = [''RGB'', ''YCbCr'', ''GRAY'', ''CMYK'', ''YCCK'']"

text \<open>
  A missing file is only reported on the console; the next call uses the null stream.  After the
  header, every failure leaves by \<open>out\<close> with the result 0.
\<close>

definition read_image_jpeg ::
    "codecs \<Rightarrow> (nat \<Rightarrow> bool) \<Rightarrow> file_system \<Rightarrow> path \<Rightarrow> image_buffer \<Rightarrow> (int \<times> image_buffer) option" where
  "read_image_jpeg lib alloc fs path image_buf =
     (case fopen fs path of
        None \<Rightarrow> None
      | Some jpegFile \<Rightarrow>
          let jpegBuf = content jpegFile in
          if \<not> alloc (length jpegBuf) then None
          else
            (case tj_header lib jpegBuf of (ret, width', height', subsample, colorspace) \<Rightarrow>
              if ret < 0 then Some (-1, image_buf)
              else do {
                _ \<leftarrow> rd subsampName subsample;
                _ \<leftarrow> rd colorspaceName colorspace;
                let sw_out_size = width' * height' * 3;
                if virt_addr image_buf = [] \<and> \<not> alloc (nat sw_out_size) then Some (0, image_buf)
                else
                  (case tj_decompress lib jpegBuf width' height' of (ret, err, pixels) \<Rightarrow> do {
                    sw_out_buf \<leftarrow> memcpy_at
                      (if virt_addr image_buf = [] then replicate (nat sw_out_size) 0 else virt_addr image_buf)
                      0 sw_out_size pixels 0;
                    if err \<noteq> 0 \<and> ret < 0 then
                      Some (0, if virt_addr image_buf = [] then image_buf else image_buf\<lparr>virt_addr := sw_out_buf\<rparr>)
                    else Some (0, image_buf\<lparr>width := width', height := height', format := IMAGE_FORMAT_RGB888,
                      virt_addr := sw_out_buf, buf_size := sw_out_size\<rparr>)
                  })
              }))"

definition read_image_stb :: "codecs \<Rightarrow> path \<Rightarrow> image_buffer \<Rightarrow> (int \<times> image_buffer) option" where
  "read_image_stb lib path image_buf =
     (case stbi_load lib path of
        None \<Rightarrow> Some (-1, image_buf)
      | Some (pixeldata, w, h, c) \<Rightarrow> do {
          d \<leftarrow> (if virt_addr image_buf \<noteq> [] then memcpy_at (virt_addr image_buf) 0 (w * h * c) pixeldata 0
               else Some pixeldata);
          Some (0, image_buf\<lparr>virt_addr := d, width := w, height := h,
            format := (if c = 4 then IMAGE_FORMAT_RGBA8888 else if c = 1 then IMAGE_FORMAT_GRAY8
                       else IMAGE_FORMAT_RGB888)\<rparr>)
        })"

definition read_image ::
    "codecs \<Rightarrow> (nat \<Rightarrow> bool) \<Rightarrow> file_system \<Rightarrow> path \<Rightarrow> image_buffer \<Rightarrow> (int \<times> image_buffer) option" where
  "read_image lib alloc fs path image_buf =
     (case last_dot path of
        None \<Rightarrow> Some (-1, image_buf)
      | Some ext \<Rightarrow>
          if ext = ''.data'' then read_image_raw alloc fs path image_buf
          else if is_jpeg_ext ext then read_image_jpeg lib alloc fs path image_buf
          else read_image_stb lib path image_buf)"

text \<open>The result is 0 whatever the compression or the file answers.\<close>

definition write_image_jpeg ::
    "codecs \<Rightarrow> file_system \<Rightarrow> path \<Rightarrow> int \<Rightarrow> image_buffer \<Rightarrow> (int \<times> file_system) option" where
  "write_image_jpeg lib fs path quality image_buf =
     (if format image_buf \<noteq> IMAGE_FORMAT_RGB888 then Some (-1, fs)
      else (case tj_compress lib (virt_addr image_buf) (width image_buf) (height image_buf) quality of
          None \<Rightarrow> Some (0, fs)
        | Some jpegBuf \<Rightarrow>
            if jpegBuf = [] then Some (0, fs)
            else map_option (\<lambda>(ret, fs'). (0, fs')) (write_data_to_file fs path jpegBuf (length jpegBuf))))"

text \<open>The encoder of PNG files writes the file itself and is given three channels for every format.\<close>

definition write_image ::
    "codecs \<Rightarrow> file_system \<Rightarrow> path \<Rightarrow> image_buffer \<Rightarrow> (int \<times> file_system) option" where
  "write_image lib fs path img =
     (case last_dot path of
        None \<Rightarrow> Some (-1, fs)
      | Some ext \<Rightarrow>
          if is_jpeg_ext ext then write_image_jpeg lib fs path 95 img
          else if ext = ''.png'' \<or> ext = ''.PNG''
          then Some (stbi_write_png lib path (width img) (height img) 3 (virt_addr img), fs)
          else if ext = ''.data'' \<or> ext = ''.DATA''
          then write_data_to_file fs path (virt_addr img) (nat (get_image_size img))
          else Some (-1, fs))"

section \<open>Properties\<close>

text \<open>
  C16. Raw images survive a write and a read: writing an image to a \<open>.data\<close> file and reading the
  file into an image without a buffer gives its bytes back, a terminator behind them, and reports
  their number.
\<close>

theorem raw_image_roundtrip:
  assumes "last_dot path = Some ''.data''" and "may_write fs path" and "0 \<le> get_image_size img"
    and "get_image_size img \<le> int (length (virt_addr img))" and "virt_addr into = []"
    and "alloc (nat (get_image_size img) + 1)"
  shows "\<exists>fs'. write_image lib fs path img = Some (0, fs') \<and>
    read_image lib alloc fs' path into = Some (0, into\<lparr>
      virt_addr := take (nat (get_image_size img)) (virt_addr img) @ [0], buf_size := get_image_size img\<rparr>)"
proof -
  obtain n where n: "get_image_size img = int n" using assms(3) nonneg_int_cases by blast
  let ?bytes = "take n (virt_addr img)"
  let ?fs = "fs\<lparr>files := (files fs)(path \<mapsto> ?bytes)\<rparr>"
  have len: "n \<le> length (virt_addr img)" using assms(4) n by simp
  have "write_image lib fs path img = Some (0, ?fs)"
    using assms(1,2) len n by (simp add: write_image_def is_jpeg_ext_def write_data_to_file_def)
  moreover have "memcpy_at (replicate (Suc n) 0) 0 (int n) ?bytes 0 = Some (?bytes @ [0])"
    using len by (simp add: memcpy_at_def flip: replicate_append_same)
  moreover have "(replicate (Suc n) (0 :: byte))[n := 0] = replicate (Suc n) 0"
    by (rule nth_equalityI) (simp_all add: nth_list_update del: replicate_Suc)
  then have "wr (replicate (Suc n) (0 :: byte)) (int n) 0 = Some (replicate (Suc n) 0)"
    by (simp add: wr_def del: replicate_Suc)
  ultimately show ?thesis
    using assms(1,5,6) len n
    by (simp add: read_image_def read_image_raw_def fopen_def fread_def rest_def Let_def del: replicate_Suc)
qed

theorem raw_image_roundtrip_witness:
  "\<exists>fs'. write_image \<lparr>tj_header = \<lambda>_. (-1, 0, 0, 0, 0), tj_decompress = \<lambda>_ _ _. (-1, 1, []),
      tj_compress = \<lambda>_ _ _ _. None, stbi_load = \<lambda>_. None, stbi_write_png = \<lambda>_ _ _ _ _. 0\<rparr>
      \<lparr>files = Map.empty, may_write = \<lambda>_. True\<rparr> ''a.data'' (grey_image 3 1 [10, 20, 30]) = Some (0, fs') \<and>
    read_image \<lparr>tj_header = \<lambda>_. (-1, 0, 0, 0, 0), tj_decompress = \<lambda>_ _ _. (-1, 1, []),
      tj_compress = \<lambda>_ _ _ _. None, stbi_load = \<lambda>_. None, stbi_write_png = \<lambda>_ _ _ _ _. 0\<rparr>
      (\<lambda>_. True) fs' ''a.data'' (grey_image 0 0 []) = Some (0, (grey_image 0 0 [])\<lparr>
        virt_addr := take (nat (get_image_size (grey_image 3 1 [10, 20, 30]))) (virt_addr (grey_image 3 1 [10, 20, 30])) @ [0],
        buf_size := get_image_size (grey_image 3 1 [10, 20, 30])\<rparr>)"
  by (rule raw_image_roundtrip) (simp_all add: last_dot_def get_image_size_def)

text \<open>
  The terminator is written behind the file's bytes into a buffer the caller supplies as well: a
  raw file read into a buffer of exactly its size, or a smaller one, is written past its end.
\<close>

theorem raw_image_terminator_overruns:
  assumes "last_dot path = Some ''.data''" and "files fs path = Some bytes" and "virt_addr into \<noteq> []"
    and "length (virt_addr into) \<le> length bytes"
  shows "read_image lib alloc fs path into = None"
  using assms by (simp add: read_image_def read_image_raw_def fopen_def wr_def)

theorem raw_image_terminator_overruns_witness:
  "read_image \<lparr>tj_header = \<lambda>_. (-1, 0, 0, 0, 0), tj_decompress = \<lambda>_ _ _. (-1, 1, []),
      tj_compress = \<lambda>_ _ _ _. None, stbi_load = \<lambda>_. None, stbi_write_png = \<lambda>_ _ _ _ _. 0\<rparr> (\<lambda>_. True)
    \<lparr>files = [''a.data'' \<mapsto> [10, 20, 30]], may_write = \<lambda>_. False\<rparr> ''a.data'' (grey_image 3 1 (replicate 3 0)) = None"
  by (rule raw_image_terminator_overruns[of _ _ "[10, 20, 30]"]) (simp_all add: last_dot_def)

text \<open>
  A JPEG file whose body cannot be decoded is reported as read: the failure leaves by the common exit
  with the result the function started from, and the image keeps its old size and format.
\<close>

lemma broken_jpeg_reported_as_read:
  assumes "files fs path = Some bytes" and "alloc (length bytes)"
    and "tj_header lib bytes = (0, w, h, subsample, colorspace)"
    and "0 \<le> subsample" "subsample < 6" "0 \<le> colorspace" "colorspace < 5"
    and "virt_addr image_buf = []" and "alloc (nat (w * h * 3))" and "0 \<le> w * h * 3"
    and "tj_decompress lib bytes w h = (-1, 1, pixels)" and "length pixels = nat (w * h * 3)"
  shows "read_image_jpeg lib alloc fs path image_buf = Some (0, image_buf)"
  using assms
  by (simp add: read_image_jpeg_def fopen_def subsampName_def colorspaceName_def rd_def Let_def memcpy_at_def)

text \<open>Every failure of writing a JPEG file, the file's own included, is reported as success.\<close>

lemma jpeg_write_failure_ignored:
  assumes "\<not> may_write fs path" and "format img = IMAGE_FORMAT_RGB888"
  shows "write_image_jpeg lib fs path quality img = Some (0, fs)"
  using assms by (auto simp: write_image_jpeg_def write_data_to_file_def split: option.split)

end
