(* ===== verification/Blocks.thy ===== *)
theory Blocks
  imports Prelude
begin

text \<open>
  Filling a buffer block by block: the rule for a counting loop whose every turn replaces the next
  \<open>d\<close> cells of a buffer, from offset \<open>base\<close> on, and the loop over rows of such blocks.
\<close>

lemma next_block: "(x :: nat) < m \<Longrightarrow> d * x + d \<le> d * m"
  by (metis Suc_leI add.commute mult_Suc_right mult_le_mono2)

definition splice :: "'a list \<Rightarrow> nat \<Rightarrow> 'a list \<Rightarrow> 'a list" where
  "splice buf k xs = take k buf @ xs @ drop (k + length xs) buf"

lemma splice_length [simp]: "k + length xs \<le> length buf \<Longrightarrow> length (splice buf k xs) = length buf"
  by (simp add: splice_def)

lemma splice_Nil [simp]: "splice buf k [] = buf"
  by (simp add: splice_def)

lemma splice_all: "splice buf 0 xs = xs @ drop (length xs) buf"
  by (simp add: splice_def)

lemma splice_append:
  assumes "k + length xs + length ys \<le> length buf"
  shows "splice (splice buf k xs) (k + length xs) ys = splice buf k (xs @ ys)"
  using assms by (simp add: splice_def ac_simps)

lemma memcpy_splice:
  assumes "soff + len \<le> length src" and "doff + len \<le> length dst"
  shows "memcpy_at dst (int doff) (int len) src (int soff) = Some (splice dst doff (take len (drop soff src)))"
  using assms by (auto simp: memcpy_at_def splice_def nat_add_distrib)

lemma for_blocks:
  assumes room: "base + d * n \<le> length buf"
    and step: "\<And>k b. k < n \<Longrightarrow> length b = length buf \<Longrightarrow> body (int k) b = Some (splice b (base + d * k) (f k))"
    and size_f: "\<And>k. k < n \<Longrightarrow> length (f k) = d"
  shows "for_up (\<lambda>i b. map_option Nxt (body i b)) 0 (int n) buf = Some (splice buf base (concat (map f [0..<n])))"
proof -
  let ?done = "\<lambda>k. concat (map f [0..<k])"
  have len: "length (?done k) = d * k" if "k \<le> n" for k
    using that size_f by (induction k) auto
  let ?P = "\<lambda>i b. 0 \<le> i \<and> i \<le> int n \<and> b = splice buf base (?done (nat i))"
  have "\<exists>b. for_up (\<lambda>i b. map_option Nxt (body i b)) 0 (int n) buf = Some b \<and> ?P (max 0 (int n)) b"
  proof (rule for_each_rule)
    fix i b assume i: "0 \<le> i" "i < int n" and P: "?P i b"
    obtain k where k: "i = int k" "k < n" using i by (metis nonneg_int_cases of_nat_less_iff)
    have "d * k + d \<le> d * n" by (rule next_block[OF k(2)])
    then have fits: "base + length (?done k) + length (f k) \<le> length buf"
      using room len[of k] size_f[of k] k(2) by simp
    have b: "b = splice buf base (?done k)" using P k by simp
    then have "length b = length buf" using fits by simp
    then have "body i b = Some (splice b (base + d * k) (f k))" using step k by simp
    moreover have "splice b (base + d * k) (f k) = splice buf base (?done (Suc k))"
      using splice_append[OF fits] len[of k] k(2) b by simp
    ultimately show "\<exists>b'. body i b = Some b' \<and> ?P (i + 1) b'"
      using k by (simp add: nat_add_distrib)
  qed simp
  then show ?thesis by simp
qed

text \<open>Rows of \<open>m\<close> blocks: the inner loop fills row \<open>i\<close> from \<open>d * m * i\<close> on.\<close>

lemma for_block_rows:
  assumes room: "d * m * n \<le> length buf"
    and step: "\<And>i j b. i < n \<Longrightarrow> j < m \<Longrightarrow> length b = length buf \<Longrightarrow>
       body (int i) (int j) b = Some (splice b (d * m * i + d * j) (f i j))"
    and size_f: "\<And>i j. i < n \<Longrightarrow> j < m \<Longrightarrow> length (f i j) = d"
  shows "for_up (\<lambda>i b. map_option Nxt (for_up (\<lambda>j b. map_option Nxt (body i j b)) 0 (int m) b)) 0 (int n) buf =
    Some (splice buf 0 (concat (map (\<lambda>i. concat (map (f i) [0..<m])) [0..<n])))"
proof (rule for_blocks[where d = "d * m"])
  have len: "length (concat (map (f i) [0..<k])) = d * k" if "i < n" "k \<le> m" for i k
    using that size_f by (induction k) auto
  show "length (concat (map (f i) [0..<m])) = d * m" if "i < n" for i
    using len that by simp
  show "for_up (\<lambda>j b. map_option Nxt (body (int i) j b)) 0 (int m) b =
      Some (splice b (0 + d * m * i) (concat (map (f i) [0..<m])))" if "i < n" "length b = length buf" for i b
  proof -
    have "d * m * i + d * m \<le> d * m * n" by (rule next_block[OF that(1)])
    then show ?thesis using room step size_f that by (simp add: for_blocks[where d = d])
  qed
qed (use room in simp)

lemma nth_splice:
  assumes "k + length xs \<le> length buf" and "q < length buf"
  shows "splice buf k xs ! q = (if k \<le> q \<and> q < k + length xs then xs ! (q - k) else buf ! q)"
  using assms by (auto simp: splice_def nth_append min_def)

text \<open>Rows of \<open>m\<close> cells that start every \<open>S\<close> cells; the cells between them are left alone.\<close>

lemma for_rows:
  assumes "m \<le> S" and room: "\<And>i. i < n \<Longrightarrow> base + S * i + m \<le> length buf"
    and step: "\<And>i b. i < n \<Longrightarrow> length b = length buf \<Longrightarrow> body (int i) b = Some (splice b (base + S * i) (f i))"
    and size_f: "\<And>i. i < n \<Longrightarrow> length (f i) = m"
  obtains b where "for_up (\<lambda>i b. map_option Nxt (body i b)) 0 (int n) buf = Some b" "length b = length buf"
    "\<And>i j. i < n \<Longrightarrow> j < m \<Longrightarrow> b ! (base + S * i + j) = f i ! j"
    "\<And>q. q < length buf \<Longrightarrow> (\<And>i. i < n \<Longrightarrow> q < base + S * i \<or> base + S * i + m \<le> q) \<Longrightarrow> b ! q = buf ! q"
proof -
  let ?P = "\<lambda>k b. 0 \<le> k \<and> length b = length buf \<and>
    (\<forall>i j. int i < k \<and> i < n \<and> j < m \<longrightarrow> b ! (base + S * i + j) = f i ! j) \<and>
    (\<forall>q < length buf. (\<forall>i < n. q < base + S * i \<or> base + S * i + m \<le> q) \<longrightarrow> b ! q = buf ! q)"
  have "\<exists>b. for_up (\<lambda>i b. map_option Nxt (body i b)) 0 (int n) buf = Some b \<and> ?P (max 0 (int n)) b"
  proof (rule for_each_rule)
    fix k b assume k: "0 \<le> k" "k < int n" and P: "?P k b"
    obtain r where r: "k = int r" "r < n" using k by (metis nonneg_int_cases of_nat_less_iff)
    let ?b = "splice b (base + S * r) (f r)"
    have fits: "base + S * r + length (f r) \<le> length b" using room[OF r(2)] size_f[OF r(2)] P by simp
    have old: "?b ! (base + S * i + j) = f i ! j" if "i < r" "j < m" for i j
    proof -
      have "S * i + S \<le> S * r" by (rule next_block[OF that(1)])
      then show ?thesis using P that r fits assms(1) by (subst nth_splice[OF fits]) (auto simp: size_f)
    qed
    have new: "?b ! (base + S * r + j) = f r ! j" if "j < m" for j
      using that fits size_f[OF r(2)] by (subst nth_splice[OF fits]) auto
    have "?b ! (base + S * i + j) = f i ! j" if "int i < k + 1" "j < m" for i j
      using that old[of i j] new[of j] r(1) by (cases "i = r") simp_all
    moreover have "?b ! q = buf ! q" if "q < length buf" "\<forall>i < n. q < base + S * i \<or> base + S * i + m \<le> q" for q
      using that P r(2) size_f[OF r(2)] by (subst nth_splice[OF fits]) auto
    moreover have "length ?b = length buf" using fits P by simp
    ultimately show "\<exists>b'. body k b = Some b' \<and> ?P (k + 1) b'" using step[OF r(2)] P r(1) by auto
  qed simp
  then show ?thesis using that by auto
qed

lemma nth_concat_blocks:
  assumes "\<And>i. i < n \<Longrightarrow> length (f i) = d" and "i < n" "j < d"
  shows "concat (map f [0..<n]) ! (d * i + j) = f i ! j"
  using assms
proof (induction n)
  case (Suc n)
  have len: "length (concat (map f [0..<k])) = d * k" if "k \<le> n" for k
    using that Suc.prems(1) by (induction k) auto
  show ?case
  proof (cases "i = n")
    case True
    then show ?thesis using len[of n] Suc.prems(3) by (simp add: nth_append)
  next
    case False
    then have "d * i + d \<le> d * n" using Suc.prems(2) by (metis Suc_leI less_SucE mult_Suc_right mult_le_mono2 add.commute)
    then show ?thesis using Suc False len[of n] by (simp add: nth_append)
  qed
qed simp

end
