(* ===== verification/Load_Bmp.thy ===== *)
theory Load_Bmp
  imports File_Utils Blocks
begin

text \<open>
  \<^verbatim>\<open>common/loadbmp.c\<close>: loading a bitmap file into a surface of the on-screen display.  Sizes and
  offsets are 32-bit words as in the code; the loop counters stay below the 16-bit width and height.
  A header field the file is too short for is indeterminate, \<open>None\<close>, and its use undefined.
\<close>

unbundle bit_operations_syntax

section \<open>Formats and colours\<close>

datatype OSD_COLOR_FMT_E =
    OSD_COLOR_FMT_RGB444 | OSD_COLOR_FMT_RGB4444 | OSD_COLOR_FMT_RGB555 | OSD_COLOR_FMT_RGB565
  | OSD_COLOR_FMT_ARGB1555 | OSD_COLOR_FMT_BGRA5551 | OSD_COLOR_FMT_RGB888 | OSD_COLOR_FMT_BGR888
  | OSD_COLOR_FMT_ARGB8888 | OSD_COLOR_FMT_BGRA8888

record OSD_COMP_INFO =
  alen :: nat
  rlen :: nat
  glen :: nat
  blen :: nat

fun s_OSDCompInfo :: "OSD_COLOR_FMT_E \<Rightarrow> OSD_COMP_INFO" where
  "s_OSDCompInfo OSD_COLOR_FMT_RGB444 = \<lparr>alen = 0, rlen = 4, glen = 4, blen = 4\<rparr>"
| "s_OSDCompInfo OSD_COLOR_FMT_RGB4444 = \<lparr>alen = 4, rlen = 4, glen = 4, blen = 4\<rparr>"
| "s_OSDCompInfo OSD_COLOR_FMT_RGB555 = \<lparr>alen = 0, rlen = 5, glen = 5, blen = 5\<rparr>"
| "s_OSDCompInfo OSD_COLOR_FMT_RGB565 = \<lparr>alen = 0, rlen = 5, glen = 6, blen = 5\<rparr>"
| "s_OSDCompInfo OSD_COLOR_FMT_ARGB1555 = \<lparr>alen = 1, rlen = 5, glen = 5, blen = 5\<rparr>"
| "s_OSDCompInfo OSD_COLOR_FMT_BGRA5551 = \<lparr>alen = 1, rlen = 5, glen = 5, blen = 5\<rparr>"
| "s_OSDCompInfo OSD_COLOR_FMT_RGB888 = \<lparr>alen = 0, rlen = 8, glen = 8, blen = 8\<rparr>"
| "s_OSDCompInfo OSD_COLOR_FMT_BGR888 = \<lparr>alen = 0, rlen = 8, glen = 8, blen = 8\<rparr>"
| "s_OSDCompInfo OSD_COLOR_FMT_ARGB8888 = \<lparr>alen = 8, rlen = 8, glen = 8, blen = 8\<rparr>"
| "s_OSDCompInfo OSD_COLOR_FMT_BGRA8888 = \<lparr>alen = 8, rlen = 8, glen = 8, blen = 8\<rparr>"

text \<open>The comparison \<open>enFmt >= OSD_COLOR_FMT_RGB888\<close> on the enumeration.\<close>

fun at_least_RGB888 :: "OSD_COLOR_FMT_E \<Rightarrow> bool" where
  "at_least_RGB888 OSD_COLOR_FMT_RGB888 = True"
| "at_least_RGB888 OSD_COLOR_FMT_BGR888 = True"
| "at_least_RGB888 OSD_COLOR_FMT_ARGB8888 = True"
| "at_least_RGB888 OSD_COLOR_FMT_BGRA8888 = True"
| "at_least_RGB888 _ = False"

text \<open>The loop that sets \<open>alen\<close> bits from \<open>tmp\<close> downwards.\<close>

fun alpha_bits :: "nat \<Rightarrow> 32 word \<Rightarrow> 32 word \<Rightarrow> 32 word" where
  "alpha_bits 0 tmp pixel = pixel"
| "alpha_bits (Suc n) tmp pixel = alpha_bits n (tmp - 1) (pixel OR push_bit (unat tmp) 1)"

definition OSD_MAKECOLOR_ARGB :: "byte \<Rightarrow> byte \<Rightarrow> byte \<Rightarrow> OSD_COMP_INFO \<Rightarrow> 32 word" where
  "OSD_MAKECOLOR_ARGB r g b c =
     (let r1 = drop_bit (8 - rlen c) r; g1 = drop_bit (8 - glen c) g; b1 = drop_bit (8 - blen c) b
      in alpha_bits (alen c) (word_of_nat (alen c) - 1) 0 OR
         (push_bit (alen c) (ucast r1) OR push_bit (rlen c + alen c) (ucast g1) OR
          push_bit (rlen c + glen c + alen c) (ucast b1)))"

definition OSD_MAKECOLOR_BGRA :: "byte \<Rightarrow> byte \<Rightarrow> byte \<Rightarrow> OSD_COMP_INFO \<Rightarrow> 32 word" where
  "OSD_MAKECOLOR_BGRA r g b c =
     (let r1 = drop_bit (8 - rlen c) r; g1 = drop_bit (8 - glen c) g; b1 = drop_bit (8 - blen c) b
      in alpha_bits (alen c) (word_of_nat (alen c + rlen c + glen c + blen c) - 1) 0 OR
         (push_bit (blen c + glen c) (ucast r1) OR push_bit (blen c) (ucast g1) OR ucast b1))"

section \<open>The headers\<close>

text \<open>The fields the loader reads, at their offsets behind the two bytes of the type.\<close>

record bmp_info =
  bfOffBits :: "32 word option"
  biWidth :: "32 word option"
  biHeight :: "32 word option"
  biBitCount :: "16 word option"
  biCompression :: "32 word option"

definition le16 :: "byte list \<Rightarrow> nat \<Rightarrow> 16 word option" where
  "le16 bs k = (if k + 2 \<le> length bs then Some (ucast (bs ! k) OR push_bit 8 (ucast (bs ! (k + 1)))) else None)"

definition le32 :: "byte list \<Rightarrow> nat \<Rightarrow> 32 word option" where
  "le32 bs k = (if k + 4 \<le> length bs
     then Some (ucast (bs ! k) OR push_bit 8 (ucast (bs ! (k + 1))) OR push_bit 16 (ucast (bs ! (k + 2))) OR
       push_bit 24 (ucast (bs ! (k + 3))))
     else None)"

text \<open>The streams and blocks the process holds.\<close>

record held =
  streams :: int
  blocks :: int

text \<open>
  \<open>get_bmp_info\<close>: a file of another type is closed with \<open>close\<close> on the stream pointer, which leaves
  the stream open.
\<close>

definition get_bmp_info :: "file_system \<Rightarrow> path option \<Rightarrow> held \<Rightarrow> (int \<times> bmp_info option \<times> held) option" where
  "get_bmp_info fs filename st =
     (case filename of
        None \<Rightarrow> Some (-1, None, st)
      | Some f \<Rightarrow>
          (case fopen fs f of
             None \<Rightarrow> Some (-1, None, st)
           | Some pFile \<Rightarrow> do {
               let st = st\<lparr>streams := streams st + 1\<rparr>;
               let bs = content pFile;
               bfType \<leftarrow> le16 bs 0;
               if bfType \<noteq> 0x4d42 then Some (-1, None, st)
               else Some (0, Some \<lparr>bfOffBits = le32 bs 10, biWidth = le32 bs 18, biHeight = le32 bs 22,
                    biBitCount = le16 bs 28, biCompression = le32 bs 30\<rparr>, st\<lparr>streams := streams st - 1\<rparr>)
             }))"

section \<open>The pixels\<close>

record OSD_LOGO_T =
  logo_width :: "32 word"
  logo_height :: "32 word"
  logo_stride :: "32 word"
  pRGBBuffer :: "byte list"

text \<open>Stores of 16 and 32 bits, low byte first.\<close>

definition store16 :: "byte list \<Rightarrow> int \<Rightarrow> 16 word \<Rightarrow> byte list option" where
  "store16 buf k v = memcpy_at buf k 2 [ucast v, ucast (drop_bit 8 v)] 0"

definition store32 :: "byte list \<Rightarrow> int \<Rightarrow> 32 word \<Rightarrow> byte list option" where
  "store32 buf k v =
     memcpy_at buf k 4 [ucast v, ucast (drop_bit 8 v), ucast (drop_bit 16 v), ucast (drop_bit 24 v)] 0"

text \<open>
  The body of the pixel loop: \<open>src\<close> is the offset of the pixel in the bytes of the file, \<open>row\<close> the
  offset of the row in the surface.
\<close>

definition bmp_pixel :: "OSD_COLOR_FMT_E \<Rightarrow> int \<Rightarrow> byte list \<Rightarrow> int \<Rightarrow> int \<Rightarrow> int \<Rightarrow> byte list \<Rightarrow> byte list option" where
  "bmp_pixel enFmt Bpp pOrigBMPBuf src row j buf =
     (if Bpp = 3 then
        if enFmt \<in> {OSD_COLOR_FMT_RGB444, OSD_COLOR_FMT_RGB555, OSD_COLOR_FMT_RGB565, OSD_COLOR_FMT_ARGB1555} then do {
          b \<leftarrow> rd pOrigBMPBuf src;
          g \<leftarrow> rd pOrigBMPBuf (src + 1);
          r \<leftarrow> rd pOrigBMPBuf (src + 2);
          store16 buf (row + j * 2) (ucast (OSD_MAKECOLOR_ARGB r g b (s_OSDCompInfo enFmt)))
        }
        else if enFmt = OSD_COLOR_FMT_BGRA5551 then do {
          b \<leftarrow> rd pOrigBMPBuf src;
          g \<leftarrow> rd pOrigBMPBuf (src + 1);
          r \<leftarrow> rd pOrigBMPBuf (src + 2);
          store16 buf (row + j * 2) (ucast (OSD_MAKECOLOR_BGRA r g b (s_OSDCompInfo enFmt)))
        }
        else if enFmt \<in> {OSD_COLOR_FMT_BGR888, OSD_COLOR_FMT_BGRA8888} then do {
          buf \<leftarrow> memcpy_at buf (row + j * 4) Bpp pOrigBMPBuf src;
          wr buf (row + j * 4 + 3) 0xff
        }
        else if enFmt \<in> {OSD_COLOR_FMT_RGB888, OSD_COLOR_FMT_ARGB8888} then do {
          b \<leftarrow> rd pOrigBMPBuf src;
          g \<leftarrow> rd pOrigBMPBuf (src + 1);
          r \<leftarrow> rd pOrigBMPBuf (src + 2);
          store32 buf (row + j * 4) (OSD_MAKECOLOR_ARGB r g b (s_OSDCompInfo enFmt))
        }
        else Some buf
      else if Bpp = 2 \<or> Bpp = 4 then memcpy_at buf (row + j * Bpp) Bpp pOrigBMPBuf src
      else Some buf)"

definition bmp_rows ::
    "OSD_COLOR_FMT_E \<Rightarrow> int \<Rightarrow> byte list \<Rightarrow> 32 word \<Rightarrow> OSD_LOGO_T \<Rightarrow> byte list option" where
  "bmp_rows enFmt Bpp pOrigBMPBuf stride logo =
     (let w = logo_width logo; h = logo_height logo
      in for_up (\<lambda>i buf. map_option Nxt (
           for_up (\<lambda>j buf. map_option Nxt (
             bmp_pixel enFmt Bpp pOrigBMPBuf (uint ((h - 1 - word_of_int i) * stride) + j * Bpp)
               (uint (word_of_int i * logo_stride logo)) j buf)) 0 (uint w) buf)) 0 (uint h) (pRGBBuffer logo))"

text \<open>\<open>fseek\<close> takes a signed offset: one beyond \<open>2\<^sup>31\<close> is refused and the position stays 0.\<close>

definition load_bmp_ex ::
    "(nat \<Rightarrow> bool) \<Rightarrow> file_system \<Rightarrow> path option \<Rightarrow> OSD_LOGO_T \<Rightarrow> OSD_COLOR_FMT_E \<Rightarrow> held \<Rightarrow>
     (int \<times> OSD_LOGO_T \<times> held) option" where
  "load_bmp_ex alloc fs filename logo enFmt st =
     do {
       (ret, info, st) \<leftarrow> get_bmp_info fs filename st;
       case info of None \<Rightarrow> Some (-1, logo, st) | Some info \<Rightarrow> do {
         bits \<leftarrow> biBitCount info;
         let Bpp = uint bits div 8;
         if Bpp < 2 then Some (-1, logo, st) else do {
           compression \<leftarrow> biCompression info;
           if compression \<noteq> 0 then Some (-1, logo, st) else do {
             h \<leftarrow> biHeight info;
             if sint h < 0 then Some (-1, logo, st)
             else case filename \<bind> fopen fs of None \<Rightarrow> Some (-1, logo, st) | Some pFile \<Rightarrow> do {
               let st = st\<lparr>streams := streams st + 1\<rparr>;
               w \<leftarrow> biWidth info;
               let logo = logo\<lparr>logo_width := ucast (ucast w :: 16 word), logo_height := ucast (ucast h :: 16 word)\<rparr>;
               let w = logo_width logo;
               let h = logo_height logo;
               let stride = w * word_of_int Bpp;
               let stride = (if stride mod 4 \<noteq> 0 then (stride AND 0xfffc) + 4 else stride);
               if \<not> alloc (unat (h * stride)) then Some (-1, logo, st\<lparr>streams := streams st - 1\<rparr>)
               else do {
                 let st = st\<lparr>blocks := blocks st + 1\<rparr>;
                 offs \<leftarrow> bfOffBits info;
                 let pos = (if unat offs < 2 ^ 31 then unat offs else 0);
                 let pOrigBMPBuf = take (unat (h * stride)) (drop pos (content pFile));
                 if length pOrigBMPBuf \<noteq> unat (h * stride) then Some (-1, logo, st)
                 else do {
                   let logo = logo\<lparr>logo_stride := logo_width logo * (if at_least_RGB888 enFmt then 4 else 2)\<rparr>;
                   buf \<leftarrow> bmp_rows enFmt Bpp pOrigBMPBuf stride logo;
                   Some (0, logo\<lparr>pRGBBuffer := buf\<rparr>, st\<lparr>blocks := blocks st - 1, streams := streams st - 1\<rparr>)
                 }
               }
             }
           }
         }
       }
     }"

section \<open>Files by name\<close>

text \<open>
  \<open>get_ext_name\<close> looks for a dot from the terminator down to the second character; \<open>pret\<close> is the
  pointer of the last turn, here the rest of the name, and null for an empty name.
\<close>

fun ext_loop :: "string \<Rightarrow> nat \<Rightarrow> string option \<Rightarrow> string option" where
  "ext_loop s 0 pret = pret"
| "ext_loop s (Suc k) pret =
     (if Suc k < length s \<and> s ! Suc k = CHR ''.'' then Some (drop (Suc k + 1) s)
      else ext_loop s k (Some (drop (Suc k) s)))"

definition get_ext_name :: "path option \<Rightarrow> string option" where
  "get_ext_name filename = (case filename of None \<Rightarrow> None | Some s \<Rightarrow> ext_loop s (length s) None)"

text \<open>\<open>strcmp\<close> with a null pointer is undefined.\<close>

definition load_image_ex ::
    "(nat \<Rightarrow> bool) \<Rightarrow> file_system \<Rightarrow> path option \<Rightarrow> OSD_LOGO_T \<Rightarrow> OSD_COLOR_FMT_E \<Rightarrow> held \<Rightarrow>
     (int \<times> OSD_LOGO_T \<times> held) option" where
  "load_image_ex alloc fs filename logo enFmt st =
     do {
       ext \<leftarrow> get_ext_name filename;
       if ext = ''bmp'' then do {
         (ret, logo, st) \<leftarrow> load_bmp_ex alloc fs filename logo enFmt st;
         Some (if ret \<noteq> 0 then -1 else 0, logo, st)
       }
       else Some (-1, logo, st)
     }"

record OSD_SURFACE_S =
  enColorFmt :: OSD_COLOR_FMT_E
  u16Height :: "16 word"
  u16Width :: "16 word"
  u16Stride :: "16 word"

text \<open>The surface and the buffer behind \<open>pu8Virt\<close>, whose content the caller sees.\<close>

definition create_surface_by_bitmap ::
    "(nat \<Rightarrow> bool) \<Rightarrow> file_system \<Rightarrow> path option \<Rightarrow> OSD_SURFACE_S \<Rightarrow> byte list \<Rightarrow> held \<Rightarrow>
     (int \<times> OSD_SURFACE_S \<times> byte list \<times> held) option" where
  "create_surface_by_bitmap alloc fs name s pu8Virt st =
     do {
       (ret, logo, st) \<leftarrow> load_image_ex alloc fs name
         \<lparr>logo_width = 0, logo_height = 0, logo_stride = 0, pRGBBuffer = pu8Virt\<rparr> (enColorFmt s) st;
       if ret < 0 then Some (-1, s, pRGBBuffer logo, st)
       else Some (0, s\<lparr>u16Height := ucast (logo_height logo), u16Width := ucast (logo_width logo),
                       u16Stride := ucast (logo_stride logo)\<rparr>, pRGBBuffer logo, st)
     }"

section \<open>One pixel\<close>

text \<open>What a pixel of \<open>px\<close> bytes becomes in a surface: copied, or blue, green and red packed.\<close>

definition surface_px :: "OSD_COLOR_FMT_E \<Rightarrow> nat" where
  "surface_px enFmt = (if at_least_RGB888 enFmt then 4 else 2)"

fun pixel_of :: "OSD_COLOR_FMT_E \<Rightarrow> byte list \<Rightarrow> byte list" where
  "pixel_of enFmt [b, g, r] =
     (if enFmt \<in> {OSD_COLOR_FMT_BGR888, OSD_COLOR_FMT_BGRA8888} then [b, g, r, 0xff]
      else if enFmt \<in> {OSD_COLOR_FMT_RGB888, OSD_COLOR_FMT_ARGB8888} then
        (let v = OSD_MAKECOLOR_ARGB r g b (s_OSDCompInfo enFmt)
         in [ucast v, ucast (drop_bit 8 v), ucast (drop_bit 16 v), ucast (drop_bit 24 v)])
      else
        (let v = (if enFmt = OSD_COLOR_FMT_BGRA5551 then OSD_MAKECOLOR_BGRA r g b (s_OSDCompInfo enFmt)
                  else OSD_MAKECOLOR_ARGB r g b (s_OSDCompInfo enFmt));
             v = ucast v :: 16 word
         in [ucast v, ucast (drop_bit 8 v)]))"
| "pixel_of enFmt px = px"

text \<open>The depths a format takes: three bytes, but not for \<open>RGB4444\<close>, or the size of its own pixels.\<close>

definition depth_fits :: "nat \<Rightarrow> OSD_COLOR_FMT_E \<Rightarrow> bool" where
  "depth_fits Bpp enFmt \<longleftrightarrow> Bpp = 3 \<and> enFmt \<noteq> OSD_COLOR_FMT_RGB4444 \<or> Bpp = surface_px enFmt"

lemma pixel_of_length:
  assumes "depth_fits Bpp enFmt" and "length px = Bpp"
  shows "length (pixel_of enFmt px) = surface_px enFmt"
  using assms
  by (cases "(enFmt, px)" rule: pixel_of.cases; cases enFmt) (auto simp: depth_fits_def surface_px_def Let_def)

lemma three_bytes:
  assumes "src + 3 \<le> length xs"
  shows "take 3 (drop src xs) = [xs ! src, xs ! (src + 1), xs ! (src + 2)]"
  using assms by (simp add: numeral_3_eq_3 take_Suc_conv_app_nth)

lemma splice_wr:
  assumes "k + 4 \<le> length buf" and "length xs = 3"
  shows "wr (splice buf k xs) (int k + 3) v = Some (splice buf k (xs @ [v]))"
proof -
  have "nat (int k + 3) = k + 3" by simp
  moreover have "drop (k + 3) buf = buf ! (k + 3) # drop (k + 4) buf"
    using assms(1) by (simp add: Cons_nth_drop_Suc[symmetric] numeral_eq_Suc)
  ultimately show ?thesis
    using assms by (simp add: wr_def splice_def list_update_append)
qed

lemma store_splice:
  "k + 2 \<le> length buf \<Longrightarrow> store16 buf (int k) v = Some (splice buf k [ucast v, ucast (drop_bit 8 v)])"
  "k + 4 \<le> length buf \<Longrightarrow> store32 buf (int k) u =
     Some (splice buf k [ucast u, ucast (drop_bit 8 u), ucast (drop_bit 16 u), ucast (drop_bit 24 u)])"
  using memcpy_splice[of 0 2 "[ucast v, ucast (drop_bit 8 v)]" k buf]
    memcpy_splice[of 0 4 "[ucast u, ucast (drop_bit 8 u), ucast (drop_bit 16 u), ucast (drop_bit 24 u)]" k buf]
  by (simp_all add: store16_def store32_def)

lemma bmp_pixel_spec:
  assumes fits: "depth_fits Bpp enFmt" and src: "src + Bpp \<le> length orig"
    and k: "k = row + surface_px enFmt * j" "k + surface_px enFmt \<le> length buf"
  shows "bmp_pixel enFmt (int Bpp) orig (int src) (int row) (int j) buf =
    Some (splice buf k (pixel_of enFmt (take Bpp (drop src orig))))"
proof (cases "Bpp = 3")
  case True
  have rgb: "rd orig (int src) = Some (orig ! src)" "rd orig (int src + 1) = Some (orig ! (src + 1))"
    "rd orig (int src + 2) = Some (orig ! (src + 2))"
    using src True by (simp_all add: rd_def nat_add_distrib)
  have at: "int row + int j * int (surface_px enFmt) = int k" using k(1) by simp
  show ?thesis
  proof (cases "enFmt \<in> {OSD_COLOR_FMT_BGR888, OSD_COLOR_FMT_BGRA8888}")
    case True
    then have px: "surface_px enFmt = 4" by (auto simp: surface_px_def)
    have "memcpy_at buf (int k) 3 orig (int src) = Some (splice buf k (take 3 (drop src orig)))"
      using memcpy_splice[of src 3 orig k buf] src k(2) px \<open>Bpp = 3\<close> by simp
    then show ?thesis
      using True \<open>Bpp = 3\<close> at px k(2) src
      by (auto simp: bmp_pixel_def three_bytes splice_wr)
  next
    case False
    then show ?thesis
      using fits \<open>Bpp = 3\<close> at k(2) rgb src
      by (cases enFmt) (auto simp: depth_fits_def bmp_pixel_def three_bytes store_splice surface_px_def Let_def)
  qed
next
  case False
  then have B: "Bpp = surface_px enFmt" using fits by (simp add: depth_fits_def)
  then have "Bpp = 2 \<or> Bpp = 4" by (auto simp: surface_px_def)
  moreover have "pixel_of enFmt px = px" if "length px = Bpp" for px
    using that False by (cases "(enFmt, px)" rule: pixel_of.cases) auto
  moreover have "memcpy_at buf (int row + int j * int Bpp) (int Bpp) orig (int src) = Some (splice buf k (take Bpp (drop src orig)))"
    using memcpy_splice[of src Bpp orig k buf] src k B by (simp add: mult.commute)
  ultimately show ?thesis using src by (auto simp: bmp_pixel_def)
qed

section \<open>The whole image\<close>

text \<open>The bytes of the surface: row \<open>i\<close> shows row \<open>h - 1 - i\<close> of the file, whose rows have \<open>S\<close> bytes.\<close>

definition surface_of :: "OSD_COLOR_FMT_E \<Rightarrow> nat \<Rightarrow> nat \<Rightarrow> nat \<Rightarrow> nat \<Rightarrow> byte list \<Rightarrow> byte list" where
  "surface_of enFmt Bpp w h S orig =
     concat (map (\<lambda>i. concat (map (\<lambda>j.
       pixel_of enFmt (take Bpp (drop ((h - 1 - i) * S + Bpp * j) orig))) [0..<w])) [0..<h])"

lemma uint_offset:
  assumes "k < 2 ^ 32"
  shows "uint (word_of_nat k :: 32 word) = int k"
  using assms by (simp add: unsigned_of_nat take_bit_nat_eq_self flip: uint_nat of_nat_less_iff)

lemma unat_offset:
  assumes "k < 2 ^ 32"
  shows "unat (word_of_nat k :: 32 word) = k"
  using uint_offset[OF assms] by (metis nat_int nat_uint_eq)

lemma row_bound:
  assumes "(i :: nat) < h"
  shows "i * S + S \<le> h * S"
  using assms by (metis Suc_leI add.commute mult_Suc mult_le_mono1)

lemma pixel_inside:
  assumes "i < h" "j < w" and "Bpp * w \<le> S" and "length orig = h * S"
  shows "(h - 1 - i) * S + Bpp * j + Bpp \<le> length orig"
proof -
  have "Bpp * j + Bpp \<le> Bpp * w" by (rule next_block[OF assms(2)])
  moreover have "(h - 1 - i) * S + S \<le> h * S" using row_bound[of "h - 1 - i" h S] assms(1) by simp
  ultimately show ?thesis using assms(3,4) by linarith
qed

lemma surface_of_length:
  assumes fits: "depth_fits Bpp enFmt" and row: "Bpp * w \<le> S" and orig: "length orig = h * S"
  shows "length (surface_of enFmt Bpp w h S orig) = surface_px enFmt * w * h"
proof -
  let ?f = "\<lambda>i j. pixel_of enFmt (take Bpp (drop ((h - 1 - i) * S + Bpp * j) orig))"
  have "length (?f i j) = surface_px enFmt" if "i < h" "j < w" for i j
    by (rule pixel_of_length[OF fits]) (use pixel_inside[OF that row orig] in simp)
  then have row_len: "length (concat (map (?f i) [0..<k])) = surface_px enFmt * k" if "i < h" "k \<le> w" for i k
    using that by (induction k) auto
  have "length (concat (map (\<lambda>i. concat (map (?f i) [0..<w])) [0..<k])) = surface_px enFmt * w * k" if "k \<le> h" for k
    using that
  proof (induction k)
    case (Suc k)
    then show ?case using row_len[of k w] by (simp add: add.commute)
  qed simp
  then show ?thesis by (simp add: surface_of_def)
qed

lemma bmp_rows_spec:
  assumes fits: "depth_fits Bpp enFmt" and row: "Bpp * w \<le> S" and orig: "length orig = h * S"
    and small: "h * S < 2 ^ 32" "h < 2 ^ 32" "w < 2 ^ 32"
    and logo: "logo_width logo = word_of_nat w" "logo_height logo = word_of_nat h"
      "logo_stride logo = word_of_nat (surface_px enFmt * w)"
    and buf: "surface_px enFmt * w * h \<le> length (pRGBBuffer logo)" "surface_px enFmt * w * h < 2 ^ 32"
  shows "bmp_rows enFmt (int Bpp) orig (word_of_nat S) logo =
    Some (splice (pRGBBuffer logo) 0 (surface_of enFmt Bpp w h S orig))"
proof -
  let ?px = "surface_px enFmt"
  let ?f = "\<lambda>i j. pixel_of enFmt (take Bpp (drop ((h - 1 - i) * S + Bpp * j) orig))"
  let ?body = "\<lambda>i j b. bmp_pixel enFmt (int Bpp) orig
     (uint ((word_of_nat h - 1 - word_of_int i) * word_of_nat S :: 32 word) + j * int Bpp)
     (uint (word_of_int i * word_of_nat (?px * w) :: 32 word)) j b"
  note inside = pixel_inside[OF _ _ row orig]
  have src: "uint ((word_of_nat h - 1 - word_of_int (int i)) * word_of_nat S :: 32 word) = int ((h - 1 - i) * S)" if "i < h" for i
  proof -
    have "(word_of_nat h - 1 - word_of_int (int i)) * word_of_nat S = (word_of_nat ((h - 1 - i) * S) :: 32 word)"
      using that by (simp add: of_nat_diff diff_diff_eq)
    moreover have "(h - 1 - i) * S < 2 ^ 32" using row_bound[of "h - 1 - i" h S] that small(1) by simp
    ultimately show ?thesis by (simp only: uint_offset)
  qed
  have dst: "uint (word_of_int (int i) * word_of_nat (?px * w) :: 32 word) = int (?px * w * i)" if "i < h" for i
  proof -
    have "word_of_int (int i) * word_of_nat (?px * w) = (word_of_nat (?px * w * i) :: 32 word)"
      by (simp add: mult.commute)
    moreover have "?px * w * i < 2 ^ 32" using row_bound[OF that, of "?px * w"] buf(2) by (simp add: mult.commute)
    ultimately show ?thesis by (simp only: uint_offset)
  qed
  have "for_up (\<lambda>i b. map_option Nxt (for_up (\<lambda>j b. map_option Nxt (?body i j b)) 0 (int w) b)) 0 (int h) (pRGBBuffer logo) =
      Some (splice (pRGBBuffer logo) 0 (concat (map (\<lambda>i. concat (map (?f i) [0..<w])) [0..<h])))"
  proof (rule for_block_rows[where d = ?px])
    fix i j and b :: "byte list" assume ij: "i < h" "j < w" and b: "length b = length (pRGBBuffer logo)"
    have "?px * w * i + ?px * j + ?px \<le> ?px * w * h"
      using row_bound[OF ij(1), of "?px * w"] row_bound[OF ij(2), of ?px] by (simp add: algebra_simps)
    then show "?body (int i) (int j) b = Some (splice b (?px * w * i + ?px * j) (?f i j))"
      using bmp_pixel_spec[OF fits inside[OF ij] refl, of "?px * w * i" j b] buf(1) b
      unfolding src[OF ij(1)] dst[OF ij(1)] by (simp add: mult.commute)
  next
    show "length (?f i j) = ?px" if "i < h" "j < w" for i j
      by (rule pixel_of_length[OF fits]) (use inside[OF that] in simp)
  qed (rule buf(1))
  then show ?thesis
    using small(2,3) unfolding bmp_rows_def Let_def logo surface_of_def by (simp only: uint_offset)
qed

text \<open>Rows of the file are padded to four bytes; up to 65535 bytes the code computes just that.\<close>

definition padded :: "nat \<Rightarrow> nat" where
  "padded n = (n + 3) div 4 * 4"

lemma mask_fffc:
  assumes "n < 65536"
  shows "(word_of_nat n :: 32 word) AND 0xfffc = word_of_nat (n div 4 * 4)"
proof -
  have "(0xfffc :: 32 word) = push_bit 2 (mask 14)" by (simp add: mask_eq_exp_minus_1 push_bit_eq_mult)
  moreover have "word_of_nat n AND push_bit 2 (mask 14) = (push_bit 2 (drop_bit 2 (word_of_nat n)) :: 32 word)"
  proof (rule bit_word_eqI)
    fix k assume "k < LENGTH(32)"
    have "\<not> bit n k" if "16 \<le> k"
    proof -
      have "n < 2 ^ k" using assms power_increasing[OF that, of "2 :: nat"] by simp
      then show ?thesis by (simp add: bit_nat_def)
    qed
    then show "bit (word_of_nat n AND push_bit 2 (mask 14) :: 32 word) k = bit (push_bit 2 (drop_bit 2 (word_of_nat n)) :: 32 word) k"
    proof (cases "2 \<le> k")
      case True
      then obtain m where "k = m + 2" by (metis le_add_diff_inverse2)
      then show ?thesis using \<open>16 \<le> k \<Longrightarrow> \<not> bit n k\<close> by (cases "m < 14") (auto simp: bit_simps)
    qed (simp add: bit_simps)
  qed
  moreover have "drop_bit 2 (word_of_nat n :: 32 word) = word_of_nat (n div 4)"
    by (rule word_unat_eq_iff[THEN iffD2]) (use assms in \<open>simp add: drop_bit_eq_div unat_div_distrib unsigned_of_nat take_bit_nat_eq_self\<close>)
  ultimately show ?thesis by (simp add: push_bit_eq_mult)
qed

lemma round_up: "(n :: nat) mod 4 \<noteq> 0 \<Longrightarrow> (n + 3) div 4 * 4 = n div 4 * 4 + 4"
  by presburger

lemma stride_word:
  assumes "w * Bpp < 65536"
  shows "(let stride = (word_of_nat w * word_of_int (int Bpp) :: 32 word)
          in if stride mod 4 \<noteq> 0 then (stride AND 0xfffc) + 4 else stride) = word_of_nat (padded (w * Bpp))"
proof -
  let ?n = "w * Bpp"
  have n: "word_of_nat w * word_of_int (int Bpp) = (word_of_nat ?n :: 32 word)" by simp
  have "unat (word_of_nat ?n :: 32 word) = ?n"
    using assms by (simp only: unsigned_of_nat) (simp add: take_bit_nat_eq_self)
  then have "unat ((word_of_nat ?n :: 32 word) mod 4) = ?n mod 4" by (simp only: unat_mod_distrib) simp
  then have m: "(word_of_nat ?n :: 32 word) mod 4 = 0 \<longleftrightarrow> ?n mod 4 = 0" by (metis unat_eq_0)
  show ?thesis
  proof (cases "?n mod 4 = 0")
    case True
    then have "padded ?n = ?n" by (auto simp: padded_def elim!: dvdE)
    then show ?thesis using m n True by (simp add: Let_def)
  next
    case False
    then have "padded ?n = ?n div 4 * 4 + 4" using round_up[of ?n] by (simp add: padded_def)
    then show ?thesis using m n False mask_fffc[OF assms] by (simp add: Let_def)
  qed
qed

section \<open>Loading\<close>

text \<open>
  An uncompressed bitmap with \<open>Bpp\<close> bytes in a pixel whose data starts at \<open>offs\<close>; its height is
  positive and both dimensions fit 16 bits.
\<close>

definition bmp_file :: "byte list \<Rightarrow> nat \<Rightarrow> nat \<Rightarrow> nat \<Rightarrow> nat \<Rightarrow> bool" where
  "bmp_file bs Bpp w h offs \<longleftrightarrow>
     le16 bs 0 = Some 0x4d42 \<and> le32 bs 10 = Some (word_of_nat offs) \<and> offs < 2 ^ 31 \<and>
     le32 bs 18 = Some (word_of_nat w) \<and> w < 65536 \<and> le32 bs 22 = Some (word_of_nat h) \<and> h < 65536 \<and>
     le16 bs 28 = Some (word_of_nat (8 * Bpp)) \<and> 2 \<le> Bpp \<and> Bpp \<le> 4 \<and> le32 bs 30 = Some 0"

lemma narrow:
  assumes "n < 65536"
  shows "ucast (ucast (word_of_nat n :: 32 word) :: 16 word) = (word_of_nat n :: 32 word)"
proof -
  have "unat (ucast (ucast (word_of_nat n :: 32 word) :: 16 word) :: 32 word) = unat (word_of_nat n :: 32 word)"
    using assms by (simp add: unsigned_ucast_eq unsigned_of_nat take_bit_nat_eq_self)
  then show ?thesis by (rule word_unat_eq_iff[THEN iffD2])
qed

lemma load_bmp_steps:
  assumes "files fs f = Some bs" and bmp: "bmp_file bs Bpp w h offs"
    and S: "S = (let stride = (word_of_nat w * word_of_int (int Bpp) :: 32 word)
              in if stride mod 4 \<noteq> 0 then (stride AND 0xfffc) + 4 else stride)"
  shows "load_bmp_ex alloc fs (Some f) logo enFmt st =
    (let n = unat (word_of_nat h * S); orig = take n (drop offs bs);
         logo = logo\<lparr>logo_width := word_of_nat w, logo_height := word_of_nat h\<rparr>
     in if \<not> alloc n then Some (-1, logo, st)
        else if length orig \<noteq> n then Some (-1, logo, st\<lparr>streams := streams st + 1, blocks := blocks st + 1\<rparr>)
        else let logo = logo\<lparr>logo_stride := word_of_nat (surface_px enFmt * w)\<rparr>
             in do { buf \<leftarrow> bmp_rows enFmt (int Bpp) orig S logo; Some (0, logo\<lparr>pRGBBuffer := buf\<rparr>, st) })"
proof -
  have "unat (word_of_nat offs :: 32 word) = offs" "unat (word_of_nat h :: 32 word) = h"
    using bmp by (simp_all add: bmp_file_def unsigned_of_nat take_bit_nat_eq_self)
  moreover have "uint (word_of_nat (8 * Bpp) :: 16 word) div 8 = int Bpp"
  proof -
    have "Bpp \<in> {2, 3, 4}" using bmp by (auto simp: bmp_file_def)
    then show ?thesis by auto
  qed
  moreover have "0 \<le> sint (word_of_nat h :: 32 word)"
    using bmp by (simp add: bmp_file_def signed_of_nat signed_take_bit_int_eq_self)
  moreover have "ucast (ucast (word_of_nat w :: 32 word) :: 16 word) = (word_of_nat w :: 32 word)"
    "ucast (ucast (word_of_nat h :: 32 word) :: 16 word) = (word_of_nat h :: 32 word)"
    using bmp by (simp_all add: bmp_file_def narrow)
  moreover have "word_of_nat w * (if at_least_RGB888 enFmt then 4 else 2) = (word_of_nat (surface_px enFmt * w) :: 32 word)"
    by (simp add: surface_px_def mult.commute)
  ultimately show ?thesis
    using assms(1) bmp unfolding S
    by (simp add: load_bmp_ex_def get_bmp_info_def fopen_Some bmp_file_def Let_def)
qed

lemma load_bmp_spec:
  assumes "files fs f = Some bs" and "bmp_file bs Bpp w h offs" and "depth_fits Bpp enFmt"
    and "w * Bpp < 65536" and "offs + h * padded (w * Bpp) \<le> length bs" and "alloc (h * padded (w * Bpp))"
    and "surface_px enFmt * w * h \<le> length (pRGBBuffer logo)" and "length (pRGBBuffer logo) < 2 ^ 32"
  shows "load_bmp_ex alloc fs (Some f) logo enFmt st =
    Some (0, logo\<lparr>logo_width := word_of_nat w, logo_height := word_of_nat h,
                logo_stride := word_of_nat (surface_px enFmt * w),
                pRGBBuffer := surface_of enFmt Bpp w h (padded (w * Bpp)) (take (h * padded (w * Bpp)) (drop offs bs)) @
                  drop (surface_px enFmt * w * h) (pRGBBuffer logo)\<rparr>, st)"
proof -
  let ?S = "padded (w * Bpp)"
  let ?orig = "take (h * ?S) (drop offs bs)"
  let ?logo = "logo\<lparr>logo_width := word_of_nat w, logo_height := word_of_nat h, logo_stride := word_of_nat (surface_px enFmt * w)\<rparr>"
  have dims: "w < 65536" "h < 65536" using assms(2) by (simp_all add: bmp_file_def)
  have "?S \<le> 65536" "w * Bpp \<le> ?S" using assms(4) by (simp_all add: padded_def)
  then have "h * ?S \<le> 65535 * 65536" using dims(2) by (intro mult_le_mono) simp_all
  then have small: "h * ?S < 2 ^ 32" by simp
  have n: "unat (word_of_nat h * word_of_nat ?S :: 32 word) = h * ?S"
    using unat_offset[OF small] by simp
  have len: "length ?orig = h * ?S" using assms(5) by simp
  have "bmp_rows enFmt (int Bpp) ?orig (word_of_nat ?S) ?logo =
      Some (splice (pRGBBuffer logo) 0 (surface_of enFmt Bpp w h ?S ?orig))"
    using bmp_rows_spec[of Bpp enFmt w ?S ?orig h ?logo] assms(3,7,8) \<open>w * Bpp \<le> ?S\<close> len small dims
    by (simp add: mult.commute)
  moreover have "length (surface_of enFmt Bpp w h ?S ?orig) = surface_px enFmt * w * h"
    by (rule surface_of_length[OF assms(3)]) (use \<open>w * Bpp \<le> ?S\<close> len in \<open>simp_all add: mult.commute\<close>)
  ultimately show ?thesis
    unfolding load_bmp_steps[OF assms(1,2) stride_word[OF assms(4), symmetric]] Let_def n
    using assms(6) len by (simp add: splice_all del: length_take of_nat_mult)
qed

text \<open>
   Loading a bitmap: for an uncompressed file whose rows have at most 65535 bytes, whose data is
  complete and whose depth the surface takes, into a buffer with room for it, the loader returns 0 with
  the size and stride of the image; the surface holds, row by row and upside down, each pixel of the
  file in the format asked for, the bytes behind the image are untouched, and every stream and block is
  given back.
\<close>

theorem load_bmp_converts:
  assumes "files fs f = Some bs" and "bmp_file bs Bpp w h offs" and "depth_fits Bpp enFmt"
    and "w * Bpp < 65536" and "offs + h * padded (w * Bpp) \<le> length bs" and "alloc (h * padded (w * Bpp))"
    and "surface_px enFmt * w * h \<le> length (pRGBBuffer logo)" and "length (pRGBBuffer logo) < 2 ^ 32"
  shows "load_bmp_ex alloc fs (Some f) logo enFmt st =
    Some (0, logo\<lparr>logo_width := word_of_nat w, logo_height := word_of_nat h,
                logo_stride := word_of_nat (surface_px enFmt * w),
                pRGBBuffer := surface_of enFmt Bpp w h (padded (w * Bpp)) (take (h * padded (w * Bpp)) (drop offs bs)) @
                  drop (surface_px enFmt * w * h) (pRGBBuffer logo)\<rparr>, st)"
  using assms by (rule load_bmp_spec)

text \<open>A blue and a red pixel.\<close>

definition demo_bmp :: "byte list" where
  "demo_bmp = [0x42, 0x4d, 62, 0, 0, 0, 0, 0, 0, 0, 54, 0, 0, 0, 40, 0, 0, 0, 2, 0, 0, 0, 1, 0, 0, 0, 1, 0, 24, 0,
     0, 0, 0, 0, 0, 0, 0, 0, 0, 0, 0, 0, 0, 0, 0, 0, 0, 0, 0, 0, 0, 0, 0, 0, 255, 0, 0, 0, 0, 255, 0, 0]"

theorem load_bmp_converts_witness:
  "load_bmp_ex (\<lambda>_. True) \<lparr>files = (\<lambda>_. Some demo_bmp), may_write = (\<lambda>_. False)\<rparr> (Some ''a.bmp'')
     \<lparr>logo_width = 0, logo_height = 0, logo_stride = 0, pRGBBuffer = [7, 7, 7, 7, 7, 7]\<rparr> OSD_COLOR_FMT_ARGB1555 \<lparr>streams = 0, blocks = 0\<rparr> =
   Some (0, \<lparr>logo_width = 2, logo_height = 1, logo_stride = 4, pRGBBuffer = [0x01, 0xf8, 0x3f, 0, 7, 7]\<rparr>, \<lparr>streams = 0, blocks = 0\<rparr>)"
proof -
  let ?fs = "\<lparr>files = (\<lambda>_. Some demo_bmp), may_write = (\<lambda>_. False)\<rparr>"
  let ?logo = "\<lparr>logo_width = 0, logo_height = 0, logo_stride = 0, pRGBBuffer = [7, 7, 7, 7, 7, 7]\<rparr>"
  have bmp: "bmp_file demo_bmp 3 2 1 54" by (simp add: bmp_file_def demo_bmp_def le16_def le32_def)
  have fits: "depth_fits 3 OSD_COLOR_FMT_ARGB1555" by (simp add: depth_fits_def)
  have px: "surface_px OSD_COLOR_FMT_ARGB1555 = 2" by (simp add: surface_px_def)
  have len: "54 + 1 * padded (2 * 3) \<le> length demo_bmp" by (simp add: padded_def demo_bmp_def)
  have out: "surface_of OSD_COLOR_FMT_ARGB1555 3 2 1 (padded (2 * 3)) (take (1 * padded (2 * 3)) (drop 54 demo_bmp)) =
      [0x01, 0xf8, 0x3f, 0]"
    by (simp add: surface_of_def padded_def demo_bmp_def OSD_MAKECOLOR_ARGB_def Let_def upt_rec)
  show ?thesis
    using load_bmp_converts[of ?fs "''a.bmp''" demo_bmp 3 2 1 54 OSD_COLOR_FMT_ARGB1555 "\<lambda>_. True" ?logo
        "\<lparr>streams = 0, blocks = 0\<rparr>", OF _ bmp fits _ len]
    by (simp add: px out[simplified])
qed

text \<open>The surface the on-screen display gets; its stride has 16 bits.\<close>

lemma create_surface_ok:
  assumes "files fs f = Some bs" and "bmp_file bs Bpp w h offs" and "depth_fits Bpp (enColorFmt s)"
    and "w * Bpp < 65536" and "offs + h * padded (w * Bpp) \<le> length bs" and "alloc (h * padded (w * Bpp))"
    and "surface_px (enColorFmt s) * w * h \<le> length buf" and "length buf < 2 ^ 32"
    and "get_ext_name (Some f) = Some ''bmp''"
  shows "create_surface_by_bitmap alloc fs (Some f) s buf st =
    Some (0, s\<lparr>u16Height := ucast (word_of_nat h :: 32 word), u16Width := ucast (word_of_nat w :: 32 word),
              u16Stride := ucast (word_of_nat (surface_px (enColorFmt s) * w) :: 32 word)\<rparr>,
          surface_of (enColorFmt s) Bpp w h (padded (w * Bpp)) (take (h * padded (w * Bpp)) (drop offs bs)) @
            drop (surface_px (enColorFmt s) * w * h) buf, st)"
proof -
  let ?logo = "\<lparr>logo_width = 0, logo_height = 0, logo_stride = 0, pRGBBuffer = buf\<rparr>"
  have "load_bmp_ex alloc fs (Some f) ?logo (enColorFmt s) st = Some (0, ?logo\<lparr>logo_width := word_of_nat w,
      logo_height := word_of_nat h, logo_stride := word_of_nat (surface_px (enColorFmt s) * w),
      pRGBBuffer := surface_of (enColorFmt s) Bpp w h (padded (w * Bpp)) (take (h * padded (w * Bpp)) (drop offs bs)) @
        drop (surface_px (enColorFmt s) * w * h) buf\<rparr>, st)"
    using load_bmp_spec[where alloc = alloc and logo = ?logo and st = st, OF assms(1-6)] assms(7,8) by simp
  then show ?thesis using assms(9) by (simp add: create_surface_by_bitmap_def load_image_ex_def)
qed

section \<open>What goes wrong\<close>

text \<open>Another type of file leaves its stream open, an incomplete one the stream and the block.\<close>

lemma other_type_leaks:
  assumes "files fs f = Some bs" and "le16 bs 0 = Some t" and "t \<noteq> 0x4d42"
  shows "load_bmp_ex alloc fs (Some f) logo enFmt st = Some (-1, logo, st\<lparr>streams := streams st + 1\<rparr>)"
  using assms by (simp add: load_bmp_ex_def get_bmp_info_def fopen_Some Let_def)

lemma short_bitmap_leaks:
  assumes "files fs f = Some bs" and "bmp_file bs Bpp w h offs" and "w * Bpp < 65536"
    and "length bs - offs < h * padded (w * Bpp)" and "alloc (h * padded (w * Bpp))"
  shows "load_bmp_ex alloc fs (Some f) logo enFmt st =
    Some (-1, logo\<lparr>logo_width := word_of_nat w, logo_height := word_of_nat h\<rparr>, \<lparr>streams = streams st + 1, blocks = blocks st + 1\<rparr>)"
proof -
  have "padded (w * Bpp) \<le> 65536" using assms(3) by (simp add: padded_def)
  then have "h * padded (w * Bpp) \<le> 65535 * 65536" using assms(2) by (intro mult_le_mono) (simp_all add: bmp_file_def)
  then have n: "unat (word_of_nat h * word_of_nat (padded (w * Bpp)) :: 32 word) = h * padded (w * Bpp)"
    using unat_offset[of "h * padded (w * Bpp)"] by simp
  show ?thesis
    unfolding load_bmp_steps[OF assms(1,2) stride_word[OF assms(3), symmetric]] Let_def n
    using assms(4,5) by simp
qed

text \<open>A name without a dot has all but its first letter as extension.\<close>

lemma no_dot_extension:
  assumes "CHR ''.'' \<notin> set s" and "s \<noteq> []"
  shows "get_ext_name (Some s) = Some (tl s)"
proof -
  have loop: "ext_loop s (Suc k) p = Some (drop 1 s)" if "Suc k \<le> length s" for k p
    using that
  proof (induction k arbitrary: p)
    case (Suc k)
    have "\<not> (Suc (Suc k) < length s \<and> s ! Suc (Suc k) = CHR ''.'')" using assms(1) by (metis nth_mem)
    then have "ext_loop s (Suc (Suc k)) p = ext_loop s (Suc k) (Some (drop (Suc (Suc k)) s))"
      by (simp only: ext_loop.simps(2)[of s "Suc k"] if_False)
    then show ?case using Suc.IH Suc.prems by (simp only: Suc_leD)
  qed (use assms in \<open>auto dest: nth_mem\<close>)
  obtain c cs where "s = c # cs" using assms(2) by (cases s) auto
  then show ?thesis using loop[of "length cs" None] by (simp add: get_ext_name_def del: ext_loop.simps)
qed

lemma memcpy_at_length: "memcpy_at dst doff len src soff = Some d \<Longrightarrow> length d = length dst"
  by (auto simp: memcpy_at_def split: if_splits)

lemma bmp_pixel_length: "bmp_pixel enFmt Bpp orig src row j buf = Some b \<Longrightarrow> length b = length buf"
  by (auto simp: bmp_pixel_def store16_def store32_def dest!: memcpy_at_length wr_length split: if_splits bind_splits)

text \<open>One undefined pixel makes the whole image undefined.\<close>

lemma bmp_rows_fails:
  assumes "i < h" "j < w" and dims: "logo_width logo = word_of_nat w" "logo_height logo = word_of_nat h" "w < 65536" "h < 65536"
    and bad: "\<And>buf. length buf = length (pRGBBuffer logo) \<Longrightarrow>
      bmp_pixel enFmt Bpp orig (uint ((word_of_nat h - 1 - word_of_nat i) * stride) + int j * Bpp)
        (uint (word_of_nat i * logo_stride logo)) (int j) buf = None"
  shows "bmp_rows enFmt Bpp orig stride logo = None"
proof -
  let ?P = "\<lambda>b :: byte list. length b = length (pRGBBuffer logo)"
  let ?px = "\<lambda>i j b. bmp_pixel enFmt Bpp orig (uint ((word_of_nat h - 1 - word_of_int i) * stride) + j * Bpp)
     (uint (word_of_int i * logo_stride logo)) j b"
  let ?row = "\<lambda>i b. for_up (\<lambda>j b. map_option Nxt (?px i j b)) 0 (int w) b"
  have "for_up (\<lambda>i b. map_option Nxt (?row i b)) 0 (int h) (pRGBBuffer logo) = None"
  proof (rule for_each_fails_inv[where P = ?P and j = "int i"])
    show "?row (int i) b = None" if "?P b" for b
      by (rule for_each_fails_inv[where P = ?P and j = "int j", OF that])
        (use assms(2) bad in \<open>auto dest: bmp_pixel_length\<close>)
    show "?P b'" if "?P b" "?row k b = Some b'" for k b b'
      by (rule for_each_keeps[where P = ?P, OF that(2,1)]) (auto dest: bmp_pixel_length)
  qed (use assms(1) in simp_all)
  moreover have "uint (word_of_nat w :: 32 word) = int w" "uint (word_of_nat h :: 32 word) = int h"
    using dims(3,4) by (simp_all add: uint_offset)
  ultimately show ?thesis by (simp add: bmp_rows_def dims Let_def)
qed

text \<open>
  A 32-bit bitmap in a 16-bit format: the rows of the surface have two bytes for a pixel, four are
  copied, and the last one leaves the buffer.
\<close>

lemma deep_bitmap_overruns:
  assumes "files fs f = Some bs" and "bmp_file bs 4 w h offs" and "0 < w" "0 < h"
    and "surface_px enFmt = 2" and "w * 4 < 65536" and "h * (w * 4) \<le> length bs - offs" and "alloc (h * (w * 4))"
    and "length (pRGBBuffer logo) = 2 * w * h"
  shows "load_bmp_ex alloc fs (Some f) logo enFmt st = None"
proof -
  have S: "padded (w * 4) = w * 4" by (simp add: padded_def)
  have dims: "w < 65536" "h < 65536" using assms(2) by (simp_all add: bmp_file_def)
  have "h * (w * 4) \<le> 65535 * 65536" using dims(2) assms(6) by (intro mult_le_mono) simp_all
  then have n: "unat (word_of_nat h * word_of_nat (w * 4) :: 32 word) = h * (w * 4)"
    using unat_offset[of "h * (w * 4)"] by (simp add: mult.assoc)
  let ?logo = "logo\<lparr>logo_width := word_of_nat w, logo_height := word_of_nat h, logo_stride := word_of_nat (surface_px enFmt * w)\<rparr>"
  have "(h - 1) * (2 * w) < 2 ^ 32"
  proof -
    have "(h - 1) * (2 * w) = 2 * ((h - 1) * w)" "h * (w * 4) = 4 * (h * w)" by simp_all
    then have "(h - 1) * (2 * w) < 4294967296"
      using \<open>h * (w * 4) \<le> 65535 * 65536\<close> mult_le_mono1[OF diff_le_self, of h 1 w] by linarith
    then show ?thesis by simp
  qed
  then have row: "uint (word_of_nat (h - 1) * word_of_nat (2 * w) :: 32 word) = int ((h - 1) * (2 * w))"
    using uint_offset[of "(h - 1) * (2 * w)"] by simp
  have "2 * w * h = (h - 1) * (2 * w) + 2 * w" using assms(4) by (cases h) (simp_all add: algebra_simps)
  then have "bmp_rows enFmt (int 4) (take (h * (w * 4)) (drop offs bs)) (word_of_nat (w * 4)) ?logo = None"
    using assms(3,4,5,9) dims row
    by (intro bmp_rows_fails[of "h - 1" h "w - 1" w])
       (simp_all add: bmp_pixel_def memcpy_at_def of_nat_diff del: of_nat_mult)
  then show ?thesis
    unfolding load_bmp_steps[OF assms(1,2) stride_word[OF assms(6), symmetric]] Let_def S n
    using assms(7,8) by (simp del: of_nat_mult)
qed

text \<open>
  Rows of more than 65535 bytes: the padding keeps 16 bits of the row size, the block is too small
  for the file's rows, and the first row of the surface is read from behind it.
\<close>

lemma cut_stride:
  assumes "65536 \<le> w * 3" "w < 65536" "w * 3 mod 4 \<noteq> 0"
  obtains s where "s \<le> 65536" "(let stride = (word_of_nat w * word_of_int (int 3) :: 32 word)
      in if stride mod 4 \<noteq> 0 then (stride AND 0xfffc) + 4 else stride) = word_of_nat s"
proof -
  let ?x = "word_of_nat (w * 3) :: 32 word"
  have "unat (?x AND 0xfffc) \<le> unat (0xfffc :: 32 word)"
    unfolding word_le_nat_alt[symmetric] by (rule word_and_le1)
  moreover have "(?x AND 0xfffc) + 4 = word_of_nat (unat (?x AND 0xfffc) + 4)" by simp
  moreover have "unat (?x mod 4) = w * 3 mod 4"
    using unat_offset[of "w * 3"] assms(2) by (simp only: unat_mod_distrib) simp
  then have "?x mod 4 \<noteq> 0" using assms(3) by (metis unat_eq_0)
  ultimately show ?thesis using that[of "unat (?x AND 0xfffc) + 4"] by (simp add: Let_def)
qed

lemma wide_bitmap_overruns:
  assumes "files fs f = Some bs" and bmp: "bmp_file bs 3 w h offs" and "0 < h"
    and "65536 \<le> w * 3" and "w * 3 mod 4 \<noteq> 0" and "enFmt \<noteq> OSD_COLOR_FMT_RGB4444"
    and "h * 65536 \<le> length bs - offs" and "\<And>n. alloc n"
  shows "load_bmp_ex alloc fs (Some f) logo enFmt st = None"
proof -
  have dims: "w < 65536" "h < 65536" using bmp by (simp_all add: bmp_file_def)
  obtain s where s: "s \<le> 65536" and S: "(let stride = (word_of_nat w * word_of_int (int 3) :: 32 word)
      in if stride mod 4 \<noteq> 0 then (stride AND 0xfffc) + 4 else stride) = word_of_nat s"
    using cut_stride[OF assms(4) dims(1) assms(5)] .
  have hs: "h * s \<le> h * 65536" by (rule mult_le_mono2[OF s])
  then have "h * s < 4294967296" using dims(2) by linarith
  then have small: "h * s < 2 ^ 32" by simp
  have n: "unat (word_of_nat h * word_of_nat s :: 32 word) = h * s"
    using unat_offset[OF small] by simp
  have hs': "h * s = (h - 1) * s + s" using assms(3) by (cases h) simp_all
  then have row: "uint (word_of_nat (h - 1) * word_of_nat s :: 32 word) = int ((h - 1) * s)"
    using uint_offset[of "(h - 1) * s"] small by simp
  let ?logo = "logo\<lparr>logo_width := word_of_nat w, logo_height := word_of_nat h, logo_stride := word_of_nat (surface_px enFmt * w)\<rparr>"
  let ?orig = "take (h * s) (drop offs bs)"
  have "h * s \<le> length (drop offs bs)" using assms(7) hs by (simp only: length_drop)
  then have len: "length ?orig = h * s" by (simp only: length_take min_absorb2)
  have wide: "65537 \<le> w * 3" using assms(4,5) by presburger
  have out: "int (length ?orig) \<le> int ((h - 1) * s) + (int w - 1) * 3 + 2"
  proof -
    have "int (length ?orig) = int ((h - 1) * s) + int s" using len hs' by (simp only: of_nat_add)
    moreover have "int s \<le> 65536" "65537 \<le> int w * 3" using s wide by linarith+
    moreover have "x \<le> a + (v - 1) * 3 + 2" if "x = a + y" "y \<le> 65536" "65537 \<le> v * 3" for a x y v :: int
      using that by (simp add: algebra_simps)
    ultimately show ?thesis by blast
  qed
  have "rd ?orig (int ((h - 1) * s) + (int w - 1) * 3 + 2) = None" using out by (simp add: rd_def)
  moreover have "memcpy_at buf k 3 ?orig (int ((h - 1) * s) + (int w - 1) * 3) = None" for buf k
    using out by (intro memcpy_at_fails) simp_all
  ultimately have "bmp_rows enFmt (int 3) ?orig (word_of_nat s) ?logo = None"
    using dims assms(3,4,6) row
    by (intro bmp_rows_fails[of 0 h "w - 1" w])
       (cases enFmt; simp add: bmp_pixel_def of_nat_diff del: of_nat_mult length_take split: option.split)+
  then show ?thesis
    unfolding load_bmp_steps[OF assms(1,2) S[symmetric]] Let_def n
    using assms(8) len by (simp del: of_nat_mult length_take)
qed

end
