(* ===== verification/Fill_Image.thy ===== *)
theory Fill_Image
  imports Blocks
begin

text \<open>
  \<^verbatim>\<open>common/fillimage.c\<close>: the moving test pattern.  Colour components are 32-bit words and packed
  pixels 16-bit or 32-bit words; a 16-bit store through a pointer is little-endian, as on the board.
  A byte stored from an \<open>int\<close> expression is its value modulo 256.  Sizes, strides and offsets are \<open>int\<close>
  values of at most 31 bits.
\<close>

unbundle bit_operations_syntax

section \<open>The colour of a position\<close>

definition RK_CLIP3 :: "int \<Rightarrow> int \<Rightarrow> int \<Rightarrow> int" where
  "RK_CLIP3 l h a = (if a < l then l else if a > h then h else a)"

definition get_rgb_color :: "int \<Rightarrow> int \<Rightarrow> int \<Rightarrow> 32 word \<times> 32 word \<times> 32 word" where
  "get_rgb_color x y frm_cnt =
     (let Y = uint (word_of_int (0 + x + y + frm_cnt * 3) :: byte);
          U = uint (word_of_int (128 + y sdiv 2 + frm_cnt * 2) :: byte);
          V = uint (word_of_int (64 + x sdiv 2 + frm_cnt * 5) :: byte);
          R = Y + drop_bit 8 (360 * (V - 128));
          G = Y - drop_bit 8 (88 * (U - 128) + 184 * (V - 128));
          B = Y + drop_bit 8 (455 * (U - 128))
      in (word_of_int (RK_CLIP3 0 255 R), word_of_int (RK_CLIP3 0 255 G), word_of_int (RK_CLIP3 0 255 B)))"

section \<open>Packing a pixel\<close>

text \<open>The bytes a packer stores at \<open>p\<close>, in the order of their addresses.\<close>

type_synonym rgb_fill = "32 word \<Rightarrow> 32 word \<Rightarrow> 32 word \<Rightarrow> bool \<Rightarrow> byte list"

definition bytes16 :: "16 word \<Rightarrow> bool \<Rightarrow> byte list" where
  "bytes16 v be = (if be then [ucast (drop_bit 8 v AND 0xff), ucast (v AND 0xff)]
                   else [ucast (v AND 0xff), ucast (drop_bit 8 v AND 0xff)])"

definition bytes32 :: "32 word \<Rightarrow> bool \<Rightarrow> byte list" where
  "bytes32 v be =
     (let bs = [ucast (drop_bit 24 v AND 0xff), ucast (drop_bit 16 v AND 0xff), ucast (drop_bit 8 v AND 0xff), ucast (v AND 0xff)]
      in if be then bs else rev bs)"

definition fill_MPP_FMT_RGB565 :: rgb_fill where
  "fill_MPP_FMT_RGB565 R G B be =
     bytes16 (ucast (push_bit 11 (drop_bit 3 R AND 0x1f) OR push_bit 5 (drop_bit 2 G AND 0x3f) OR (drop_bit 3 B AND 0x1f))) be"

definition fill_MPP_FMT_BGR565 :: rgb_fill where
  "fill_MPP_FMT_BGR565 R G B be =
     bytes16 (ucast ((drop_bit 3 R AND 0x1f) OR push_bit 5 (drop_bit 2 G AND 0x3f) OR push_bit 11 (drop_bit 3 B AND 0x1f))) be"

definition fill_MPP_FMT_RGB555 :: rgb_fill where
  "fill_MPP_FMT_RGB555 R G B be =
     bytes16 (ucast (push_bit 10 (drop_bit 3 R AND 0x1f) OR push_bit 5 (drop_bit 3 G AND 0x1f) OR (drop_bit 3 B AND 0x1f))) be"

definition fill_MPP_FMT_BGR555 :: rgb_fill where
  "fill_MPP_FMT_BGR555 R G B be =
     bytes16 (ucast ((drop_bit 3 R AND 0x1f) OR push_bit 5 (drop_bit 3 G AND 0x1f) OR push_bit 10 (drop_bit 3 B AND 0x1f))) be"

definition fill_MPP_FMT_RGB444 :: rgb_fill where
  "fill_MPP_FMT_RGB444 R G B be =
     bytes16 (ucast (push_bit 8 (drop_bit 4 R AND 0xf) OR push_bit 4 (drop_bit 4 G AND 0xf) OR (drop_bit 4 B AND 0xf))) be"

definition fill_MPP_FMT_BGR444 :: rgb_fill where
  "fill_MPP_FMT_BGR444 R G B be =
     bytes16 (ucast ((drop_bit 4 R AND 0xf) OR push_bit 4 (drop_bit 4 G AND 0xf) OR push_bit 8 (drop_bit 4 B AND 0xf))) be"

definition fill_MPP_FMT_RGB888 :: rgb_fill where
  "fill_MPP_FMT_RGB888 R G B be = (if be then [ucast R, ucast G, ucast B] else [ucast B, ucast G, ucast R])"

definition fill_MPP_FMT_BGR888 :: rgb_fill where
  "fill_MPP_FMT_BGR888 R G B be = (if be then [ucast B, ucast G, ucast R] else [ucast R, ucast G, ucast B])"

definition fill_MPP_FMT_RGB101010 :: rgb_fill where
  "fill_MPP_FMT_RGB101010 R G B be =
     bytes32 (push_bit 20 (R * 4 AND 0x3ff) OR push_bit 10 (G * 4 AND 0x3ff) OR (B * 4 AND 0x3ff)) be"

definition fill_MPP_FMT_BGR101010 :: rgb_fill where
  "fill_MPP_FMT_BGR101010 R G B be =
     bytes32 ((R * 4 AND 0x3ff) OR push_bit 10 (G * 4 AND 0x3ff) OR push_bit 20 (B * 4 AND 0x3ff)) be"

definition fill_MPP_FMT_ARGB8888 :: rgb_fill where
  "fill_MPP_FMT_ARGB8888 R G B be = (if be then [0xff, ucast R, ucast G, ucast B] else [ucast B, ucast G, ucast R, 0xff])"

definition fill_MPP_FMT_ABGR8888 :: rgb_fill where
  "fill_MPP_FMT_ABGR8888 R G B be = (if be then [0xff, ucast B, ucast G, ucast R] else [ucast R, ucast G, ucast B, 0xff])"

definition fill_MPP_FMT_BGRA8888 :: rgb_fill where
  "fill_MPP_FMT_BGRA8888 R G B be = (if be then [ucast B, ucast G, ucast R, 0xff] else [0xff, ucast R, ucast G, ucast B])"

definition fill_MPP_FMT_RGBA8888 :: rgb_fill where
  "fill_MPP_FMT_RGBA8888 R G B be = (if be then [ucast R, ucast G, ucast B, 0xff] else [0xff, ucast B, ucast G, ucast R])"

text \<open>
  The formats with alpha store a whole word: \<open>bytes16 v False\<close>.  Their components are bytes before
  they are shifted.
\<close>

definition fill_MPP_FMT_ARGB1555 :: rgb_fill where
  "fill_MPP_FMT_ARGB1555 R G B be =
     (let r1 = uint (ucast (drop_bit 3 R) :: byte); g1 = uint (ucast (drop_bit 3 G) :: byte); b1 = uint (ucast (drop_bit 3 B) :: byte)
      in bytes16 (word_of_int (if be then 1 OR push_bit 1 r1 OR push_bit 6 g1 OR push_bit 11 b1
           else (push_bit 15 1 + push_bit 10 r1) OR push_bit 5 g1 OR b1)) False)"

definition fill_MPP_FMT_ABGR1555 :: rgb_fill where
  "fill_MPP_FMT_ABGR1555 R G B be =
     (let r1 = uint (ucast (drop_bit 3 R) :: byte); g1 = uint (ucast (drop_bit 3 G) :: byte); b1 = uint (ucast (drop_bit 3 B) :: byte)
      in bytes16 (word_of_int (if be then 1 OR push_bit 1 b1 OR push_bit 6 g1 OR push_bit 11 r1
           else (push_bit 15 1 + push_bit 10 b1) OR push_bit 5 g1 OR r1)) False)"

definition fill_MPP_FMT_ARGB4444 :: rgb_fill where
  "fill_MPP_FMT_ARGB4444 R G B be =
     bytes16 (ucast (push_bit 12 0xf OR push_bit 8 (drop_bit 4 R AND 0xf) OR push_bit 4 (drop_bit 4 G AND 0xf) OR (drop_bit 4 B AND 0xf))) be"

definition fill_MPP_FMT_ABGR4444 :: rgb_fill where
  "fill_MPP_FMT_ABGR4444 R G B be =
     bytes16 (ucast ((drop_bit 4 R AND 0xf) OR push_bit 4 (drop_bit 4 G AND 0xf) OR push_bit 8 (drop_bit 4 B AND 0xf) OR push_bit 12 0xf)) be"

definition fill_MPP_FMT_BGRA4444 :: rgb_fill where
  "fill_MPP_FMT_BGRA4444 R G B be =
     (let r1 = uint (ucast (drop_bit 4 R) :: byte); g1 = uint (ucast (drop_bit 4 G) :: byte); b1 = uint (ucast (drop_bit 4 B) :: byte)
      in bytes16 (word_of_int (if be then b1 OR push_bit 4 g1 OR push_bit 8 r1 OR push_bit 12 0xf
           else (push_bit 12 b1 + push_bit 8 g1) OR push_bit 4 r1 OR 0xf)) False)"

definition fill_MPP_FMT_RGBA5551 :: rgb_fill where
  "fill_MPP_FMT_RGBA5551 R G B be =
     (let r1 = uint (ucast (drop_bit 3 R) :: byte); g1 = uint (ucast (drop_bit 3 G) :: byte); b1 = uint (ucast (drop_bit 3 B) :: byte)
      in bytes16 (word_of_int (if be then r1 OR push_bit 5 g1 OR push_bit 10 b1 OR push_bit 15 1
           else push_bit 11 r1 OR push_bit 6 g1 OR push_bit 1 b1 OR 1)) False)"

definition fill_MPP_FMT_BGRA5551 :: rgb_fill where
  "fill_MPP_FMT_BGRA5551 R G B be =
     (let r1 = uint (ucast (drop_bit 3 R) :: byte); g1 = uint (ucast (drop_bit 3 G) :: byte); b1 = uint (ucast (drop_bit 3 B) :: byte)
      in bytes16 (word_of_int (if be then b1 OR push_bit 5 g1 OR push_bit 10 r1 OR push_bit 15 1
           else (push_bit 11 b1 + push_bit 6 g1) OR push_bit 1 r1 OR 1)) False)"

section \<open>Filling an image\<close>

datatype PIXEL_FORMAT_E =
    RK_FMT_YUV420SP | RK_FMT_YUV420SP_10BIT | RK_FMT_YUV422SP | RK_FMT_YUV422SP_10BIT | RK_FMT_YUV420P
  | RK_FMT_YUV420P_VU | RK_FMT_YUV420SP_VU | RK_FMT_YUV422P | RK_FMT_YUV422SP_VU | RK_FMT_YUV422_YUYV
  | RK_FMT_YUV422_UYVY | RK_FMT_YUV400SP | RK_FMT_YUV440SP | RK_FMT_YUV411SP | RK_FMT_YUV444
  | RK_FMT_YUV444SP | RK_FMT_YUV444P | RK_FMT_YUV422_YVYU | RK_FMT_YUV422_VYUY
  | RK_FMT_RGB565 | RK_FMT_BGR565 | RK_FMT_RGB555 | RK_FMT_BGR555 | RK_FMT_RGB444 | RK_FMT_BGR444
  | RK_FMT_RGB888 | RK_FMT_BGR888 | RK_FMT_RGB101010 | RK_FMT_BGR101010 | RK_FMT_ARGB1555
  | RK_FMT_ABGR1555 | RK_FMT_ARGB4444 | RK_FMT_ABGR4444 | RK_FMT_ARGB8565 | RK_FMT_ABGR8565
  | RK_FMT_ARGB8888 | RK_FMT_ABGR8888 | RK_FMT_BGRA8888 | RK_FMT_RGBA8888 | RK_FMT_RGBA5551
  | RK_FMT_BGRA5551 | RK_FMT_BGRA4444 | RK_FMT_RGBA4444 | RK_FMT_XBGR8888

text \<open>The table of packers, indexed by the distance of a format from the first of the RGB formats.\<close>

definition fill_rgb_funcs :: "rgb_fill option list" where
  "fill_rgb_funcs =
     [Some fill_MPP_FMT_RGB565, Some fill_MPP_FMT_BGR565, Some fill_MPP_FMT_RGB555, Some fill_MPP_FMT_BGR555,
      Some fill_MPP_FMT_RGB444, Some fill_MPP_FMT_BGR444, Some fill_MPP_FMT_RGB888, Some fill_MPP_FMT_BGR888,
      Some fill_MPP_FMT_RGB101010, Some fill_MPP_FMT_BGR101010, Some fill_MPP_FMT_ARGB1555, Some fill_MPP_FMT_ABGR1555,
      Some fill_MPP_FMT_ARGB4444, Some fill_MPP_FMT_ABGR4444, None, None, Some fill_MPP_FMT_ARGB8888,
      Some fill_MPP_FMT_ABGR8888, Some fill_MPP_FMT_BGRA8888, Some fill_MPP_FMT_RGBA8888, Some fill_MPP_FMT_RGBA5551,
      Some fill_MPP_FMT_BGRA5551, Some fill_MPP_FMT_BGRA4444]"

definition rgb_formats :: "PIXEL_FORMAT_E list" where
  "rgb_formats =
     [RK_FMT_RGB565, RK_FMT_BGR565, RK_FMT_RGB555, RK_FMT_BGR555, RK_FMT_RGB444, RK_FMT_BGR444, RK_FMT_RGB888,
      RK_FMT_BGR888, RK_FMT_RGB101010, RK_FMT_BGR101010, RK_FMT_ARGB1555, RK_FMT_ABGR1555, RK_FMT_ARGB4444,
      RK_FMT_ABGR4444, RK_FMT_ARGB8565, RK_FMT_ABGR8565, RK_FMT_ARGB8888, RK_FMT_ABGR8888, RK_FMT_BGRA8888,
      RK_FMT_RGBA8888, RK_FMT_RGBA5551, RK_FMT_BGRA5551, RK_FMT_BGRA4444, RK_FMT_RGBA4444, RK_FMT_XBGR8888]"

definition rgb_index :: "PIXEL_FORMAT_E \<Rightarrow> int" where
  "rgb_index fmt = int (length (takeWhile (\<lambda>f. f \<noteq> fmt) rgb_formats))"

definition RK_ALIGN :: "int \<Rightarrow> int \<Rightarrow> int" where
  "RK_ALIGN x a = (x + a - 1) AND NOT (a - 1)"

text \<open>The two checks; their text output is dropped.\<close>

definition util_check_stride_by_pixel :: "int \<Rightarrow> int \<Rightarrow> int \<Rightarrow> int \<Rightarrow> int" where
  "util_check_stride_by_pixel workaround width hor_stride pixel_size =
     (if workaround = 0 \<and> hor_stride < width * pixel_size then 1 else workaround)"

definition util_check_8_pixel_aligned :: "int \<Rightarrow> int \<Rightarrow> int \<Rightarrow> int \<Rightarrow> int" where
  "util_check_8_pixel_aligned workaround hor_stride pixel_aign pixel_size =
     (if workaround = 0 \<and> hor_stride \<noteq> RK_ALIGN hor_stride (pixel_aign * pixel_size) then 1 else workaround)"

text \<open>The static variables of \<open>SAMPLE_COMM_FillImage\<close>, kept from call to call.\<close>

record statics =
  is_pixel_stride :: int
  not_8_pixel :: int

text \<open>
  The loops over \<open>n\<close> rows and \<open>m\<close> columns; the row pointer starts at \<open>p\<close> and advances by \<open>step\<close>.
\<close>

definition each_px ::
    "int \<Rightarrow> int \<Rightarrow> int \<Rightarrow> int \<Rightarrow> (int \<Rightarrow> int \<Rightarrow> int \<Rightarrow> byte list \<Rightarrow> byte list option) \<Rightarrow> byte list \<Rightarrow> byte list option" where
  "each_px p step n m px buf =
     for_up (\<lambda>y buf. map_option Nxt (
       for_up (\<lambda>x buf. map_option Nxt (px (p + step * y) x y buf)) 0 m buf)) 0 n buf"

definition st8 :: "byte list \<Rightarrow> int \<Rightarrow> int \<Rightarrow> byte list option" where
  "st8 buf k v = wr buf k (word_of_int v)"

definition luma_plane :: "int \<Rightarrow> int \<Rightarrow> int \<Rightarrow> int \<Rightarrow> byte list \<Rightarrow> byte list option" where
  "luma_plane hor_stride height width fc = each_px 0 hor_stride height width (\<lambda>p x y buf. st8 buf (p + x) (x + y + fc * 3))"

text \<open>Two values in each turn, at the offsets \<open>a\<close> and \<open>b\<close> from the pixel pair.\<close>

definition chroma_pair ::
    "int \<Rightarrow> int \<Rightarrow> (int \<Rightarrow> int) \<Rightarrow> (int \<Rightarrow> int) \<Rightarrow> int \<Rightarrow> int \<Rightarrow> int \<Rightarrow> byte list \<Rightarrow> byte list option" where
  "chroma_pair a b u v p x y buf =
     do {
       buf \<leftarrow> st8 buf (p + x * 2 + a) (u y);
       st8 buf (p + x * 2 + b) (v x)
     }"

definition packed_422 ::
    "int \<Rightarrow> int \<Rightarrow> int \<Rightarrow> int \<Rightarrow> int \<Rightarrow> int \<Rightarrow> int \<Rightarrow> int \<Rightarrow> byte list \<Rightarrow> byte list option" where
  "packed_422 fc y0 y1 u v p x y buf =
     do {
       buf \<leftarrow> st8 buf (p + x * 4 + y0) (x * 2 + 0 + y + fc * 3);
       buf \<leftarrow> st8 buf (p + x * 4 + y1) (x * 2 + 1 + y + fc * 3);
       buf \<leftarrow> st8 buf (p + x * 4 + u) (128 + y div 2 + fc * 2);
       st8 buf (p + x * 4 + v) (64 + x + fc * 5)
     }"

definition fill_rgb ::
    "int \<Rightarrow> int \<Rightarrow> PIXEL_FORMAT_E \<Rightarrow> int \<Rightarrow> int \<Rightarrow> int \<Rightarrow> int \<Rightarrow> byte list \<Rightarrow> statics \<Rightarrow> (int \<times> byte list \<times> statics) option" where
  "fill_rgb pix_w alignment fmt width height hor_stride fc buf st =
     do {
       fill \<leftarrow> rd fill_rgb_funcs (rgb_index fmt);
       let (hor_stride, st) =
         (if util_check_stride_by_pixel (is_pixel_stride st) width hor_stride pix_w \<noteq> 0
          then (hor_stride * pix_w, st\<lparr>is_pixel_stride := 1\<rparr>) else (hor_stride, st));
       let (hor_stride, st) =
         (if util_check_8_pixel_aligned (not_8_pixel st) hor_stride 8 pix_w \<noteq> 0
          then (RK_ALIGN hor_stride alignment, st\<lparr>not_8_pixel := 1\<rparr>) else (hor_stride, st));
       buf \<leftarrow> each_px 0 hor_stride height width (\<lambda>p x y buf. do {
         f \<leftarrow> fill;
         let (R, G, B) = get_rgb_color x y fc;
         let bs = f R G B True;
         memcpy_at buf (p + x * pix_w) (int (length bs)) bs 0
       }) buf;
       Some (0, buf, st)
     }"

definition SAMPLE_COMM_FillImage ::
    "byte list \<Rightarrow> int \<Rightarrow> int \<Rightarrow> int \<Rightarrow> int \<Rightarrow> PIXEL_FORMAT_E \<Rightarrow> int \<Rightarrow> statics \<Rightarrow> (int \<times> byte list \<times> statics) option" where
  "SAMPLE_COMM_FillImage buf width height hor_stride ver_stride fmt fc st =
     (let buf_c = hor_stride * ver_stride;
          luma = luma_plane hor_stride height width fc;
          u = (\<lambda>y. 128 + y + fc * 2); u2 = (\<lambda>y. 128 + y div 2 + fc * 2); v = (\<lambda>x. 64 + x + fc * 5);
          ok = map_option (\<lambda>buf. (0, buf, st))
      in case fmt of
        RK_FMT_YUV420SP \<Rightarrow>
          ok (do { buf \<leftarrow> luma buf; each_px buf_c hor_stride (height div 2) (width div 2) (chroma_pair 0 1 u v) buf })
      | RK_FMT_YUV422SP \<Rightarrow>
          ok (do { buf \<leftarrow> luma buf; each_px buf_c hor_stride height (width div 2) (chroma_pair 0 1 u2 v) buf })
      | RK_FMT_YUV420P \<Rightarrow>
          ok (do {
            buf \<leftarrow> luma buf;
            buf \<leftarrow> each_px buf_c (hor_stride div 2) (height div 2) (width div 2) (\<lambda>p x y buf. st8 buf (p + x) (u y)) buf;
            each_px (buf_c + hor_stride * ver_stride div 4) (hor_stride div 2) (height div 2) (width div 2)
              (\<lambda>p x y buf. st8 buf (p + x) (v x)) buf })
      | RK_FMT_YUV420SP_VU \<Rightarrow>
          ok (do { buf \<leftarrow> luma buf; each_px buf_c hor_stride (height div 2) (width div 2) (chroma_pair 1 0 u v) buf })
      | RK_FMT_YUV422P \<Rightarrow>
          ok (do {
            buf \<leftarrow> luma buf;
            buf \<leftarrow> each_px buf_c (hor_stride div 2) height (width div 2) (\<lambda>p x y buf. st8 buf (p + x) (u2 y)) buf;
            each_px (buf_c + hor_stride * ver_stride div 2) (hor_stride div 2) height (width div 2)
              (\<lambda>p x y buf. st8 buf (p + x) (v x)) buf })
      | RK_FMT_YUV422SP_VU \<Rightarrow>
          ok (do { buf \<leftarrow> luma buf; each_px buf_c hor_stride height (width div 2) (chroma_pair 1 0 u2 v) buf })
      | RK_FMT_YUV422_YUYV \<Rightarrow> ok (each_px 0 (hor_stride * 2) height (width div 2) (packed_422 fc 0 2 1 3) buf)
      | RK_FMT_YUV422_YVYU \<Rightarrow> ok (each_px 0 (hor_stride * 2) height (width div 2) (packed_422 fc 0 2 3 1) buf)
      | RK_FMT_YUV422_UYVY \<Rightarrow> ok (each_px 0 (hor_stride * 2) height (width div 2) (packed_422 fc 1 3 0 2) buf)
      | RK_FMT_YUV422_VYUY \<Rightarrow> ok (each_px 0 (hor_stride * 2) height (width div 2) (packed_422 fc 1 3 2 0) buf)
      | RK_FMT_YUV400SP \<Rightarrow> ok (luma buf)
      | _ \<Rightarrow>
          if fmt \<in> {RK_FMT_RGB565, RK_FMT_BGR565, RK_FMT_RGB555, RK_FMT_BGR555, RK_FMT_RGB444, RK_FMT_BGR444,
               RK_FMT_ARGB1555, RK_FMT_ABGR1555, RK_FMT_RGBA5551, RK_FMT_BGRA5551, RK_FMT_ARGB4444, RK_FMT_ABGR4444,
               RK_FMT_BGRA4444}
          then fill_rgb 2 16 fmt width height hor_stride fc buf st
          else if fmt \<in> {RK_FMT_RGB101010, RK_FMT_BGR101010, RK_FMT_ARGB8888, RK_FMT_ABGR8888, RK_FMT_BGRA8888, RK_FMT_RGBA8888}
          then fill_rgb 4 32 fmt width height hor_stride fc buf st
          else if fmt \<in> {RK_FMT_BGR888, RK_FMT_RGB888} then fill_rgb 3 24 fmt width height hor_stride fc buf st
          else Some (-1, buf, st))"

section \<open>The packed formats\<close>

definition pixel_size :: "PIXEL_FORMAT_E \<Rightarrow> nat" where
  "pixel_size fmt =
     (if fmt \<in> {RK_FMT_RGB565, RK_FMT_BGR565, RK_FMT_RGB555, RK_FMT_BGR555, RK_FMT_RGB444, RK_FMT_BGR444,
           RK_FMT_ARGB1555, RK_FMT_ABGR1555, RK_FMT_RGBA5551, RK_FMT_BGRA5551, RK_FMT_ARGB4444, RK_FMT_ABGR4444,
           RK_FMT_BGRA4444} then 2
      else if fmt \<in> {RK_FMT_RGB888, RK_FMT_BGR888} then 3
      else if fmt \<in> {RK_FMT_RGB101010, RK_FMT_BGR101010, RK_FMT_ARGB8888, RK_FMT_ABGR8888, RK_FMT_BGRA8888, RK_FMT_RGBA8888}
      then 4 else 0)"

definition packer :: "PIXEL_FORMAT_E \<Rightarrow> rgb_fill" where
  "packer fmt = the (fill_rgb_funcs ! nat (rgb_index fmt))"

lemma bytes_length [simp]: "length (bytes16 v be) = 2" "length (bytes32 u be) = 4"
  by (simp_all add: bytes16_def bytes32_def Let_def)

lemmas packer_defs = fill_MPP_FMT_RGB565_def fill_MPP_FMT_BGR565_def fill_MPP_FMT_RGB555_def fill_MPP_FMT_BGR555_def
  fill_MPP_FMT_RGB444_def fill_MPP_FMT_BGR444_def fill_MPP_FMT_RGB888_def fill_MPP_FMT_BGR888_def
  fill_MPP_FMT_RGB101010_def fill_MPP_FMT_BGR101010_def fill_MPP_FMT_ARGB1555_def fill_MPP_FMT_ABGR1555_def
  fill_MPP_FMT_ARGB4444_def fill_MPP_FMT_ABGR4444_def fill_MPP_FMT_ARGB8888_def fill_MPP_FMT_ABGR8888_def
  fill_MPP_FMT_BGRA8888_def fill_MPP_FMT_RGBA8888_def fill_MPP_FMT_RGBA5551_def fill_MPP_FMT_BGRA5551_def
  fill_MPP_FMT_BGRA4444_def

text \<open>The table has a packer of the right size for every format the switch sends to it.\<close>

lemma packer_entry:
  assumes "0 < pixel_size fmt"
  shows "rd fill_rgb_funcs (rgb_index fmt) = Some (Some (packer fmt))"
  using assms
  by (cases fmt) (simp_all add: pixel_size_def packer_def rgb_index_def rgb_formats_def fill_rgb_funcs_def rd_def)

lemma packer_length:
  assumes "0 < pixel_size fmt"
  shows "length (packer fmt R G B be) = pixel_size fmt"
  using assms
  by (cases fmt) (simp_all add: pixel_size_def packer_def rgb_index_def rgb_formats_def fill_rgb_funcs_def packer_defs Let_def)

lemma fill_image_rgb:
  assumes "0 < pixel_size fmt"
  shows "SAMPLE_COMM_FillImage buf width height hor_stride ver_stride fmt fc st =
    fill_rgb (int (pixel_size fmt)) (8 * int (pixel_size fmt)) fmt width height hor_stride fc buf st"
  using assms by (cases fmt) (simp_all add: SAMPLE_COMM_FillImage_def pixel_size_def Let_def)

text \<open>Aligning never shortens a stride, but it only rounds to a multiple when the alignment is a power of two.\<close>

lemma RK_ALIGN_ge:
  assumes "0 < a"
  shows "x \<le> RK_ALIGN x a"
proof -
  let ?y = "x + a - 1"
  have "?y = (?y AND (a - 1)) + (?y AND NOT (a - 1))"
    by (subst disjunctive_add) (auto simp: bit_simps intro: bit_eqI)
  moreover have "?y AND (a - 1) \<le> a - 1" using assms by (intro AND_upper2) simp
  ultimately show ?thesis unfolding RK_ALIGN_def by linarith
qed

lemma RK_ALIGN_24: "RK_ALIGN 24 24 = 40"
  by (simp add: RK_ALIGN_def)

lemma RK_ALIGN_fix:
  assumes "x = 2 ^ k * y"
  shows "RK_ALIGN x (2 ^ k) = x"
proof -
  have "x + 2 ^ k - 1 = x OR mask k"
  proof -
    have "x + mask k = x OR mask k"
      by (rule disjunctive_add) (auto simp: assms bit_simps push_bit_eq_mult[symmetric] mult.commute)
    then show ?thesis by (simp add: mask_eq_exp_minus_1)
  qed
  then have "RK_ALIGN x (2 ^ k) = (x OR mask k) AND NOT (mask k)"
    by (simp add: RK_ALIGN_def mask_eq_exp_minus_1)
  also have "\<dots> = x"
    by (rule bit_eqI) (auto simp: assms bit_simps push_bit_eq_mult[symmetric] mult.commute)
  finally show ?thesis .
qed

section \<open>Whole images\<close>

text \<open>The pattern as bytes, rows without padding.\<close>

definition rgb_pattern :: "PIXEL_FORMAT_E \<Rightarrow> int \<Rightarrow> nat \<Rightarrow> nat \<Rightarrow> byte list" where
  "rgb_pattern fmt fc w h =
     concat (map (\<lambda>y. concat (map (\<lambda>x.
       case get_rgb_color (int x) (int y) fc of (R, G, B) \<Rightarrow> packer fmt R G B True) [0..<w])) [0..<h])"

lemma store_pixel:
  "length bs \<le> length buf - k \<Longrightarrow> k \<le> length buf \<Longrightarrow> memcpy_at buf (int k) (int (length bs)) bs 0 = Some (splice buf k bs)"
  using memcpy_splice[of 0 "length bs" bs k buf] by simp

lemma each_px_rows:
  assumes d: "0 < pixel_size fmt" and room: "pixel_size fmt * w * h \<le> length buf"
  shows "each_px 0 (int (pixel_size fmt * w)) (int h) (int w) (\<lambda>p x y buf. do {
      f \<leftarrow> Some (packer fmt);
      let (R, G, B) = get_rgb_color x y fc;
      let bs = f R G B True;
      memcpy_at buf (p + x * int (pixel_size fmt)) (int (length bs)) bs 0
    }) buf = Some (splice buf 0 (rgb_pattern fmt fc w h))"
proof -
  let ?d = "pixel_size fmt"
  let ?f = "\<lambda>y x. case get_rgb_color (int x) (int y) fc of (R, G, B) \<Rightarrow> packer fmt R G B True"
  show ?thesis
    unfolding each_px_def rgb_pattern_def
  proof (rule for_block_rows[OF room])
    fix y x and b :: "byte list" assume i: "y < h" "x < w" "length b = length buf"
    have "?d * w * y + ?d * w \<le> ?d * w * h" by (rule next_block[OF i(1)])
    moreover have "?d * x + ?d \<le> ?d * w" by (rule next_block[OF i(2)])
    ultimately have "?d * w * y + ?d * x + ?d \<le> length b" using room i(3) by linarith
    moreover have "length (?f y x) = ?d" by (simp add: packer_length[OF d] split: prod.split)
    ultimately have "memcpy_at b (int (?d * w * y + ?d * x)) (int (length (?f y x))) (?f y x) 0 =
        Some (splice b (?d * w * y + ?d * x) (?f y x))" by (intro store_pixel) linarith+
    then show "(do {
        f \<leftarrow> Some (packer fmt);
        let (R, G, B) = get_rgb_color (int x) (int y) fc;
        let bs = f R G B True;
        memcpy_at b (0 + int (?d * w) * int y + int x * int ?d) (int (length bs)) bs 0
      }) = Some (splice b (?d * w * y + ?d * x) (?f y x))"
      by (simp add: Let_def mult.commute mult.left_commute split: prod.split prod.split_asm)
  qed (simp add: packer_length[OF d] split: prod.split)
qed

text \<open>
  A stride in bytes that is as long as a row, or a stride in pixels: the image is filled as it should,
  but the stride in pixels leaves its mark.
\<close>

lemma fill_rgb_bytes:
  assumes d: "0 < pixel_size fmt" and room: "pixel_size fmt * w * h \<le> length buf"
    and "RK_ALIGN (int (pixel_size fmt * w)) (8 * int (pixel_size fmt)) = int (pixel_size fmt * w)"
    and "is_pixel_stride st = 0" "not_8_pixel st = 0"
  shows "fill_rgb (int (pixel_size fmt)) (8 * int (pixel_size fmt)) fmt (int w) (int h) (int (pixel_size fmt * w)) fc buf st =
    Some (0, splice buf 0 (rgb_pattern fmt fc w h), st)"
  using assms each_px_rows[OF d room, of fc]
  by (simp add: fill_rgb_def packer_entry util_check_stride_by_pixel_def util_check_8_pixel_aligned_def Let_def mult.commute)

lemma fill_rgb_pixels:
  assumes d: "0 < pixel_size fmt" and room: "pixel_size fmt * w * h \<le> length buf"
    and "RK_ALIGN (int (pixel_size fmt * w)) (8 * int (pixel_size fmt)) = int (pixel_size fmt * w)"
    and "not_8_pixel st = 0" and "is_pixel_stride st \<noteq> 0 \<or> 0 < w \<and> 1 < pixel_size fmt"
  shows "fill_rgb (int (pixel_size fmt)) (8 * int (pixel_size fmt)) fmt (int w) (int h) (int w) fc buf st =
    Some (0, splice buf 0 (rgb_pattern fmt fc w h), st\<lparr>is_pixel_stride := 1\<rparr>)"
  using assms each_px_rows[OF d room, of fc]
  by (simp add: fill_rgb_def packer_entry util_check_stride_by_pixel_def util_check_8_pixel_aligned_def Let_def mult.commute)

text \<open>Once the mark is set, a stride in bytes is multiplied again.\<close>

lemma fill_rgb_marks:
  assumes "fill_rgb pix_w al fmt w h s fc buf st = Some (r, buf', st')" and "is_pixel_stride st \<noteq> 0 \<or> s < w * pix_w"
  shows "is_pixel_stride st' = 1"
  using assms by (auto simp: fill_rgb_def util_check_stride_by_pixel_def Let_def split: bind_splits if_splits)

text \<open>One pixel behind the end of the buffer makes the whole image undefined.\<close>

lemma each_px_overrun:
  assumes d: "0 < pixel_size fmt" and "0 < w" "0 < h"
    and out: "int (length buf) < s * (int h - 1) + int w * int (pixel_size fmt)"
  shows "each_px 0 s (int h) (int w) (\<lambda>p x y buf. do {
      f \<leftarrow> Some (packer fmt);
      let (R, G, B) = get_rgb_color x y fc;
      let bs = f R G B True;
      memcpy_at buf (p + x * int (pixel_size fmt)) (int (length bs)) bs 0
    }) buf = None"
proof -
  let ?d = "pixel_size fmt"
  let ?px = "\<lambda>p x y buf. do {
      f \<leftarrow> Some (packer fmt);
      let (R, G, B) = get_rgb_color x y fc;
      let bs = f R G B True;
      memcpy_at buf (p + x * int ?d) (int (length bs)) bs 0
    }"
  let ?P = "\<lambda>b :: byte list. length b = length buf"
  let ?row = "\<lambda>y b. for_up (\<lambda>x b. map_option Nxt (?px (0 + s * y) x y b)) 0 (int w) b"
  have keep: "length b' = length b" if "?px p x y b = Some b'" for p x y b b'
    using that by (auto simp: memcpy_at_def Let_def split: prod.splits if_splits)
  have ne: "packer fmt R G B be \<noteq> []" for R G B be using packer_length[OF d, of R G B be] d by auto
  have last: "?px (0 + s * (int h - 1)) (int w - 1) (int h - 1) b = None" if "?P b" for b
    using out that packer_length[OF d] ne by (auto simp: memcpy_at_def Let_def algebra_simps split: prod.split)
  show ?thesis
    unfolding each_px_def
  proof (rule for_each_fails_inv[where P = ?P and j = "int h - 1"])
    show "?row (int h - 1) b = None" if "?P b" for b
    proof (rule for_each_fails_inv[where P = ?P and j = "int w - 1", OF that])
      show "?P b'" if "?P b" "?px (0 + s * (int h - 1)) x (int h - 1) b = Some b'" for x b b'
        using keep[OF that(2)] that(1) by simp
    qed (use assms(2) last in simp_all)
    show "?P b'" if "?P b" "?row y b = Some b'" for y b b'
      by (rule for_each_keeps[where P = ?P, OF that(2,1)]) (rule trans[OF keep]; assumption)
  qed (use assms(3) in simp_all)
qed

lemma fill_rgb_marked_overrun:
  assumes d: "0 < pixel_size fmt" and mark: "is_pixel_stride st \<noteq> 0" and "2 \<le> h" "0 < w" and "1 < pixel_size fmt"
    and "length buf = h * (pixel_size fmt * w)"
  shows "fill_rgb (int (pixel_size fmt)) (8 * int (pixel_size fmt)) fmt (int w) (int h) (int (pixel_size fmt * w)) fc buf st = None"
proof -
  let ?d = "pixel_size fmt"
  define s where "s = (let s = int (?d * w) * int ?d in
    if util_check_8_pixel_aligned (not_8_pixel st) s 8 (int ?d) \<noteq> 0 then RK_ALIGN s (8 * int ?d) else s)"
  have "int (?d * w) * int ?d \<le> s" unfolding s_def Let_def using RK_ALIGN_ge[of "8 * int ?d"] d by simp
  moreover have "int (?d * w) * 2 \<le> int (?d * w) * int ?d" using assms(5) by (intro mult_left_mono) simp_all
  ultimately have s: "2 * int (?d * w) \<le> s" by simp
  have "int h * int (?d * w) \<le> (2 * (int h - 1)) * int (?d * w)" using assms(3) by (intro mult_right_mono) simp_all
  also have "\<dots> = (int h - 1) * (2 * int (?d * w))" by simp
  also have "\<dots> \<le> (int h - 1) * s" using s assms(3) by (intro mult_left_mono) simp_all
  finally have "int (length buf) \<le> s * (int h - 1)" using assms(6) by (simp add: mult.commute)
  moreover have "0 < int w * int ?d" using assms(4) d by simp
  ultimately have "int (length buf) < s * (int h - 1) + int w * int ?d" by linarith
  moreover have "util_check_stride_by_pixel (is_pixel_stride st) (int w) (int (?d * w)) (int ?d) \<noteq> 0"
    using mark by (simp add: util_check_stride_by_pixel_def)
  ultimately show ?thesis
    using packer_entry[OF d] each_px_overrun[OF d assms(4), of h buf s] assms(3) s_def
    by (simp add: fill_rgb_def Let_def split: if_splits)
qed

text \<open>A stride in pixels whose bytes are not aligned: the rows move apart and the last leaves the buffer.\<close>

lemma RK_ALIGN_more:
  assumes "x mod 2 ^ k \<noteq> (0 :: int)"
  shows "x < RK_ALIGN x (2 ^ k)"
proof -
  have "take_bit k (RK_ALIGN x (2 ^ k)) = 0"
    by (simp add: RK_ALIGN_def mask_eq_exp_minus_1[symmetric] bit_eq_iff bit_simps)
  then have "RK_ALIGN x (2 ^ k) mod 2 ^ k = 0" by (simp only: take_bit_eq_mod)
  then show ?thesis using RK_ALIGN_ge[of "2 ^ k" x] assms by (metis order_le_less zero_less_numeral zero_less_power)
qed

lemma fill_rgb_unaligned_overrun:
  assumes d: "pixel_size fmt = 4" and "2 \<le> h" and "w mod 8 \<noteq> 0" and "length buf = 4 * w * h"
  shows "fill_rgb 4 32 fmt (int w) (int h) (int w) fc buf st = None"
proof -
  have w: "0 < w" using assms(3) by (cases w) simp_all
  have "int w mod 8 \<noteq> 0" using assms(3) of_nat_mod[of w 8, where 'a = int] by simp
  moreover have "int w * 4 mod (8 * 4) = int w mod 8 * 4" by (rule mod_mult_mult2)
  ultimately have "int w * 4 mod 2 ^ 5 \<noteq> 0" by simp
  from RK_ALIGN_more[OF this] have s: "int w * 4 < RK_ALIGN (int w * 4) 32" by simp
  have "(int h - 1) * (int w * 4) < (int h - 1) * RK_ALIGN (int w * 4) 32"
    using s assms(2) by (intro mult_strict_left_mono) simp_all
  then have "int (length buf) < RK_ALIGN (int w * 4) 32 * (int h - 1) + int w * int (pixel_size fmt)"
    using assms(1,4) by (simp add: algebra_simps)
  then have "each_px 0 (RK_ALIGN (int w * 4) 32) (int h) (int w) (\<lambda>p x y buf. do {
      f \<leftarrow> Some (packer fmt);
      let (R, G, B) = get_rgb_color x y fc;
      let bs = f R G B True;
      memcpy_at buf (p + x * 4) (int (length bs)) bs 0
    }) buf = None"
    using each_px_overrun[of fmt w h buf "RK_ALIGN (int w * 4) 32" fc] d w assms(2) by simp
  moreover have "util_check_stride_by_pixel (is_pixel_stride st) (int w) (int w) 4 \<noteq> 0"
    using w by (simp add: util_check_stride_by_pixel_def)
  moreover have "util_check_8_pixel_aligned (not_8_pixel st) (int w * 4) 8 4 \<noteq> 0"
    using s by (simp add: util_check_8_pixel_aligned_def)
  ultimately show ?thesis using packer_entry[of fmt] d by (simp add: fill_rgb_def Let_def)
qed

section \<open>Properties\<close>

text \<open>
  C39.  One image with its stride in pixels spoils all packed images after it: the mark stays in a static
  variable, and a later image whose stride is right, in bytes and as long as its rows, is written past
  the end of a buffer of exactly its size.
\<close>

theorem pixel_stride_sticks:
  assumes "0 < pixel_size fmt1" and "hor_stride1 < width1 * int (pixel_size fmt1)"
    and "SAMPLE_COMM_FillImage buf1 width1 height1 hor_stride1 ver_stride1 fmt1 fc1 st = Some (r, buf1', st')"
    and "1 < pixel_size fmt2" and "0 < w" and "2 \<le> h" and "length buf2 = h * (pixel_size fmt2 * w)"
  shows "is_pixel_stride st' = 1 \<and>
    SAMPLE_COMM_FillImage buf2 (int w) (int h) (int (pixel_size fmt2 * w)) ver_stride2 fmt2 fc2 st' = None"
proof
  show mark: "is_pixel_stride st' = 1"
    using fill_rgb_marks[of _ _ fmt1] assms(1-3) by (simp add: fill_image_rgb)
  have d: "0 < pixel_size fmt2" using assms(4) by simp
  show "SAMPLE_COMM_FillImage buf2 (int w) (int h) (int (pixel_size fmt2 * w)) ver_stride2 fmt2 fc2 st' = None"
    unfolding fill_image_rgb[OF d] by (rule fill_rgb_marked_overrun[OF d]) (use mark assms(4-7) in simp_all)
qed

theorem pixel_stride_sticks_witness:
  "\<exists>r buf st'. SAMPLE_COMM_FillImage (replicate 16 0) 8 1 8 1 RK_FMT_RGB565 0 \<lparr>is_pixel_stride = 0, not_8_pixel = 0\<rparr> = Some (r, buf, st') \<and>
     is_pixel_stride st' = 1 \<and> SAMPLE_COMM_FillImage (replicate 64 0) 8 2 32 2 RK_FMT_ARGB8888 1 st' = None"
proof -
  have d: "pixel_size RK_FMT_RGB565 = 2" "pixel_size RK_FMT_ARGB8888 = 4" by (simp_all add: pixel_size_def)
  let ?st = "\<lparr>is_pixel_stride = 0, not_8_pixel = 0\<rparr>"
  obtain buf st' where first: "SAMPLE_COMM_FillImage (replicate 16 0) 8 1 8 1 RK_FMT_RGB565 0 ?st = Some (0, buf, st')"
    using fill_rgb_pixels[of RK_FMT_RGB565 8 1 "replicate 16 0" ?st 0] d
    by (auto simp: fill_image_rgb RK_ALIGN_def)
  have "is_pixel_stride st' = 1 \<and> SAMPLE_COMM_FillImage (replicate 64 0) (int 8) (int 2) (int (pixel_size RK_FMT_ARGB8888 * 8)) 2 RK_FMT_ARGB8888 1 st' = None"
    by (rule pixel_stride_sticks[OF _ _ first]) (use d in simp_all)
  then show ?thesis using first d by simp
qed

text \<open>The fresh program fills the second image as it should: row after row, each position in its colour.\<close>

lemma fresh_image_ok:
  assumes "0 < pixel_size fmt" and "pixel_size fmt * w * h \<le> length buf" and "w mod 8 = 0" and "pixel_size fmt \<noteq> 3"
    and "is_pixel_stride st = 0" "not_8_pixel st = 0"
  shows "SAMPLE_COMM_FillImage buf (int w) (int h) (int (pixel_size fmt * w)) vs fmt fc st =
    Some (0, splice buf 0 (rgb_pattern fmt fc w h), st)"
proof -
  have "pixel_size fmt = 2 \<or> pixel_size fmt = 4"
    using assms(1,4) by (cases fmt) (simp_all add: pixel_size_def)
  moreover obtain v where "w = 8 * v" using assms(3) by (auto elim!: dvdE)
  ultimately have "RK_ALIGN (int (pixel_size fmt * w)) (8 * int (pixel_size fmt)) = int (pixel_size fmt * w)"
    using RK_ALIGN_fix[of "int (16 * v)" 4 "int v"] RK_ALIGN_fix[of "int (32 * v)" 5 "int v"] by auto
  then show ?thesis using fill_rgb_bytes assms by (simp add: fill_image_rgb)
qed

section \<open>Planes\<close>

lemma each_px_plane:
  assumes "d * m \<le> S" and room: "\<And>y. y < n \<Longrightarrow> p + S * y + d * m \<le> length buf"
    and step: "\<And>y x b. y < n \<Longrightarrow> x < m \<Longrightarrow> length b = length buf \<Longrightarrow>
       px (int (p + S * y)) (int x) (int y) b = Some (splice b (p + S * y + d * x) (f y x))"
    and size_f: "\<And>y x. y < n \<Longrightarrow> x < m \<Longrightarrow> length (f y x) = d"
  obtains b where "each_px (int p) (int S) (int n) (int m) px buf = Some b" "length b = length buf"
    "\<And>y x k. y < n \<Longrightarrow> x < m \<Longrightarrow> k < d \<Longrightarrow> b ! (p + S * y + d * x + k) = f y x ! k"
    "\<And>q. q < length buf \<Longrightarrow> (\<And>y. y < n \<Longrightarrow> q < p + S * y \<or> p + S * y + d * m \<le> q) \<Longrightarrow> b ! q = buf ! q"
proof -
  let ?row = "\<lambda>y. concat (map (f y) [0..<m])"
  have len: "length (concat (map (f y) [0..<k])) = d * k" if "y < n" "k \<le> m" for y k
    using that size_f by (induction k) auto
  have row: "for_up (\<lambda>x b. map_option Nxt (px (int p + int S * int y) x (int y) b)) 0 (int m) b = Some (splice b (p + S * y) (?row y))"
    if "y < n" "length b = length buf" for y b
    by (rule for_blocks[where d = d]) (use that room[of y] step[of y] size_f in auto)
  obtain b where b: "for_up (\<lambda>y b. map_option Nxt (for_up (\<lambda>x b. map_option Nxt (px (int p + int S * y) x y b)) 0 (int m) b))
      0 (int n) buf = Some b" "length b = length buf"
    "\<And>y j. y < n \<Longrightarrow> j < d * m \<Longrightarrow> b ! (p + S * y + j) = ?row y ! j"
    "\<And>q. q < length buf \<Longrightarrow> (\<And>y. y < n \<Longrightarrow> q < p + S * y \<or> p + S * y + d * m \<le> q) \<Longrightarrow> b ! q = buf ! q"
    using for_rows[OF assms(1) room row len[OF _ order.refl]] by blast
  have "b ! (p + S * y + d * x + k) = f y x ! k" if "y < n" "x < m" "k < d" for y x k
  proof -
    have "d * x + d \<le> d * m" by (rule next_block[OF that(2)])
    then have "b ! (p + S * y + (d * x + k)) = ?row y ! (d * x + k)" using b(3)[OF that(1), of "d * x + k"] that(3) by simp
    then show ?thesis using nth_concat_blocks[of m "f y" d x k] size_f that by (simp add: add.assoc)
  qed
  then show ?thesis using that[of b] b by (simp add: each_px_def)
qed

lemma st8_splice: "k < length buf \<Longrightarrow> st8 buf (int k) v = Some (splice buf k [word_of_int v])"
  by (simp add: st8_def wr_def splice_def upd_conv_take_nth_drop)

lemma chroma_pair_splice:
  assumes "p + x * 2 + 2 \<le> length buf"
  shows "chroma_pair 0 1 u v (int p) (int x) y buf = Some (splice buf (p + 2 * x) [word_of_int (u y), word_of_int (v (int x))])"
proof -
  have "st8 buf (int p + int x * 2 + 0) (u y) = Some (splice buf (p + 2 * x) [word_of_int (u y)])"
    using st8_splice[of "p + 2 * x" buf] assms by (simp add: mult.commute)
  moreover have "st8 b (int p + int x * 2 + 1) (v (int x)) = Some (splice b (p + 2 * x + 1) [word_of_int (v (int x))])"
    if "length b = length buf" for b
    using st8_splice[of "p + 2 * x + 1" b] assms that by (simp add: mult.commute add.commute add.left_commute)
  moreover have "splice (splice buf (p + 2 * x) [word_of_int (u y)]) (p + 2 * x + 1) [word_of_int (v (int x))] =
      splice buf (p + 2 * x) [word_of_int (u y), word_of_int (v (int x))]"
    using splice_append[of "p + 2 * x" "[word_of_int (u y)]" "[word_of_int (v (int x))]" buf] assms by simp
  ultimately show ?thesis using assms by (simp add: chroma_pair_def mult.commute)
qed

text \<open>
  An NV12 image: the luma rows and behind them the rows of chroma pairs, each value where the format
  puts it and none outside the buffer.
\<close>

lemma nv12_image:
  assumes "w \<le> hs" "h \<le> vs" and "hs * vs + hs * (h div 2) \<le> length buf"
  shows "\<exists>buf'. SAMPLE_COMM_FillImage buf (int w) (int h) (int hs) (int vs) RK_FMT_YUV420SP fc st = Some (0, buf', st) \<and>
    length buf' = length buf \<and>
    (\<forall>y < h. \<forall>x < w. buf' ! (hs * y + x) = word_of_int (int x + int y + fc * 3)) \<and>
    (\<forall>y < h div 2. \<forall>x < w div 2. buf' ! (hs * vs + hs * y + 2 * x) = word_of_int (128 + int y + fc * 2) \<and>
       buf' ! (hs * vs + hs * y + 2 * x + 1) = word_of_int (64 + int x + fc * 5))"
proof -
  have row: "hs * y + hs \<le> hs * k" if "y < k" for y k
    by (rule next_block[OF that])
  have "hs * h \<le> hs * vs" using assms(2) by simp
  then have luma: "0 + hs * y + 1 * w \<le> length buf" if "y < h" for y using row[OF that] assms(1,3) by linarith
  obtain b where b: "each_px (int 0) (int hs) (int h) (int w) (\<lambda>p x y buf. st8 buf (p + x) (x + y + fc * 3)) buf = Some b"
      "length b = length buf" "\<And>y x k. y < h \<Longrightarrow> x < w \<Longrightarrow> k < 1 \<Longrightarrow> b ! (0 + hs * y + 1 * x + k) = [word_of_int (int x + int y + fc * 3)] ! k"
  proof (rule each_px_plane[of 1 w hs h 0 buf "\<lambda>p x y buf. st8 buf (p + x) (x + y + fc * 3)"
        "\<lambda>y x. [word_of_int (int x + int y + fc * 3)]"])
    show "st8 b (int (0 + hs * y) + int x) (int x + int y + fc * 3) = Some (splice b (0 + hs * y + 1 * x) [word_of_int (int x + int y + fc * 3)])"
      if "y < h" "x < w" "length b = length buf" for y x and b :: "byte list"
      using st8_splice[of "hs * y + x" b] luma[OF that(1)] that(2,3) by simp
  qed (use assms luma in simp_all)
  have chroma: "hs * vs + hs * y + 2 * (w div 2) \<le> length b" if "y < h div 2" for y
    using row[OF that] assms(1,3) b(2) by linarith
  obtain c where c: "each_px (int (hs * vs)) (int hs) (int (h div 2)) (int (w div 2))
        (chroma_pair 0 1 (\<lambda>y. 128 + y + fc * 2) (\<lambda>x. 64 + x + fc * 5)) b = Some c" "length c = length b"
      "\<And>y x k. y < h div 2 \<Longrightarrow> x < w div 2 \<Longrightarrow> k < 2 \<Longrightarrow>
         c ! (hs * vs + hs * y + 2 * x + k) = [word_of_int (128 + int y + fc * 2), word_of_int (64 + int x + fc * 5)] ! k"
      "\<And>q. q < length b \<Longrightarrow> (\<And>y. y < h div 2 \<Longrightarrow> q < hs * vs + hs * y \<or> hs * vs + hs * y + 2 * (w div 2) \<le> q) \<Longrightarrow> c ! q = b ! q"
  proof (rule each_px_plane[of 2 "w div 2" hs "h div 2" "hs * vs" b "chroma_pair 0 1 (\<lambda>y. 128 + y + fc * 2) (\<lambda>x. 64 + x + fc * 5)"
        "\<lambda>y x. [word_of_int (128 + int y + fc * 2), word_of_int (64 + int x + fc * 5)]"])
    show "2 * (w div 2) \<le> hs" using assms(1) by linarith
    show "chroma_pair 0 1 (\<lambda>y. 128 + y + fc * 2) (\<lambda>x. 64 + x + fc * 5) (int (hs * vs + hs * y)) (int x) (int y) b' =
        Some (splice b' (hs * vs + hs * y + 2 * x) [word_of_int (128 + int y + fc * 2), word_of_int (64 + int x + fc * 5)])"
      if "y < h div 2" "x < w div 2" "length b' = length b" for y x b'
      by (rule chroma_pair_splice) (use chroma[OF that(1)] that(2,3) in linarith)
  qed (use chroma in simp_all)
  have "c ! (hs * y + x) = b ! (hs * y + x)" if "y < h" "x < w" for y x
    using row[of y vs] that assms(1-3) b(2) by (intro c(4)) auto
  moreover have "SAMPLE_COMM_FillImage buf (int w) (int h) (int hs) (int vs) RK_FMT_YUV420SP fc st = Some (0, c, st)"
    using b(1) c(1) by (simp add: SAMPLE_COMM_FillImage_def luma_plane_def Let_def zdiv_int)
  ultimately show ?thesis
    using b(2) b(3)[where k = 0] c(2) c(3)[where k = 0] c(3)[where k = 1] by (intro exI[of _ c]) simp
qed

end
