(* ===== verification/Overlay_Region.thy ===== *)
theory Overlay_Region
  imports Load_Bmp Fill_Image
begin

text \<open>
  \<^verbatim>\<open>common/sample_comm_rgn.c\<close>: a region of the on-screen display, from the bitmap or the test pattern to
  the calls of the region library.  The library is a parameter \<open>lib\<close> that answers each call from the
  history of the calls before it.  A block of \<open>n\<close> bytes holds the bytes \<open>junk\<close> before it is written, and
  a local surface the values \<open>surf\<close>.  Of the attributes, the fields the code sets are kept.
\<close>

section \<open>State\<close>

datatype RGN_TYPE_E = OVERLAY_RGN | OVERLAY_EX_RGN | COVER_RGN | MOSAIC_RGN | LINE_RGN | RGN_BUTT

record RECT_S =
  reg_x :: int
  reg_y :: int
  reg_w :: "32 word"
  reg_h :: "32 word"

record BITMAP_S =
  bm_format :: PIXEL_FORMAT_E
  bm_w :: "32 word"
  bm_h :: "32 word"
  pData :: "byte list option"

record OVERLAY_ATTR_S =
  ov_format :: PIXEL_FORMAT_E
  ov_w :: "32 word"
  ov_h :: "32 word"

record RGN_ATTR_S =
  rgn_enType :: RGN_TYPE_E
  stOverlay :: OVERLAY_ATTR_S

text \<open>The union of the attributes: the overlay has position, alphas and layer; the others a rectangle.\<close>

datatype RGN_CHN_ATTR_U =
    OverlayChn int int "32 word" "32 word" "32 word"
  | CoverChn RECT_S "32 word" "32 word"
  | MosaicChn RECT_S int "32 word"

record RGN_CHN_ATTR_S =
  bShow :: bool
  chn_enType :: RGN_TYPE_E
  unChnAttr :: RGN_CHN_ATTR_U

definition MOSAIC_BLK_SIZE_64 :: int where "MOSAIC_BLK_SIZE_64 = 3"

record SAMPLE_RGN_CTX_S =
  srcFileBmpName :: "path option"
  u32BmpFormat :: PIXEL_FORMAT_E
  u32BgAlpha :: "32 word"
  u32FgAlpha :: "32 word"
  stBitmap :: BITMAP_S
  stMppChn :: int
  stRegion :: RECT_S
  u32Color :: "32 word"
  u32Layer :: "32 word"
  rgnHandle :: int
  stRgnAttr :: RGN_ATTR_S
  stRgnChnAttr :: RGN_CHN_ATTR_S

datatype rgn_call =
    Rgn_create int RGN_ATTR_S
  | Rgn_attach int int RGN_CHN_ATTR_S
  | Rgn_set_bitmap int BITMAP_S
  | Rgn_get_display int int
  | Rgn_set_display int int RGN_CHN_ATTR_S
  | Rgn_detach int int
  | Rgn_destroy int

type_synonym rgn_log = "(rgn_call \<times> int) list"

type_synonym rgn_lib = "rgn_log \<Rightarrow> rgn_call \<Rightarrow> int"

record osd =
  osd_held :: held
  osd_fill :: statics
  osd_log :: rgn_log

definition rgn :: "rgn_lib \<Rightarrow> rgn_call \<Rightarrow> osd \<Rightarrow> int \<times> osd" where
  "rgn lib c st = (lib (osd_log st) c, st\<lparr>osd_log := osd_log st @ [(c, lib (osd_log st) c)]\<rparr>)"

definition osd_malloc :: "osd \<Rightarrow> osd" where
  "osd_malloc st = st\<lparr>osd_held := (osd_held st)\<lparr>blocks := blocks (osd_held st) + 1\<rparr>\<rparr>"

definition osd_free :: "osd \<Rightarrow> osd" where
  "osd_free st = st\<lparr>osd_held := (osd_held st)\<lparr>blocks := blocks (osd_held st) - 1\<rparr>\<rparr>"

section \<open>The bitmap\<close>

fun surface_format :: "PIXEL_FORMAT_E \<Rightarrow> OSD_COLOR_FMT_E option" where
  "surface_format RK_FMT_ARGB8888 = Some OSD_COLOR_FMT_ARGB8888"
| "surface_format RK_FMT_BGRA8888 = Some OSD_COLOR_FMT_BGRA8888"
| "surface_format RK_FMT_ARGB1555 = Some OSD_COLOR_FMT_ARGB1555"
| "surface_format RK_FMT_BGRA5551 = Some OSD_COLOR_FMT_BGRA5551"
| "surface_format _ = None"

definition fresh_block :: "(nat \<Rightarrow> byte) \<Rightarrow> nat \<Rightarrow> byte list" where
  "fresh_block junk n = map junk [0..<n]"

text \<open>Sizes of blocks are products of 32-bit words.\<close>

definition test_rgn_load_bmp ::
    "(nat \<Rightarrow> bool) \<Rightarrow> (nat \<Rightarrow> byte) \<Rightarrow> OSD_SURFACE_S \<Rightarrow> file_system \<Rightarrow> SAMPLE_RGN_CTX_S \<Rightarrow> osd \<Rightarrow>
     (int \<times> SAMPLE_RGN_CTX_S \<times> osd) option" where
  "test_rgn_load_bmp alloc junk surf fs ctx st =
     do {
       (ret, bmpInfo, hld) \<leftarrow> get_bmp_info fs (srcFileBmpName ctx) (osd_held st);
       let st = st\<lparr>osd_held := hld\<rparr>;
       let bCPU = (ret < 0);
       case surface_format (u32BmpFormat ctx) of None \<Rightarrow> Some (-1, ctx, st)
       | Some fmt \<Rightarrow>
         if bCPU then do {
           let w = reg_w (stRegion ctx);
           let h = reg_h (stRegion ctx);
           let size = unat (4 * w * h);
           if \<not> alloc size then Some (-1, ctx\<lparr>stBitmap := (stBitmap ctx)\<lparr>pData := None\<rparr>\<rparr>, st)
           else do {
             (_, buf, fill) \<leftarrow> SAMPLE_COMM_FillImage (fresh_block junk size) (uint w) (uint h) (uint w) (uint h)
               (u32BmpFormat ctx) 0 (osd_fill st);
             Some (0, ctx\<lparr>stBitmap := \<lparr>bm_format = u32BmpFormat ctx, bm_w = w, bm_h = h, pData = Some buf\<rparr>\<rparr>,
                   (osd_malloc st)\<lparr>osd_fill := fill\<rparr>)
           }
         }
         else do {
           info \<leftarrow> bmpInfo;
           w \<leftarrow> biWidth info;
           h \<leftarrow> biHeight info;
           let size = unat (4 * w * h);
           if \<not> alloc size then Some (-1, ctx\<lparr>stBitmap := (stBitmap ctx)\<lparr>pData := None\<rparr>\<rparr>, st)
           else do {
             let st = osd_malloc st;
             (_, surface, buf, hld) \<leftarrow> create_surface_by_bitmap alloc fs (srcFileBmpName ctx)
               (surf\<lparr>enColorFmt := fmt\<rparr>) (fresh_block junk size) (osd_held st);
             Some (0, ctx\<lparr>stBitmap := \<lparr>bm_format = u32BmpFormat ctx, bm_w = ucast (u16Width surface),
                      bm_h = ucast (u16Height surface), pData = Some buf\<rparr>\<rparr>, st\<lparr>osd_held := hld\<rparr>)
           }
         }
     }"

section \<open>The region\<close>

text \<open>The switch over the type, used before the region is created and again before it is displayed.\<close>

definition set_chn_attr :: "SAMPLE_RGN_CTX_S \<Rightarrow> SAMPLE_RGN_CTX_S option" where
  "set_chn_attr ctx =
     (case rgn_enType (stRgnAttr ctx) of
        OVERLAY_RGN \<Rightarrow> Some (ctx\<lparr>stRgnChnAttr := \<lparr>bShow = True, chn_enType = OVERLAY_RGN,
          unChnAttr = OverlayChn (reg_x (stRegion ctx)) (reg_y (stRegion ctx)) (u32BgAlpha ctx) (u32FgAlpha ctx) (u32Layer ctx)\<rparr>\<rparr>)
      | COVER_RGN \<Rightarrow> Some (ctx\<lparr>stRgnChnAttr := \<lparr>bShow = True, chn_enType = COVER_RGN,
          unChnAttr = CoverChn (stRegion ctx) (u32Color ctx) (u32Layer ctx)\<rparr>\<rparr>)
      | MOSAIC_RGN \<Rightarrow> Some (ctx\<lparr>stRgnChnAttr := \<lparr>bShow = True, chn_enType = MOSAIC_RGN,
          unChnAttr = MosaicChn (stRegion ctx) MOSAIC_BLK_SIZE_64 (u32Layer ctx)\<rparr>\<rparr>)
      | _ \<Rightarrow> None)"

definition free_bitmap :: "SAMPLE_RGN_CTX_S \<Rightarrow> osd \<Rightarrow> SAMPLE_RGN_CTX_S \<times> osd" where
  "free_bitmap ctx st =
     (case pData (stBitmap ctx) of
        None \<Rightarrow> (ctx, st)
      | Some _ \<Rightarrow> (ctx\<lparr>stBitmap := (stBitmap ctx)\<lparr>pData := None\<rparr>\<rparr>, osd_free st))"

text \<open>
  What \<open>RK_MPI_RGN_GetDisplayAttr\<close> stores in the attributes is overwritten by the second switch.
\<close>

definition SAMPLE_COMM_RGN_CreateChn ::
    "rgn_lib \<Rightarrow> (nat \<Rightarrow> bool) \<Rightarrow> (nat \<Rightarrow> byte) \<Rightarrow> OSD_SURFACE_S \<Rightarrow> file_system \<Rightarrow> SAMPLE_RGN_CTX_S \<Rightarrow> osd \<Rightarrow>
     (int \<times> SAMPLE_RGN_CTX_S \<times> osd) option" where
  "SAMPLE_COMM_RGN_CreateChn lib alloc junk surf fs ctx st =
     (case set_chn_attr ctx of None \<Rightarrow> Some (-1, ctx, st) | Some ctx \<Rightarrow> do {
       let overlay = (rgn_enType (stRgnAttr ctx) = OVERLAY_RGN);
       (ret, ctx, st) \<leftarrow>
         (if overlay
          then test_rgn_load_bmp alloc junk surf fs
            (ctx\<lparr>stRgnAttr := (stRgnAttr ctx)\<lparr>stOverlay := \<lparr>ov_format = u32BmpFormat ctx,
               ov_w = reg_w (stRegion ctx), ov_h = reg_h (stRegion ctx)\<rparr>\<rparr>\<rparr>) st
          else Some (0, ctx, st));
       if ret \<noteq> 0 then Some (ret, ctx, st)
       else
         let (ret, st) = rgn lib (Rgn_create (rgnHandle ctx) (stRgnAttr ctx)) st
         in if ret \<noteq> 0 then Some (-1, ctx, st)
         else
           let (ret, st) = rgn lib (Rgn_attach (rgnHandle ctx) (stMppChn ctx) (stRgnChnAttr ctx)) st
           in if ret \<noteq> 0 then Some (-1, ctx, st)
           else
             let (ret, st) = (if overlay then rgn lib (Rgn_set_bitmap (rgnHandle ctx) (stBitmap ctx)) st else (0, st));
                 (ctx, st) = (if overlay then free_bitmap ctx st else (ctx, st))
             in if ret \<noteq> 0 then Some (-1, ctx, st)
             else
               let (ret, st) = rgn lib (Rgn_get_display (rgnHandle ctx) (stMppChn ctx)) st
               in if ret \<noteq> 0 then Some (-1, ctx, st)
               else case set_chn_attr ctx of None \<Rightarrow> Some (-1, ctx, st) | Some ctx \<Rightarrow>
                 let (ret, st) = rgn lib (Rgn_set_display (rgnHandle ctx) (stMppChn ctx) (stRgnChnAttr ctx)) st
                 in Some (if ret \<noteq> 0 then -1 else 0, ctx, st)
     })"

definition SAMPLE_COMM_RGN_DestroyChn :: "rgn_lib \<Rightarrow> SAMPLE_RGN_CTX_S \<Rightarrow> osd \<Rightarrow> int \<times> osd" where
  "SAMPLE_COMM_RGN_DestroyChn lib ctx st =
     (let (ret, st) = rgn lib (Rgn_detach (rgnHandle ctx) (stMppChn ctx)) st
      in if ret \<noteq> 0 then (-1, st)
      else
        let (ret, st) = rgn lib (Rgn_destroy (rgnHandle ctx)) st
        in if ret \<noteq> 0 then (-1, st) else (0, st))"

text \<open>\<open>SAMPLE_COMM_GetBmpResolution\<close> (\<^verbatim>\<open>common/sample_comm.c\<close>) with the two values it stores.\<close>

definition SAMPLE_COMM_GetBmpResolution ::
    "file_system \<Rightarrow> path option \<Rightarrow> held \<Rightarrow> (int \<times> 32 word option \<times> 32 word option \<times> held) option" where
  "SAMPLE_COMM_GetBmpResolution fs pBmpFile hld =
     (let width = Some 256; height = Some 256
      in case pBmpFile of None \<Rightarrow> Some (-1, width, height, hld)
       | Some f \<Rightarrow>
           (case fopen fs f of None \<Rightarrow> Some (-1, width, height, hld)
            | Some fp \<Rightarrow> do {
                let hld = hld\<lparr>streams := streams hld + 1\<rparr>;
                bfType \<leftarrow> le16 (content fp) 0;
                if bfType \<noteq> 0x4d42 then Some (-1, width, height, hld\<lparr>streams := streams hld - 1\<rparr>)
                else Some (0, le32 (content fp) 18, le32 (content fp) 22, hld\<lparr>streams := streams hld - 1\<rparr>)
              }))"

lemma osd_blocks [simp]:
  "osd_held (osd_malloc st) = (osd_held st)\<lparr>blocks := blocks (osd_held st) + 1\<rparr>"
  "osd_held (osd_free st) = (osd_held st)\<lparr>blocks := blocks (osd_held st) - 1\<rparr>"
  "osd_log (osd_malloc st) = osd_log st" "osd_log (osd_free st) = osd_log st"
  "osd_fill (osd_malloc st) = osd_fill st" "osd_fill (osd_free st) = osd_fill st"
  by (simp_all add: osd_malloc_def osd_free_def)

section \<open>What the region library is asked\<close>

text \<open>The calls in order, up to the first that fails.\<close>

fun ask :: "rgn_lib \<Rightarrow> rgn_call list \<Rightarrow> rgn_log \<Rightarrow> int \<times> rgn_log" where
  "ask lib [] tr = (0, tr)"
| "ask lib (c # cs) tr =
     (let r = lib tr c in if r \<noteq> 0 then (-1, tr @ [(c, r)]) else ask lib cs (tr @ [(c, r)]))"

text \<open>The calls for a region that is set up with \<open>ctx\<close>.\<close>

definition set_up_calls :: "SAMPLE_RGN_CTX_S \<Rightarrow> rgn_call list" where
  "set_up_calls ctx =
     (let h = rgnHandle ctx; chn = stMppChn ctx
      in Rgn_create h (stRgnAttr ctx) # Rgn_attach h chn (stRgnChnAttr ctx) #
         (if rgn_enType (stRgnAttr ctx) = OVERLAY_RGN then [Rgn_set_bitmap h (stBitmap ctx)] else []) @
         [Rgn_get_display h chn, Rgn_set_display h chn (stRgnChnAttr ctx)])"

text \<open>The attributes of an overlay, and of a cover or a mosaic.\<close>

definition overlay_attrs :: "SAMPLE_RGN_CTX_S \<Rightarrow> SAMPLE_RGN_CTX_S" where
  "overlay_attrs ctx = ctx\<lparr>
     stRgnAttr := \<lparr>rgn_enType = OVERLAY_RGN, stOverlay = \<lparr>ov_format = u32BmpFormat ctx, ov_w = reg_w (stRegion ctx), ov_h = reg_h (stRegion ctx)\<rparr>\<rparr>,
     stRgnChnAttr := \<lparr>bShow = True, chn_enType = OVERLAY_RGN,
       unChnAttr = OverlayChn (reg_x (stRegion ctx)) (reg_y (stRegion ctx)) (u32BgAlpha ctx) (u32FgAlpha ctx) (u32Layer ctx)\<rparr>\<rparr>"

lemma set_chn_attr_again:
  assumes "set_chn_attr ctx = Some c"
  shows "set_chn_attr (c\<lparr>stBitmap := b\<rparr>) = Some (c\<lparr>stBitmap := b\<rparr>)" "set_chn_attr c = Some c"
    "stRgnAttr c = stRgnAttr ctx"
  using assms by (auto simp: set_chn_attr_def split: RGN_TYPE_E.splits)

lemma set_chn_attr_overlay:
  assumes "rgn_enType (stRgnAttr ctx) = OVERLAY_RGN"
  shows "map_option (\<lambda>ctx. ctx\<lparr>stRgnAttr := (stRgnAttr ctx)\<lparr>stOverlay := \<lparr>ov_format = u32BmpFormat ctx,
      ov_w = reg_w (stRegion ctx), ov_h = reg_h (stRegion ctx)\<rparr>\<rparr>\<rparr>) (set_chn_attr ctx) = Some (overlay_attrs ctx)"
  using assms by (cases "stRgnAttr ctx") (simp add: set_chn_attr_def overlay_attrs_def)

text \<open>
  An overlay whose bitmap was made: the bitmap is given up as soon as it was shown or refused, and kept
  when the region could not be created or attached.
\<close>

lemma create_overlay_spec:
  assumes "rgn_enType (stRgnAttr ctx) = OVERLAY_RGN"
    and load: "test_rgn_load_bmp alloc junk surf fs (overlay_attrs ctx) st = Some (0, (overlay_attrs ctx)\<lparr>stBitmap := b\<rparr>, st1)"
    and "pData b \<noteq> None"
  shows "\<exists>ret ctx' st'. SAMPLE_COMM_RGN_CreateChn lib alloc junk surf fs ctx st = Some (ret, ctx', st') \<and>
    ask lib (set_up_calls ((overlay_attrs ctx)\<lparr>stBitmap := b\<rparr>)) (osd_log st1) = (ret, osd_log st') \<and>
    osd_fill st' = osd_fill st1 \<and>
    (if length (osd_log st') < length (osd_log st1) + 3
     then osd_held st' = osd_held st1 \<and> stBitmap ctx' = b
     else osd_held st' = osd_held (osd_free st1) \<and> pData (stBitmap ctx') = None)"
proof -
  let ?o = "overlay_attrs ctx"
  have again: "set_chn_attr (?o\<lparr>stBitmap := c\<rparr>) = Some (?o\<lparr>stBitmap := c\<rparr>)" for c
    by (simp add: set_chn_attr_def overlay_attrs_def)
  obtain c where c: "set_chn_attr ctx = Some c" "c\<lparr>stRgnAttr := (stRgnAttr c)\<lparr>stOverlay := \<lparr>ov_format = u32BmpFormat c,
      ov_w = reg_w (stRegion c), ov_h = reg_h (stRegion c)\<rparr>\<rparr>\<rparr> = ?o"
    using set_chn_attr_overlay[OF assms(1)] by auto
  have ty: "rgn_enType (stRgnAttr c) = OVERLAY_RGN" "rgn_enType (stRgnAttr ?o) = OVERLAY_RGN"
    using assms(1) set_chn_attr_again(3)[OF c(1)] by (simp_all add: overlay_attrs_def)
  obtain px where px: "pData b = Some px" using assms(3) by blast
  show ?thesis
    unfolding SAMPLE_COMM_RGN_CreateChn_def
    using c load ty px again[of "b\<lparr>pData := None\<rparr>"]
    by (auto simp: rgn_def set_up_calls_def free_bitmap_def osd_free_def Let_def simp del: append_assoc)
qed

section \<open>An overlay from a file\<close>

lemma get_bmp_info_file:
  assumes "files fs f = Some bs" and "bmp_file bs Bpp w h offs"
  shows "get_bmp_info fs (Some f) st = Some (0, Some \<lparr>bfOffBits = le32 bs 10, biWidth = Some (word_of_nat w),
    biHeight = Some (word_of_nat h), biBitCount = le16 bs 28, biCompression = le32 bs 30\<rparr>, st)"
  using assms by (simp add: get_bmp_info_def fopen_Some bmp_file_def)

lemma block_size:
  assumes "4 * w * h < (2 ^ 32 :: nat)"
  shows "unat (4 * word_of_nat w * word_of_nat h :: 32 word) = 4 * w * h"
  using unat_offset[OF assms] by simp

lemma load_overlay_spec:
  assumes "srcFileBmpName ctx = Some f" and "files fs f = Some bs" and "get_ext_name (Some f) = Some ''bmp''"
    and "bmp_file bs Bpp w h offs" and "surface_format (u32BmpFormat ctx) = Some fmt" and "depth_fits Bpp fmt"
    and "w * Bpp < 65536" and "offs + h * padded (w * Bpp) \<le> length bs" and "4 * w * h < 2 ^ 32"
    and "alloc (4 * w * h)" and "alloc (h * padded (w * Bpp))"
  shows "test_rgn_load_bmp alloc junk surf fs ctx st =
    Some (0, ctx\<lparr>stBitmap := \<lparr>bm_format = u32BmpFormat ctx, bm_w = word_of_nat w, bm_h = word_of_nat h,
            pData = Some (surface_of fmt Bpp w h (padded (w * Bpp)) (take (h * padded (w * Bpp)) (drop offs bs)) @
              drop (surface_px fmt * w * h) (fresh_block junk (4 * w * h)))\<rparr>\<rparr>, osd_malloc st)"
proof -
  have dims: "w < 65536" "h < 65536" using assms(4) by (simp_all add: bmp_file_def)
  have room: "surface_px fmt * w * h \<le> length (fresh_block junk (4 * w * h))"
    by (simp add: surface_px_def fresh_block_def)
  have "length (fresh_block junk (4 * w * h)) < 2 ^ 32" using assms(9) by (simp add: fresh_block_def)
  note surface = create_surface_ok[where alloc = alloc and s = "surf\<lparr>enColorFmt := fmt\<rparr>" and
      buf = "fresh_block junk (4 * w * h)" and st = "osd_held (osd_malloc st)", simplified,
      OF assms(2,4,6,7,8,11) room this[simplified] assms(3)]
  show ?thesis
    using assms(1,5,10) surface dims
    by (simp add: test_rgn_load_bmp_def get_bmp_info_file[OF assms(2,4)] block_size[OF assms(9)] narrow osd_malloc_def Let_def)
qed

section \<open>An overlay without a file\<close>

lemma rgb_pattern_length:
  assumes "0 < pixel_size fmt"
  shows "length (rgb_pattern fmt fc w h) = pixel_size fmt * w * h"
proof -
  have "length (case get_rgb_color (int x) (int y) fc of (R, G, B) \<Rightarrow> packer fmt R G B True) = pixel_size fmt" for x y
    by (simp add: packer_length[OF assms] split: prod.split)
  then have "length (concat (map (\<lambda>x. case get_rgb_color (int x) (int y) fc of (R, G, B) \<Rightarrow> packer fmt R G B True) [0..<w])) =
      pixel_size fmt * w" for y
    by (simp add: length_concat comp_def sum_list_triv)
  then show ?thesis by (simp add: rgb_pattern_def length_concat comp_def sum_list_triv)
qed

lemma no_bitmap_steps:
  assumes "get_bmp_info fs (srcFileBmpName ctx) (osd_held st) = Some (r, info, hld)" and "r < 0"
    and "surface_format (u32BmpFormat ctx) = Some fmt" and "pixel_size (u32BmpFormat ctx) = 4"
    and "reg_w (stRegion ctx) = word_of_nat w" "reg_h (stRegion ctx) = word_of_nat h" "w < 2 ^ 31" "h < 2 ^ 31" "4 * w * h < 2 ^ 32"
    and "alloc (4 * w * h)"
  shows "test_rgn_load_bmp alloc junk surf fs ctx st =
    map_option (\<lambda>(_, buf, fill). (0, ctx\<lparr>stBitmap := \<lparr>bm_format = u32BmpFormat ctx, bm_w = word_of_nat w, bm_h = word_of_nat h,
        pData = Some buf\<rparr>\<rparr>, (osd_malloc (st\<lparr>osd_held := hld\<rparr>))\<lparr>osd_fill := fill\<rparr>))
      (fill_rgb 4 32 (u32BmpFormat ctx) (int w) (int h) (int w) 0 (fresh_block junk (4 * w * h)) (osd_fill st))"
  using assms fill_image_rgb[of "u32BmpFormat ctx" "fresh_block junk (4 * w * h)" "int w" "int h" "int w" "int h" 0]
    uint_offset[of w] uint_offset[of h]
  by (simp add: test_rgn_load_bmp_def block_size Let_def map_option_case split: option.split prod.split)

text \<open>
  The region's width is given to the fill as its stride, in pixels: the mark is set, and the aligned
  rows leave the block unless the width is a multiple of eight.
\<close>

lemma overlay_pattern_spec:
  assumes "get_bmp_info fs (srcFileBmpName ctx) (osd_held st) = Some (r, info, hld)" and "r < 0"
    and "u32BmpFormat ctx \<in> {RK_FMT_ARGB8888, RK_FMT_BGRA8888}"
    and "reg_w (stRegion ctx) = word_of_nat w" "reg_h (stRegion ctx) = word_of_nat h" "w < 2 ^ 31" "h < 2 ^ 31" "4 * w * h < 2 ^ 32"
    and "alloc (4 * w * h)" and "0 < w" "2 \<le> h" and "not_8_pixel (osd_fill st) = 0"
  shows "test_rgn_load_bmp alloc junk surf fs ctx st =
    (if w mod 8 = 0
     then Some (0, ctx\<lparr>stBitmap := \<lparr>bm_format = u32BmpFormat ctx, bm_w = word_of_nat w, bm_h = word_of_nat h,
            pData = Some (rgb_pattern (u32BmpFormat ctx) 0 w h)\<rparr>\<rparr>,
          (osd_malloc (st\<lparr>osd_held := hld\<rparr>))\<lparr>osd_fill := (osd_fill st)\<lparr>is_pixel_stride := 1\<rparr>\<rparr>)
     else None)"
proof -
  let ?fmt = "u32BmpFormat ctx" and ?buf = "fresh_block junk (4 * w * h)"
  obtain fmt where fmt: "surface_format ?fmt = Some fmt" and d: "pixel_size ?fmt = 4"
    using assms(3) by (auto simp: pixel_size_def)
  have len: "length ?buf = 4 * w * h" by (simp add: fresh_block_def)
  note steps = no_bitmap_steps[where alloc = alloc, OF assms(1,2) fmt d assms(4-9)]
  show ?thesis
  proof (cases "w mod 8 = 0")
    case True
    then obtain v where v: "w = 8 * v" by (auto elim!: dvdE)
    then have al: "RK_ALIGN (int (pixel_size ?fmt * w)) (8 * int (pixel_size ?fmt)) = int (pixel_size ?fmt * w)"
      using RK_ALIGN_fix[of "int (32 * v)" 5 "int v"] d by simp
    have "fill_rgb 4 32 ?fmt (int w) (int h) (int w) 0 ?buf (osd_fill st) =
        Some (0, splice ?buf 0 (rgb_pattern ?fmt 0 w h), (osd_fill st)\<lparr>is_pixel_stride := 1\<rparr>)"
      using fill_rgb_pixels[OF _ _ al assms(12), of h ?buf 0] d len assms(10) by simp
    moreover have "splice ?buf 0 (rgb_pattern ?fmt 0 w h) = rgb_pattern ?fmt 0 w h"
      using rgb_pattern_length[of ?fmt 0 w h] d len by (simp add: splice_all)
    ultimately show ?thesis using True by (simp add: steps)
  next
    case False
    then show ?thesis using fill_rgb_unaligned_overrun[OF d assms(11) _ len] by (simp add: steps)
  qed
qed

section \<open>Errors that are not passed on\<close>

text \<open>
  A bitmap the loader refuses, here one of less than 16 bits a pixel, is shown all the same: with the
  size the local surface happened to have and the bytes the block happened to hold.
\<close>

lemma shallow_bitmap_shown:
  assumes "srcFileBmpName ctx = Some f" and "files fs f = Some bs" and "get_ext_name (Some f) = Some ''bmp''"
    and "le16 bs 0 = Some 0x4d42" and "le32 bs 18 = Some (word_of_nat w)" "le32 bs 22 = Some (word_of_nat h)"
    and "le16 bs 28 = Some bits" "bits < 16" and "surface_format (u32BmpFormat ctx) = Some fmt"
    and "4 * w * h < 2 ^ 32" and "alloc (4 * w * h)"
  shows "test_rgn_load_bmp alloc junk surf fs ctx st =
    Some (0, ctx\<lparr>stBitmap := \<lparr>bm_format = u32BmpFormat ctx, bm_w = ucast (u16Width surf),
            bm_h = ucast (u16Height surf), pData = Some (fresh_block junk (4 * w * h))\<rparr>\<rparr>, osd_malloc st)"
proof -
  have "uint bits < 16" using assms(8) by (simp add: word_less_def)
  then have "uint bits div 8 < 2" by presburger
  then show ?thesis
    using assms
    by (simp add: test_rgn_load_bmp_def get_bmp_info_def fopen_Some block_size create_surface_by_bitmap_def
        load_image_ex_def load_bmp_ex_def osd_malloc_def Let_def)
qed

text \<open>A region that cannot be attached stays created, and its bitmap stays allocated.\<close>

lemma attach_failure_leaks:
  assumes "rgn_enType (stRgnAttr ctx) = OVERLAY_RGN"
    and load: "test_rgn_load_bmp alloc junk surf fs (overlay_attrs ctx) st = Some (0, (overlay_attrs ctx)\<lparr>stBitmap := b\<rparr>, st1)"
    and "pData b \<noteq> None"
    and c: "c = Rgn_create (rgnHandle ctx) (stRgnAttr (overlay_attrs ctx))" "lib (osd_log st1) c = 0"
    and d: "d = Rgn_attach (rgnHandle ctx) (stMppChn ctx) (stRgnChnAttr (overlay_attrs ctx))" "lib (osd_log st1 @ [(c, 0)]) d = r" "r \<noteq> 0"
  shows "\<exists>ctx' st'. SAMPLE_COMM_RGN_CreateChn lib alloc junk surf fs ctx st = Some (-1, ctx', st') \<and>
    osd_log st' = osd_log st1 @ [(c, 0), (d, r)] \<and> osd_held st' = osd_held st1 \<and> stBitmap ctx' = b"
proof -
  have "ask lib (set_up_calls ((overlay_attrs ctx)\<lparr>stBitmap := b\<rparr>)) (osd_log st1) = (-1, osd_log st1 @ [(c, 0), (d, r)])"
    using c d by (simp add: set_up_calls_def overlay_attrs_def Let_def)
  then obtain ctx' st' where r: "SAMPLE_COMM_RGN_CreateChn lib alloc junk surf fs ctx st = Some (-1, ctx', st')"
    "osd_log st' = osd_log st1 @ [(c, 0), (d, r)]"
    "if length (osd_log st') < length (osd_log st1) + 3
     then osd_held st' = osd_held st1 \<and> stBitmap ctx' = b
     else osd_held st' = osd_held (osd_free st1) \<and> pData (stBitmap ctx') = None"
    using create_overlay_spec[where lib = lib, OF assms(1) load assms(3)] by force
  then show ?thesis by (simp add: r(2))
qed

text \<open>The resolution of a bitmap file is read as the loader reads it, but every stream is closed.\<close>

lemma bmp_resolution:
  "SAMPLE_COMM_GetBmpResolution fs name hld =
     map_option (\<lambda>(ret, info, _). case info of
         None \<Rightarrow> (ret, Some 256, Some 256, hld)
       | Some info \<Rightarrow> (ret, biWidth info, biHeight info, hld)) (get_bmp_info fs name hld)"
  by (auto simp: SAMPLE_COMM_GetBmpResolution_def get_bmp_info_def Let_def split: option.split bind_splits)

section \<open>Properties\<close>

text \<open>
  C34.  From the bitmap file to the display: with a complete bitmap of a depth its format takes, setting up
  an overlay asks the region library, in order and up to the first call that fails, to create, attach,
  show, read and update the region with exactly the pixels of the file, and returns success when none
  failed; every stream and block is given back, except the bitmap when the region could not be created
  or attached.
\<close>

theorem overlay_shows_bitmap:
  assumes "rgn_enType (stRgnAttr ctx) = OVERLAY_RGN" and "srcFileBmpName ctx = Some f" and "files fs f = Some bs"
    and "get_ext_name (Some f) = Some ''bmp''" and "bmp_file bs Bpp w h offs"
    and "surface_format (u32BmpFormat ctx) = Some fmt" and "depth_fits Bpp fmt"
    and "w * Bpp < 65536" and "offs + h * padded (w * Bpp) \<le> length bs" and "4 * w * h < 2 ^ 32"
    and "alloc (4 * w * h)" and "alloc (h * padded (w * Bpp))"
  shows "\<exists>ret ctx' st'. SAMPLE_COMM_RGN_CreateChn lib alloc junk surf fs ctx st = Some (ret, ctx', st') \<and>
    ask lib (set_up_calls ((overlay_attrs ctx)\<lparr>stBitmap := \<lparr>bm_format = u32BmpFormat ctx, bm_w = word_of_nat w, bm_h = word_of_nat h,
        pData = Some (surface_of fmt Bpp w h (padded (w * Bpp)) (take (h * padded (w * Bpp)) (drop offs bs)) @
          drop (surface_px fmt * w * h) (fresh_block junk (4 * w * h)))\<rparr>\<rparr>)) (osd_log st) = (ret, osd_log st') \<and>
    osd_held st' = (osd_held st)\<lparr>blocks := blocks (osd_held st) +
      (if length (osd_log st') < length (osd_log st) + 3 then 1 else 0)\<rparr>"
proof -
  have "srcFileBmpName (overlay_attrs ctx) = Some f" "u32BmpFormat (overlay_attrs ctx) = u32BmpFormat ctx"
    using assms(2) by (simp_all add: overlay_attrs_def)
  note load = load_overlay_spec[where alloc = alloc and junk = junk and surf = surf and st = st,
      OF this(1) assms(3-5) _ assms(7-12), unfolded this(2), OF assms(6)]
  from create_overlay_spec[where lib = lib, OF assms(1) load, simplified] show ?thesis
    by (elim ex_forward) (simp split: if_splits)
qed

definition demo_region :: "PIXEL_FORMAT_E \<Rightarrow> path option \<Rightarrow> 32 word \<Rightarrow> SAMPLE_RGN_CTX_S" where
  "demo_region fmt name w =
     \<lparr>srcFileBmpName = name, u32BmpFormat = fmt, u32BgAlpha = 0, u32FgAlpha = 255,
      stBitmap = \<lparr>bm_format = fmt, bm_w = 0, bm_h = 0, pData = None\<rparr>, stMppChn = 0,
      stRegion = \<lparr>reg_x = 16, reg_y = 16, reg_w = w, reg_h = 2\<rparr>, u32Color = 0, u32Layer = 1, rgnHandle = 5,
      stRgnAttr = \<lparr>rgn_enType = OVERLAY_RGN, stOverlay = \<lparr>ov_format = fmt, ov_w = 0, ov_h = 0\<rparr>\<rparr>,
      stRgnChnAttr = \<lparr>bShow = False, chn_enType = OVERLAY_RGN, unChnAttr = OverlayChn 0 0 0 0 0\<rparr>\<rparr>"

definition osd0 :: osd where
  "osd0 = \<lparr>osd_held = \<lparr>streams = 0, blocks = 0\<rparr>, osd_fill = \<lparr>is_pixel_stride = 0, not_8_pixel = 0\<rparr>, osd_log = []\<rparr>"

definition demo_surface :: OSD_SURFACE_S where
  "demo_surface = \<lparr>enColorFmt = OSD_COLOR_FMT_RGB444, u16Height = 77, u16Width = 88, u16Stride = 99\<rparr>"

theorem overlay_shows_bitmap_witness:
  "\<exists>ctx' st'. SAMPLE_COMM_RGN_CreateChn (\<lambda>_ _. 0) (\<lambda>_. True) (\<lambda>_. 7) demo_surface
      \<lparr>files = (\<lambda>_. Some demo_bmp), may_write = (\<lambda>_. False)\<rparr> (demo_region RK_FMT_ARGB1555 (Some ''a.bmp'') 16) osd0 = Some (0, ctx', st') \<and>
    (Rgn_set_bitmap 5 \<lparr>bm_format = RK_FMT_ARGB1555, bm_w = 2, bm_h = 1, pData = Some [0x01, 0xf8, 0x3f, 0, 7, 7, 7, 7]\<rparr>, 0) \<in> set (osd_log st') \<and>
    length (osd_log st') = 5 \<and> osd_held st' = \<lparr>streams = 0, blocks = 0\<rparr>"
proof -
  let ?fs = "\<lparr>files = (\<lambda>_. Some demo_bmp), may_write = (\<lambda>_. False)\<rparr>"
  let ?ctx = "demo_region RK_FMT_ARGB1555 (Some ''a.bmp'') 16"
  have bmp: "bmp_file demo_bmp 3 2 1 54" by (simp add: bmp_file_def demo_bmp_def le16_def le32_def)
  have fits: "depth_fits 3 OSD_COLOR_FMT_ARGB1555" by (simp add: depth_fits_def)
  have len: "54 + 1 * padded (2 * 3) \<le> length demo_bmp" by (simp add: padded_def demo_bmp_def)
  have out: "surface_of OSD_COLOR_FMT_ARGB1555 3 2 1 (padded (2 * 3)) (take (1 * padded (2 * 3)) (drop 54 demo_bmp)) =
      [0x01, 0xf8, 0x3f, 0]"
    by (simp add: surface_of_def padded_def demo_bmp_def OSD_MAKECOLOR_ARGB_def Let_def upt_rec)
  have junk: "drop (surface_px OSD_COLOR_FMT_ARGB1555 * 2 * 1) (fresh_block (\<lambda>_. 7) (4 * 2 * 1)) = [7, 7, 7, 7]"
    by (simp add: surface_px_def fresh_block_def upt_rec)
  have ctx: "rgn_enType (stRgnAttr ?ctx) = OVERLAY_RGN" "srcFileBmpName ?ctx = Some ''a.bmp''" "u32BmpFormat ?ctx = RK_FMT_ARGB1555"
    by (simp_all add: demo_region_def)
  have ext: "get_ext_name (Some ''a.bmp'') = Some ''bmp''" by (simp add: get_ext_name_def)
  let ?calls = "set_up_calls ((overlay_attrs ?ctx)\<lparr>stBitmap := \<lparr>bm_format = RK_FMT_ARGB1555, bm_w = word_of_nat 2, bm_h = word_of_nat 1,
      pData = Some ([0x01, 0xf8, 0x3f, 0] @ [7, 7, 7, 7])\<rparr>\<rparr>)"
  obtain ret ctx' st' where
    r: "SAMPLE_COMM_RGN_CreateChn (\<lambda>_ _. 0) (\<lambda>_. True) (\<lambda>_. 7) demo_surface ?fs ?ctx osd0 = Some (ret, ctx', st')"
    and calls: "ask (\<lambda>_ _. 0) ?calls (osd_log osd0) = (ret, osd_log st')"
    and hld: "osd_held st' = (osd_held osd0)\<lparr>blocks := blocks (osd_held osd0) + (if length (osd_log st') < length (osd_log osd0) + 3 then 1 else 0)\<rparr>"
    using overlay_shows_bitmap[OF ctx(1,2) _ ext bmp _ fits _ len, of ?fs "\<lambda>_. True" "\<lambda>_ _. 0" "\<lambda>_. 7" demo_surface osd0]
    unfolding out junk ctx(3) by auto
  have log: "osd_log st' = snd (ask (\<lambda>_ _. 0) ?calls [])" "ret = fst (ask (\<lambda>_ _. 0) ?calls [])"
    using calls by (simp_all add: osd0_def)
  then show ?thesis
    using r hld by (simp add: set_up_calls_def overlay_attrs_def demo_region_def osd0_def Let_def)
qed



end
