(* ===== verification/Media_Samples.thy ===== *)
theory Media_Samples
  imports Prelude "HOL-Library.State_Monad"
begin

text \<open>
  \<^verbatim>\<open>common/sample_comm_vi.c\<close>, \<^verbatim>\<open>common/sample_comm_vpss.c\<close>, \<^verbatim>\<open>common/sample_comm_venc.c\<close>: the wrappers of
  video input, scaler and encoder.  The media library is a parameter that answers each call from the
  history of the calls before it; the state monad carries that history.  The loops that retry a call
  until it succeeds may run forever, which is \<open>None\<close>.  Waiting between two tries,
  the addresses of blocks and what the library fills in without the wrapper reading it are left out.
\<close>

unbundle bit_operations_syntax

section \<open>Calls\<close>

datatype CODEC_TYPE_E =
    RK_CODEC_TYPE_NONE | RK_CODEC_TYPE_MP3 | RK_CODEC_TYPE_MP2 | RK_CODEC_TYPE_G711A | RK_CODEC_TYPE_G711U
  | RK_CODEC_TYPE_G726 | RK_CODEC_TYPE_H264 | RK_CODEC_TYPE_H265 | RK_CODEC_TYPE_JPEG | RK_CODEC_TYPE_MJPEG
  | RK_CODEC_TYPE_NB

datatype VENC_RC_MODE_E =
    RC_MODE_UNSET | VENC_RC_MODE_H264CBR | VENC_RC_MODE_H264VBR | VENC_RC_MODE_H264AVBR | VENC_RC_MODE_H264FIXQP
  | VENC_RC_MODE_MJPEGCBR | VENC_RC_MODE_MJPEGVBR | VENC_RC_MODE_MJPEGFIXQP
  | VENC_RC_MODE_H265CBR | VENC_RC_MODE_H265VBR | VENC_RC_MODE_H265AVBR | VENC_RC_MODE_H265FIXQP | VENC_RC_MODE_BUTT

datatype enc_type = RK_VIDEO_ID_AVC | RK_VIDEO_ID_HEVC | RK_VIDEO_ID_MJPEG | RK_VIDEO_ID_JPEG

text \<open>
  The parameters of the rate control: group length, bit rate and frame rate, which is the one of source
  and destination, over 1.
\<close>

datatype rate = Rate_unset | Rate_gop "32 word" "32 word" "32 word" | Rate_mjpeg "32 word" "32 word"

record venc_attr =
  enType :: enc_type
  rc_mode :: VENC_RC_MODE_E
  rc_rate :: rate
  pic_w :: "32 word"
  pic_h :: "32 word"
  vir_w :: "32 word"
  vir_h :: "32 word"
  stream_bufs :: "32 word"
  buf_size :: "32 word"

text \<open>The limits of the quantiser: minimum, maximum, both for key frames, and the two frame minima.\<close>

datatype qp_limits = Qp_none | Qp CODEC_TYPE_E int int int int int int

text \<open>The calls of each device, and of the pool of blocks.\<close>

datatype vi_call =
    Vi_get_dev_attr int | Vi_set_dev_attr int | Vi_get_dev_is_enable int | Vi_enable_dev int
  | Vi_bind_pipe int int | Vi_disable_dev int
  | Vi_set_chn_attr int int "32 word" "32 word" | Vi_set_wrap int int "32 word" "32 word"
  | Vi_enable_chn int int | Vi_enable_chn_ext int int | Vi_set_eptz int int | Vi_save_file int int
  | Vi_disable_chn int int | Vi_disable_chn_ext int int
  | Vi_get_frame int int | Vi_query int int | Vi_release_frame int int

datatype vpss_call =
    Vpss_create_grp int | Vpss_set_proc_dev int | Vpss_get_proc_dev int | Vpss_reset_grp int
  | Vpss_set_grp_crop int | Vpss_get_grp_crop int | Vpss_set_crop int int | Vpss_get_crop int int
  | Vpss_set_rotation int int int | Vpss_get_rotation int int
  | Vpss_set_attr int int | Vpss_get_attr int int | Vpss_enable int int | Vpss_disable int int
  | Vpss_start_grp int | Vpss_stop_grp int | Vpss_destroy_grp int
  | Vpss_get_frame int int | Vpss_pic_size | Vpss_flush | Vpss_release_frame int int
  | Vpss_send int int int int

datatype venc_call =
    Venc_create int venc_attr | Venc_ref_share int | Venc_wrap int "32 word" | Venc_rc_param int qp_limits
  | Venc_svc int bool | Venc_deblur int bool | Venc_start int int | Venc_jpeg int "32 word" | Venc_mjpeg int
  | Venc_combo int "32 word" | Venc_thread
  | Venc_get_stream int | Venc_release_stream int | Venc_stop int | Venc_destroy int
  | Venc_send int int int int

datatype mb_call = Mb_get int int | Mb_flush int | Mb_release int

datatype mpi_call = VI vi_call | VPSS vpss_call | VENC venc_call | MB mb_call

type_synonym media_log = "(mpi_call \<times> int) list"

type_synonym media_lib = "media_log \<Rightarrow> mpi_call \<Rightarrow> int"

type_synonym 'a media = "(media_log, 'a) state"

definition ask_media :: "media_lib \<Rightarrow> mpi_call \<Rightarrow> int media" where
  "ask_media lib c = State (\<lambda>tr. (lib tr c, tr @ [(c, lib tr c)]))"

text \<open>A call whose failure ends the function with its code.\<close>

definition must :: "media_lib \<Rightarrow> mpi_call \<Rightarrow> int media \<Rightarrow> int media" where
  "must lib c k = do { ret \<leftarrow> ask_media lib c; if ret \<noteq> 0 then State_Monad.return ret else k }"

section \<open>Video input\<close>

record vi_ctx =
  vi_dev :: int
  vi_pipe :: int
  vi_chn :: int
  vi_w :: "32 word"
  vi_h :: "32 word"
  vi_wrap :: bool
  vi_line :: "32 word"
  vi_group :: bool
  vi_eptz :: bool
  vi_debug :: bool

text \<open>The label \<open>__FAILED2\<close>: what disabling the device answers becomes the result.\<close>

definition vi_failed2 :: "media_lib \<Rightarrow> vi_ctx \<Rightarrow> int media" where
  "vi_failed2 lib ctx = ask_media lib (VI (Vi_disable_dev (vi_dev ctx)))"

text \<open>From step 2 on: the channel.\<close>

definition vi_channel :: "media_lib \<Rightarrow> vi_ctx \<Rightarrow> int media" where
  "vi_channel lib ctx = do {
     let pipe = vi_pipe ctx;
     let chn = vi_chn ctx;
     ret \<leftarrow> ask_media lib (VI (Vi_set_chn_attr pipe chn (vi_w ctx) (vi_h ctx)));
     if ret \<noteq> 0 then vi_failed2 lib ctx
     else if vi_wrap ctx \<and> (vi_line ctx < 128 \<or> vi_line ctx > vi_h ctx) then State_Monad.return (-1)
     else do {
       ret \<leftarrow> (if vi_wrap ctx then ask_media lib (VI (Vi_set_wrap pipe chn (vi_line ctx) (vi_line ctx * vi_w ctx * 3 div 2)))
               else State_Monad.return 0);
       if ret \<noteq> 0 then State_Monad.return (-1)
       else do {
         ret \<leftarrow> ask_media lib (VI (if vi_group ctx then Vi_enable_chn_ext pipe chn else Vi_enable_chn pipe chn));
         if ret \<noteq> 0 then vi_failed2 lib ctx
         else do {
           ret \<leftarrow> (if vi_eptz ctx then ask_media lib (VI (Vi_set_eptz pipe chn)) else State_Monad.return 0);
           if ret \<noteq> 0 then vi_failed2 lib ctx
           else do {
             _ \<leftarrow> (if vi_debug ctx then ask_media lib (VI (Vi_save_file pipe chn)) else State_Monad.return 0);
             State_Monad.return 0
           }
         }
       }
     }
   }"

definition SAMPLE_COMM_VI_CreateChn :: "media_lib \<Rightarrow> int \<Rightarrow> vi_ctx \<Rightarrow> int media" where
  "SAMPLE_COMM_VI_CreateChn lib VI_NOT_CONFIG ctx = do {
     let dev = vi_dev ctx;
     ret \<leftarrow> ask_media lib (VI (Vi_get_dev_attr dev));
     ret \<leftarrow> (if ret = VI_NOT_CONFIG then ask_media lib (VI (Vi_set_dev_attr dev)) else State_Monad.return 0);
     if ret \<noteq> 0 then State_Monad.return ret
     else do {
       ret \<leftarrow> ask_media lib (VI (Vi_get_dev_is_enable dev));
       if ret = 0 then vi_channel lib ctx
       else must lib (VI (Vi_enable_dev dev)) (do {
         ret \<leftarrow> ask_media lib (VI (Vi_bind_pipe dev (vi_pipe ctx)));
         if ret \<noteq> 0 then vi_failed2 lib ctx else vi_channel lib ctx
       })
     }
   }"

definition SAMPLE_COMM_VI_GetChnFrame :: "media_lib \<Rightarrow> vi_ctx \<Rightarrow> int media" where
  "SAMPLE_COMM_VI_GetChnFrame lib ctx = do {
     ret \<leftarrow> ask_media lib (VI (Vi_get_frame (vi_pipe ctx) (vi_chn ctx)));
     if ret = 0 then do { _ \<leftarrow> ask_media lib (VI (Vi_query (vi_pipe ctx) (vi_chn ctx))); State_Monad.return 0 }
     else State_Monad.return (-1)
   }"

definition SAMPLE_COMM_VI_ReleaseChnFrame :: "media_lib \<Rightarrow> vi_ctx \<Rightarrow> int media" where
  "SAMPLE_COMM_VI_ReleaseChnFrame lib ctx = do {
     _ \<leftarrow> ask_media lib (VI (Vi_release_frame (vi_pipe ctx) (vi_chn ctx)));
     State_Monad.return 0
   }"

definition SAMPLE_COMM_VI_DestroyChn :: "media_lib \<Rightarrow> vi_ctx \<Rightarrow> int media" where
  "SAMPLE_COMM_VI_DestroyChn lib ctx = do {
     let pipe = vi_pipe ctx;
     let chn = vi_chn ctx;
     ret1 \<leftarrow> ask_media lib (VI (if vi_group ctx then Vi_disable_chn_ext pipe chn else Vi_disable_chn pipe chn));
     ret2 \<leftarrow> ask_media lib (VI (Vi_disable_dev (vi_dev ctx)));
     State_Monad.return (ret1 OR ret2)
   }"

section \<open>Scaler\<close>

definition VPSS_MAX_GRP_NUM :: int where "VPSS_MAX_GRP_NUM = 256"
definition VPSS_MAX_CHN_NUM :: nat where "VPSS_MAX_CHN_NUM = 4"

text \<open>The arrays of the context have one entry for each of the four channels.\<close>

record vpss_ctx =
  grp :: int
  grp_chn :: int
  chn_size :: "nat \<Rightarrow> 32 word \<times> 32 word"
  chn_rotation :: "nat \<Rightarrow> int"

text \<open>What the library stores in an answer: the rotation and the size of a channel, from the history.\<close>

record vpss_answers =
  got_rotation :: "media_log \<Rightarrow> int"
  got_size :: "media_log \<Rightarrow> 32 word \<times> 32 word"

definition in_use :: "vpss_ctx \<Rightarrow> nat \<Rightarrow> bool" where
  "in_use ctx i \<longleftrightarrow> fst (chn_size ctx i) \<noteq> 0 \<and> snd (chn_size ctx i) \<noteq> 0"

definition vpss_must :: "media_lib \<Rightarrow> mpi_call \<Rightarrow> vpss_ctx \<Rightarrow> (int \<times> vpss_ctx) media \<Rightarrow> (int \<times> vpss_ctx) media" where
  "vpss_must lib c ctx k = do { ret \<leftarrow> ask_media lib c; if ret \<noteq> 0 then State_Monad.return (ret, ctx) else k }"

definition vpss_channel ::
    "media_lib \<Rightarrow> vpss_answers \<Rightarrow> vpss_ctx \<Rightarrow> nat \<Rightarrow> (vpss_ctx \<Rightarrow> (int \<times> vpss_ctx) media) \<Rightarrow> (int \<times> vpss_ctx) media" where
  "vpss_channel lib ans ctx i k =
     (let g = grp ctx; c = int i
      in vpss_must lib (VPSS (Vpss_set_crop g c)) ctx (
         vpss_must lib (VPSS (Vpss_get_crop g c)) ctx (
         vpss_must lib (VPSS (Vpss_set_rotation g c (chn_rotation ctx i))) ctx (
         vpss_must lib (VPSS (Vpss_get_rotation g c)) ctx (do {
           tr \<leftarrow> State_Monad.get;
           if got_rotation ans tr \<noteq> chn_rotation ctx i then State_Monad.return (-1, ctx)
           else vpss_must lib (VPSS (Vpss_set_attr g c)) ctx (
             vpss_must lib (VPSS (Vpss_get_attr g c)) ctx (do {
               tr \<leftarrow> State_Monad.get;
               let ctx = ctx\<lparr>chn_size := (chn_size ctx)(i := got_size ans tr)\<rparr>;
               vpss_must lib (VPSS (Vpss_enable g c)) ctx (k ctx)
             }))
         })))))"

fun vpss_channels ::
    "media_lib \<Rightarrow> vpss_answers \<Rightarrow> (vpss_ctx \<Rightarrow> (int \<times> vpss_ctx) media) \<Rightarrow> nat list \<Rightarrow> vpss_ctx \<Rightarrow> (int \<times> vpss_ctx) media" where
  "vpss_channels lib ans k [] ctx = k ctx"
| "vpss_channels lib ans k (i # is) ctx =
     (if in_use ctx i then vpss_channel lib ans ctx i (vpss_channels lib ans k is) else vpss_channels lib ans k is ctx)"

definition SAMPLE_COMM_VPSS_CreateChn :: "media_lib \<Rightarrow> vpss_answers \<Rightarrow> vpss_ctx \<Rightarrow> (int \<times> vpss_ctx) media" where
  "SAMPLE_COMM_VPSS_CreateChn lib ans ctx =
     (let g = grp ctx
      in if g \<ge> VPSS_MAX_GRP_NUM then State_Monad.return (-1, ctx)
      else
        vpss_must lib (VPSS (Vpss_create_grp g)) ctx (
        vpss_must lib (VPSS (Vpss_set_proc_dev g)) ctx (
        vpss_must lib (VPSS (Vpss_get_proc_dev g)) ctx (
        vpss_must lib (VPSS (Vpss_reset_grp g)) ctx (
        vpss_must lib (VPSS (Vpss_set_grp_crop g)) ctx (
        vpss_must lib (VPSS (Vpss_get_grp_crop g)) ctx (
        vpss_channels lib ans (\<lambda>ctx. vpss_must lib (VPSS (Vpss_start_grp g)) ctx (State_Monad.return (0, ctx)))
          [0..<VPSS_MAX_CHN_NUM] ctx)))))))"

fun vpss_disable :: "media_lib \<Rightarrow> vpss_ctx \<Rightarrow> int media \<Rightarrow> nat list \<Rightarrow> int media" where
  "vpss_disable lib ctx k [] = k"
| "vpss_disable lib ctx k (i # is) =
     (if in_use ctx i then must lib (VPSS (Vpss_disable (grp ctx) (int i))) (vpss_disable lib ctx k is) else vpss_disable lib ctx k is)"

definition SAMPLE_COMM_VPSS_DestroyChn :: "media_lib \<Rightarrow> vpss_ctx \<Rightarrow> int media" where
  "SAMPLE_COMM_VPSS_DestroyChn lib ctx =
     vpss_disable lib ctx
       (must lib (VPSS (Vpss_stop_grp (grp ctx))) (must lib (VPSS (Vpss_destroy_grp (grp ctx))) (State_Monad.return 0)))
       [0..<VPSS_MAX_CHN_NUM]"

text \<open>A frame that was not got is used all the same.\<close>

definition SAMPLE_COMM_VPSS_GetChnFrame :: "media_lib \<Rightarrow> vpss_ctx \<Rightarrow> int media" where
  "SAMPLE_COMM_VPSS_GetChnFrame lib ctx = do {
     _ \<leftarrow> ask_media lib (VPSS (Vpss_get_frame (grp ctx) (grp_chn ctx)));
     must lib (VPSS Vpss_pic_size) (do { _ \<leftarrow> ask_media lib (VPSS Vpss_flush); State_Monad.return 0 })
   }"

definition SAMPLE_COMM_VPSS_ReleaseChnFrame :: "media_lib \<Rightarrow> vpss_ctx \<Rightarrow> int media" where
  "SAMPLE_COMM_VPSS_ReleaseChnFrame lib ctx = do {
     _ \<leftarrow> ask_media lib (VPSS (Vpss_release_frame (grp ctx) (grp_chn ctx)));
     State_Monad.return 0
   }"

definition SAMPLE_COMM_VPSS_SetChnAttr :: "media_lib \<Rightarrow> vpss_ctx \<Rightarrow> int media option" where
  "SAMPLE_COMM_VPSS_SetChnAttr lib ctx =
     (if 0 \<le> grp_chn ctx \<and> grp_chn ctx < int VPSS_MAX_CHN_NUM
      then Some (must lib (VPSS (Vpss_set_attr (grp ctx) (grp_chn ctx))) (State_Monad.return 0)) else None)"

section \<open>Sending frames\<close>

text \<open>A call repeated until its answer is \<open>ok\<close>.\<close>

partial_function (option) retry :: "media_lib \<Rightarrow> mpi_call \<Rightarrow> (int \<Rightarrow> bool) \<Rightarrow> media_log \<Rightarrow> (int \<times> media_log) option" where
  "retry lib c ok tr =
     (let r = lib tr c; tr = tr @ [(c, r)]
      in if ok r then Some (r, tr) else retry lib c ok tr)"

text \<open>
  The pointer to the block's memory is overwritten by \<open>pdata\<close>, which is not used again: the frame sent
  is the block as the pool gave it.
\<close>

definition send_stream ::
    "media_lib \<Rightarrow> (int \<Rightarrow> mpi_call) \<Rightarrow> int \<Rightarrow> int \<Rightarrow> media_log \<Rightarrow> (int \<times> media_log) option" where
  "send_stream lib send pool sz tr =
     do {
       (blk, tr) \<leftarrow> retry lib (MB (Mb_get pool sz)) (\<lambda>b. b \<noteq> 0) tr;
       let tr = snd (run_state (ask_media lib (MB (Mb_flush blk))) tr);
       (ret, tr) \<leftarrow> retry lib (send blk) (\<lambda>r. r = 0) tr;
       let tr = snd (run_state (ask_media lib (MB (Mb_release blk))) tr);
       Some (ret, tr)
     }"

definition SAMPLE_COMM_VENC_SendStream ::
    "media_lib \<Rightarrow> int \<Rightarrow> int \<Rightarrow> byte list \<Rightarrow> int \<Rightarrow> int \<Rightarrow> int \<Rightarrow> media_log \<Rightarrow> (int \<times> media_log) option" where
  "SAMPLE_COMM_VENC_SendStream lib chn pool pdata width height sz =
     send_stream lib (\<lambda>blk. VENC (Venc_send chn blk width height)) pool sz"

definition SAMPLE_COMM_VPSS_SendStream ::
    "media_lib \<Rightarrow> vpss_ctx \<Rightarrow> int \<Rightarrow> byte list \<Rightarrow> int \<Rightarrow> int \<Rightarrow> int \<Rightarrow> media_log \<Rightarrow> (int \<times> media_log) option" where
  "SAMPLE_COMM_VPSS_SendStream lib ctx pool pdata width height sz =
     send_stream lib (\<lambda>blk. VPSS (Vpss_send (grp ctx) blk width height)) pool sz"

definition SAMPLE_COMM_VENC_GetStream :: "media_lib \<Rightarrow> int \<Rightarrow> media_log \<Rightarrow> (int \<times> media_log) option" where
  "SAMPLE_COMM_VENC_GetStream lib chn = retry lib (VENC (Venc_get_stream chn)) (\<lambda>r. r = 0)"

section \<open>Encoder\<close>

record venc_ctx =
  codec :: CODEC_TYPE_E
  enRcMode :: VENC_RC_MODE_E
  u32Gop :: "32 word"
  u32BitRate :: "32 word"
  u32Fps :: "32 word"
  u32Width :: "32 word"
  u32Height :: "32 word"
  u32StreamBufCnt :: "32 word"
  u32BuffSize :: "32 word"
  u32BufferLine :: "32 word"
  u32ComboChnId :: "32 word"
  u32Qfactor :: "32 word"
  venc_chn :: int
  enable_buf_share :: bool
  bWrapIfEnable :: bool
  bSvcIfEnable :: bool
  bMotionDeblurIfEnable :: bool
  bComboIfEnable :: bool
  getStreamCbFunc :: bool
  stChnAttr :: venc_attr
  pstPack :: int

text \<open>The switch over the codec; a mode that does not belong to the codec changes nothing.\<close>

definition set_rate :: "venc_ctx \<Rightarrow> venc_attr" where
  "set_rate ctx =
     (let a = stChnAttr ctx;
          gop = Rate_gop (u32Gop ctx) (u32BitRate ctx) (u32Fps ctx);
          mjpeg = Rate_mjpeg (u32Width ctx * u32Height ctx * 8) (u32Fps ctx);
          m = enRcMode ctx
      in case codec ctx of
        RK_CODEC_TYPE_H265 \<Rightarrow>
          (let a = a\<lparr>enType := RK_VIDEO_ID_HEVC\<rparr>
           in if m \<in> {VENC_RC_MODE_H265CBR, VENC_RC_MODE_H265VBR} then a\<lparr>rc_mode := m, rc_rate := gop\<rparr> else a)
      | RK_CODEC_TYPE_MJPEG \<Rightarrow>
          (let a = a\<lparr>enType := RK_VIDEO_ID_MJPEG\<rparr>
           in if m \<in> {VENC_RC_MODE_MJPEGCBR, VENC_RC_MODE_MJPEGVBR} then a\<lparr>rc_mode := m, rc_rate := mjpeg\<rparr> else a)
      | RK_CODEC_TYPE_JPEG \<Rightarrow> a\<lparr>rc_mode := VENC_RC_MODE_MJPEGCBR, enType := RK_VIDEO_ID_JPEG\<rparr>
      | _ \<Rightarrow>
          (let a = a\<lparr>enType := RK_VIDEO_ID_AVC\<rparr>
           in if m \<in> {VENC_RC_MODE_H264CBR, VENC_RC_MODE_H264VBR} then a\<lparr>rc_mode := m, rc_rate := gop\<rparr> else a))"

definition align2 :: "32 word \<Rightarrow> 32 word" where
  "align2 x = (x + 2 - 1) AND NOT 1"

definition venc_attrs :: "venc_ctx \<Rightarrow> venc_attr" where
  "venc_attrs ctx = (set_rate ctx)\<lparr>pic_w := u32Width ctx, pic_h := u32Height ctx,
     vir_w := align2 (u32Width ctx), vir_h := align2 (u32Height ctx),
     stream_bufs := (if u32StreamBufCnt ctx \<noteq> 0 then u32StreamBufCnt ctx else 3),
     buf_size := (if u32BuffSize ctx \<noteq> 0 then u32BuffSize ctx else u32Width ctx * u32Height ctx * 3 div 2)\<rparr>"

definition qp_of :: "CODEC_TYPE_E \<Rightarrow> qp_limits" where
  "qp_of c = (if c = RK_CODEC_TYPE_H264 \<or> c = RK_CODEC_TYPE_H265 then Qp c 10 51 10 51 28 28 else Qp_none)"

text \<open>
  \<open>alloc_pack\<close> is the address \<open>malloc\<close> answers for the packet, 0 for none; the second component of the
  result is the address stored.
\<close>

definition SAMPLE_COMM_VENC_CreateChn :: "media_lib \<Rightarrow> int \<Rightarrow> venc_ctx \<Rightarrow> (int \<times> venc_ctx) media" where
  "SAMPLE_COMM_VENC_CreateChn lib alloc_pack ctx =
     (let chn = venc_chn ctx;
          ctx = ctx\<lparr>stChnAttr := venc_attrs ctx\<rparr>;
          skip = State_Monad.return 0;
          fail = (\<lambda>r. State_Monad.return (r, ctx))
      in do {
       ret \<leftarrow> ask_media lib (VENC (Venc_create chn (stChnAttr ctx)));
       if ret \<noteq> 0 then fail ret else do {
       _ \<leftarrow> (if enable_buf_share ctx then ask_media lib (VENC (Venc_ref_share chn)) else skip);
       ret \<leftarrow> (if bWrapIfEnable ctx then ask_media lib (VENC (Venc_wrap chn (u32BufferLine ctx))) else skip);
       if ret \<noteq> 0 then fail (-1) else do {
       _ \<leftarrow> (if bWrapIfEnable ctx then ask_media lib (VENC (Venc_ref_share chn)) else skip);
       ret \<leftarrow> ask_media lib (VENC (Venc_rc_param chn (qp_of (codec ctx))));
       if ret \<noteq> 0 then fail ret else do {
       ret \<leftarrow> ask_media lib (VENC (Venc_svc chn (bSvcIfEnable ctx)));
       if ret \<noteq> 0 then fail ret else do {
       ret \<leftarrow> ask_media lib (VENC (Venc_deblur chn (bMotionDeblurIfEnable ctx)));
       if ret \<noteq> 0 then fail ret else do {
       ret \<leftarrow> ask_media lib (VENC (Venc_start chn (-1)));
       if ret \<noteq> 0 then fail ret else do {
       ret \<leftarrow> (if enType (stChnAttr ctx) = RK_VIDEO_ID_JPEG then ask_media lib (VENC (Venc_jpeg chn (u32Qfactor ctx)))
               else do { _ \<leftarrow> (if enType (stChnAttr ctx) = RK_VIDEO_ID_MJPEG then ask_media lib (VENC (Venc_mjpeg chn)) else skip); skip });
       if ret \<noteq> 0 then fail ret else do {
       _ \<leftarrow> (if bComboIfEnable ctx then ask_media lib (VENC (Venc_combo chn (u32ComboChnId ctx))) else skip);
       if getStreamCbFunc ctx then do {
         let ctx = ctx\<lparr>pstPack := alloc_pack\<rparr>;
         _ \<leftarrow> ask_media lib (VENC Venc_thread);
         State_Monad.return (0, ctx)
       }
       else State_Monad.return (0, ctx) }}}}}}} })"

definition SAMPLE_COMM_VENC_ReleaseStream :: "media_lib \<Rightarrow> int \<Rightarrow> int media" where
  "SAMPLE_COMM_VENC_ReleaseStream lib chn = ask_media lib (VENC (Venc_release_stream chn))"

text \<open>\<open>heap\<close> are the blocks of the allocator; the pointer to a freed packet stays in the context.\<close>

definition SAMPLE_COMM_VENC_DestroyChn ::
    "media_lib \<Rightarrow> venc_ctx \<Rightarrow> int list \<Rightarrow> media_log \<Rightarrow> (int \<times> int list \<times> media_log) option" where
  "SAMPLE_COMM_VENC_DestroyChn lib ctx heap tr =
     (let (ret, tr) = run_state (ask_media lib (VENC (Venc_stop (venc_chn ctx)))) tr
      in if ret \<noteq> 0 then Some (ret, heap, tr)
      else
        let (_, tr) = run_state (ask_media lib (VENC (Venc_destroy (venc_chn ctx)))) tr
        in if pstPack ctx = 0 then Some (0, heap, tr)
        else if pstPack ctx \<in> set heap then Some (0, remove1 (pstPack ctx) heap, tr)
        else None)"

section \<open>When sending returns\<close>

text \<open>The history after \<open>n\<close> tries of a call, and the first try whose answer is \<open>ok\<close>.\<close>

fun tried :: "media_lib \<Rightarrow> mpi_call \<Rightarrow> media_log \<Rightarrow> nat \<Rightarrow> media_log" where
  "tried lib c tr 0 = tr"
| "tried lib c tr (Suc n) = (let t = tried lib c tr n in t @ [(c, lib t c)])"

definition nth_answer :: "media_lib \<Rightarrow> mpi_call \<Rightarrow> media_log \<Rightarrow> nat \<Rightarrow> int" where
  "nth_answer lib c tr n = lib (tried lib c tr n) c"

definition first_ok :: "media_lib \<Rightarrow> mpi_call \<Rightarrow> (int \<Rightarrow> bool) \<Rightarrow> media_log \<Rightarrow> nat \<Rightarrow> bool" where
  "first_ok lib c ok tr n \<longleftrightarrow> (\<forall>m < n. \<not> ok (nth_answer lib c tr m)) \<and> ok (nth_answer lib c tr n)"

lemma tried_shift: "tried lib c (tr @ [(c, lib tr c)]) n = tried lib c tr (Suc n)"
  by (induction n) (simp_all add: Let_def)

lemma nth_answer_shift: "nth_answer lib c (tr @ [(c, lib tr c)]) n = nth_answer lib c tr (Suc n)"
  by (simp only: nth_answer_def tried_shift)

lemma first_ok_0: "ok (lib tr c) \<Longrightarrow> first_ok lib c ok tr n \<longleftrightarrow> n = 0"
  by (auto simp: first_ok_def nth_answer_def)

lemma first_ok_Suc:
  assumes "\<not> ok (lib tr c)"
  shows "first_ok lib c ok tr (Suc n) \<longleftrightarrow> first_ok lib c ok (tr @ [(c, lib tr c)]) n" "\<not> first_ok lib c ok tr 0"
proof -
  have "nth_answer lib c tr 0 = lib tr c" by (simp add: nth_answer_def)
  then show "first_ok lib c ok tr (Suc n) \<longleftrightarrow> first_ok lib c ok (tr @ [(c, lib tr c)]) n" "\<not> first_ok lib c ok tr 0"
    using assms by (auto simp: first_ok_def nth_answer_shift less_Suc_eq_0_disj)
qed

lemma retry_first:
  assumes "first_ok lib c ok tr n"
  shows "retry lib c ok tr = Some (nth_answer lib c tr n, tried lib c tr (Suc n))"
  using assms
proof (induction n arbitrary: tr)
  case 0
  then have "ok (lib tr c)" by (simp add: first_ok_def nth_answer_def)
  then show ?case by (subst retry.simps) (simp add: nth_answer_def Let_def)
next
  case (Suc n)
  have no: "\<not> ok (lib tr c)" using Suc.prems by (force simp: first_ok_def nth_answer_def)
  have "retry lib c ok tr = retry lib c ok (tr @ [(c, lib tr c)])" using no by (subst retry.simps) (simp add: Let_def)
  also have "\<dots> = Some (nth_answer lib c tr (Suc n), tried lib c tr (Suc (Suc n)))"
    using Suc.IH[OF Suc.prems[unfolded first_ok_Suc(1)[where ok = ok and lib = lib and tr = tr and c = c, OF no]]] by (simp only: nth_answer_shift tried_shift)
  finally show ?case .
qed

lemma retry_ends:
  assumes "retry lib c ok tr = Some x"
  shows "\<exists>n. first_ok lib c ok tr n"
proof (rule retry.raw_induct[OF _ assms])
  fix again lib c ok tr x
  assume IH: "\<And>lib c ok tr x. again lib c ok tr = Some x \<Longrightarrow> \<exists>n. first_ok lib c ok tr n"
    and "(let r = lib tr c; tr = tr @ [(c, r)] in if ok r then Some (r, tr) else again lib c ok tr) = Some x"
  then show "\<exists>n. first_ok lib c ok tr n"
  proof (cases "ok (lib tr c)")
    case True
    then show ?thesis using first_ok_0 by blast
  next
    case False
    then have "again lib c ok (tr @ [(c, lib tr c)]) = Some x"
      using \<open>(let r = lib tr c; tr = tr @ [(c, r)] in if ok r then Some (r, tr) else again lib c ok tr) = Some x\<close>
      by (simp add: Let_def)
    then show ?thesis using IH first_ok_Suc(1)[where ok = ok and lib = lib and tr = tr and c = c, OF False] by blast
  qed
qed

lemma retry_iff:
  "retry lib c ok tr = Some (r, tr') \<longleftrightarrow>
     (\<exists>n. first_ok lib c ok tr n \<and> r = nth_answer lib c tr n \<and> tr' = tried lib c tr (Suc n))"
proof
  assume r: "retry lib c ok tr = Some (r, tr')"
  then obtain n where n: "first_ok lib c ok tr n" using retry_ends by blast
  then show "\<exists>n. first_ok lib c ok tr n \<and> r = nth_answer lib c tr n \<and> tr' = tried lib c tr (Suc n)"
    using r retry_first[OF n] by (intro exI[of _ n]) (simp del: tried.simps)
qed (use retry_first in blast)

text \<open>A call that is never answered well is repeated for ever.\<close>

lemma retry_diverges: "(\<And>n. \<not> ok (nth_answer lib c tr n)) \<Longrightarrow> retry lib c ok tr = None"
  using retry_ends[of lib c ok tr] by (cases "retry lib c ok tr") (auto simp: first_ok_def)

lemma run_ask [simp]: "run_state (ask_media lib c) tr = (lib tr c, tr @ [(c, lib tr c)])"
  by (simp add: ask_media_def)

definition logged :: "media_lib \<Rightarrow> mpi_call \<Rightarrow> media_log \<Rightarrow> media_log" where
  "logged lib c tr = tr @ [(c, lib tr c)]"

lemma send_stream_iff:
  "send_stream lib send pool sz tr = Some (ret, tr') \<longleftrightarrow>
     (\<exists>n k blk t1 t2. first_ok lib (MB (Mb_get pool sz)) (\<lambda>b. b \<noteq> 0) tr n \<and>
       blk = nth_answer lib (MB (Mb_get pool sz)) tr n \<and>
       t1 = logged lib (MB (Mb_flush blk)) (tried lib (MB (Mb_get pool sz)) tr (Suc n)) \<and>
       first_ok lib (send blk) (\<lambda>r. r = 0) t1 k \<and> t2 = tried lib (send blk) t1 (Suc k) \<and>
       ret = 0 \<and> tr' = logged lib (MB (Mb_release blk)) t2)"
proof -
  have zero: "nth_answer lib c t k = 0" if "first_ok lib c (\<lambda>r. r = 0) t k" for c t k
    using that by (simp add: first_ok_def)
  let ?get = "MB (Mb_get pool sz)"
  have "send_stream lib send pool sz tr = Some (ret, tr') \<longleftrightarrow>
      (\<exists>blk t t2. retry lib ?get (\<lambda>b. b \<noteq> 0) tr = Some (blk, t) \<and>
        retry lib (send blk) (\<lambda>r. r = 0) (logged lib (MB (Mb_flush blk)) t) = Some (ret, t2) \<and>
        tr' = logged lib (MB (Mb_release blk)) t2)"
    by (fastforce simp: send_stream_def logged_def Option.bind_eq_Some_conv Let_def)
  also have "\<dots> \<longleftrightarrow>
      (\<exists>n k blk t1 t2. first_ok lib ?get (\<lambda>b. b \<noteq> 0) tr n \<and> blk = nth_answer lib ?get tr n \<and>
        t1 = logged lib (MB (Mb_flush blk)) (tried lib ?get tr (Suc n)) \<and>
        first_ok lib (send blk) (\<lambda>r. r = 0) t1 k \<and> t2 = tried lib (send blk) t1 (Suc k) \<and>
        ret = nth_answer lib (send blk) t1 k \<and> tr' = logged lib (MB (Mb_release blk)) t2)"
    unfolding retry_iff by blast
  finally show ?thesis by (simp add: zero cong: conj_cong del: tried.simps)
qed

section \<open>What a failed set-up leaves\<close>

text \<open>
  The calls a computation adds to the history, and what it reports: \<open>ends m Q\<close> says that \<open>Q\<close> holds of the
  result and the calls of \<open>m\<close>.
\<close>

definition ends :: "'a media \<Rightarrow> ('a \<Rightarrow> media_log \<Rightarrow> bool) \<Rightarrow> bool" where
  "ends m Q \<longleftrightarrow> (\<forall>tr. \<exists>new. snd (run_state m tr) = tr @ new \<and> Q (fst (run_state m tr)) new)"

lemma ends_return [intro]: "Q x [] \<Longrightarrow> ends (State_Monad.return x) Q"
  by (simp add: ends_def)

lemma ends_ask [intro]: "(\<And>r. Q r [(c, r)]) \<Longrightarrow> ends (ask_media lib c) Q"
  by (simp add: ends_def)

lemma ends_bind:
  assumes "ends m (\<lambda>x new. ends (f x) (\<lambda>y more. Q y (new @ more)))"
  shows "ends (m \<bind> f) Q"
  unfolding ends_def
proof
  fix tr
  obtain new where m: "snd (run_state m tr) = tr @ new" "ends (f (fst (run_state m tr))) (\<lambda>y more. Q y (new @ more))"
    using assms unfolding ends_def by blast
  obtain more where "snd (run_state (f (fst (run_state m tr))) (tr @ new)) = (tr @ new) @ more"
    "Q (fst (run_state (f (fst (run_state m tr))) (tr @ new))) (new @ more)"
    using m(2) unfolding ends_def by blast
  then show "\<exists>new. snd (run_state (m \<bind> f) tr) = tr @ new \<and> Q (fst (run_state (m \<bind> f) tr)) new"
    using m(1) by (intro exI[of _ "new @ more"]) (simp add: State_Monad.bind_def split_beta)
qed

lemma ends_if: "(b \<Longrightarrow> ends m Q) \<Longrightarrow> (\<not> b \<Longrightarrow> ends n Q) \<Longrightarrow> ends (if b then m else n) Q"
  by simp

lemma ends_get: "(\<And>tr. ends (f tr) Q) \<Longrightarrow> ends (State_Monad.get \<bind> f) Q"
  by (auto simp: ends_def State_Monad.get_def State_Monad.bind_def)

text \<open>A call before the rest, and an optional one.\<close>

lemma ends_ask_bind:
  assumes "\<And>r. ends (f r) (\<lambda>y more. Q y ((c, r) # more))"
  shows "ends (ask_media lib c \<bind> f) Q"
  by (rule ends_bind) (use assms in auto)

lemma ends_opt_bind:
  assumes "b \<Longrightarrow> (\<And>r. ends (f r) (\<lambda>y more. Q y ((c, r) # more)))" and "\<not> b \<Longrightarrow> ends (f x) Q"
  shows "ends ((if b then ask_media lib c else State_Monad.return x) \<bind> f) Q"
  using assms by (cases b) (auto intro: ends_ask_bind)

lemmas ends_rules = ends_if ends_opt_bind ends_ask_bind ends_return ends_ask

text \<open>The result is what disabling the device answered, if it was disabled.\<close>

definition disable_decides :: "int \<Rightarrow> int \<Rightarrow> media_log \<Rightarrow> bool" where
  "disable_decides dev ret new \<longleftrightarrow> (\<forall>r. (VI (Vi_disable_dev dev), r) \<in> set new \<longrightarrow> ret = r)"

lemma vi_create_decides: "ends (SAMPLE_COMM_VI_CreateChn lib nc ctx) (disable_decides (vi_dev ctx))"
  unfolding SAMPLE_COMM_VI_CreateChn_def vi_channel_def vi_failed2_def must_def Let_def
  by (intro ends_rules) (auto simp: disable_decides_def)

text \<open>
  The scaler: a successful set-up has enabled just the channels with a size, in order, and no set-up
  destroys the group it created, also when it fails.
\<close>

definition enabled :: "media_log \<Rightarrow> int list" where
  "enabled tr = concat (map (\<lambda>(c, r). case c of VPSS (Vpss_enable g i) \<Rightarrow> [i] | _ \<Rightarrow> []) tr)"

lemma enabled_simps [simp]:
  "enabled [] = []" "enabled ((VPSS (Vpss_enable g i), r) # tr) = i # enabled tr"
  "(\<And>g i. c \<noteq> VPSS (Vpss_enable g i)) \<Longrightarrow> enabled ((c, r) # tr) = enabled tr"
  by (auto simp: enabled_def split: mpi_call.splits vpss_call.splits)

definition set_up :: "int list \<Rightarrow> int \<times> vpss_ctx \<Rightarrow> media_log \<Rightarrow> bool" where
  "set_up is x new \<longleftrightarrow> (fst x = 0 \<longrightarrow> enabled new = is) \<and> (\<forall>g r. (VPSS (Vpss_destroy_grp g), r) \<notin> set new)"

lemma in_use_upd [simp]:
  "j \<noteq> i \<Longrightarrow> in_use (ctx\<lparr>chn_size := (chn_size ctx)(i := v)\<rparr>) j = in_use ctx j"
  by (simp add: in_use_def)

lemma vpss_channels_set_up:
  assumes "\<And>ctx. ends (k ctx) (set_up [])" and "distinct is"
  shows "ends (vpss_channels lib ans k is ctx) (set_up (map int (filter (in_use ctx) is)))"
  using assms(2)
proof (induction "is" arbitrary: ctx)
  case (Cons i "is")
  have same: "filter (in_use (ctx\<lparr>chn_size := (chn_size ctx)(i := v)\<rparr>)) is = filter (in_use ctx) is" for v
    using Cons.prems by (intro filter_cong refl in_use_upd) auto
  have rest: "ends (vpss_channels lib ans k is (ctx\<lparr>chn_size := (chn_size ctx)(i := v)\<rparr>)) (set_up (map int (filter (in_use ctx) is)))" for v
    using Cons.IH[of "ctx\<lparr>chn_size := (chn_size ctx)(i := v)\<rparr>"] Cons.prems same by simp
  have weaken: "ends m Q'" if "ends m Q" "\<And>x new. Q x new \<Longrightarrow> Q' x new" for m :: "(int \<times> vpss_ctx) media" and Q Q'
    using that unfolding ends_def by blast
  show ?case
  proof (cases "in_use ctx i")
    case True
    then show ?thesis
      unfolding vpss_channels.simps vpss_channel_def vpss_must_def Let_def
      by (auto intro!: ends_rules ends_get weaken[OF rest] simp: set_up_def)
  qed (use Cons in simp)
qed (simp add: assms(1))

lemma vpss_create_ends:
  "ends (SAMPLE_COMM_VPSS_CreateChn lib ans ctx) (set_up (map int (filter (in_use ctx) [0..<VPSS_MAX_CHN_NUM])))"
proof -
  let ?go = "vpss_channels lib ans (\<lambda>ctx'. vpss_must lib (VPSS (Vpss_start_grp (grp ctx))) ctx' (State_Monad.return (0, ctx'))) [0..<VPSS_MAX_CHN_NUM] ctx"
  let ?is = "map int (filter (in_use ctx) [0..<VPSS_MAX_CHN_NUM])"
  have go: "ends ?go (set_up ?is)"
    by (rule vpss_channels_set_up) (auto simp: vpss_must_def set_up_def intro!: ends_rules)
  have weaken: "ends ?go Q" if "\<And>x new. set_up ?is x new \<Longrightarrow> Q x new" for Q
    using go that unfolding ends_def by blast
  show ?thesis
    unfolding SAMPLE_COMM_VPSS_CreateChn_def vpss_must_def[of _ "VPSS (Vpss_create_grp _)"] vpss_must_def[of _ "VPSS (Vpss_set_proc_dev _)"]
      vpss_must_def[of _ "VPSS (Vpss_get_proc_dev _)"] vpss_must_def[of _ "VPSS (Vpss_reset_grp _)"] vpss_must_def[of _ "VPSS (Vpss_set_grp_crop _)"]
      vpss_must_def[of _ "VPSS (Vpss_get_grp_crop _)"] Let_def
    by (auto intro!: ends_rules weaken simp: set_up_def)
qed

text \<open>The encoder: a packet is freed once; destroying the channel a second time frees it again.\<close>

lemma venc_destroy_twice:
  assumes "pstPack ctx \<noteq> 0" and "distinct heap" and "\<And>tr. lib tr (VENC (Venc_stop (venc_chn ctx))) = 0"
    and "SAMPLE_COMM_VENC_DestroyChn lib ctx heap tr = Some (ret, heap', tr')"
  shows "ret = 0 \<and> SAMPLE_COMM_VENC_DestroyChn lib ctx heap' tr'' = None"
  using assms by (auto simp: SAMPLE_COMM_VENC_DestroyChn_def Let_def split: if_splits)

text \<open>A rate control that does not belong to the codec leaves the one of an earlier set-up in place.\<close>

lemma wrong_mode_keeps_rate:
  assumes "codec ctx = RK_CODEC_TYPE_H265" and "enRcMode ctx \<notin> {VENC_RC_MODE_H265CBR, VENC_RC_MODE_H265VBR}"
  shows "rc_rate (venc_attrs ctx) = rc_rate (stChnAttr ctx) \<and> rc_mode (venc_attrs ctx) = rc_mode (stChnAttr ctx)"
  using assms by (simp add: venc_attrs_def set_rate_def Let_def)

section \<open>Properties\<close>

text \<open>
  C36.  Sending a frame to the encoder: the call returns just when the pool gives a block at some try and
  the encoder accepts it at some later one; then it returns 0 after exactly these tries, the block is
  released, and the data the caller handed in has no part in it.
\<close>

theorem send_stream_returns:
  "SAMPLE_COMM_VENC_SendStream lib chn pool pdata w h sz tr = Some (ret, tr') \<longleftrightarrow>
     (\<exists>n k blk t1 t2. first_ok lib (MB (Mb_get pool sz)) (\<lambda>b. b \<noteq> 0) tr n \<and>
       blk = nth_answer lib (MB (Mb_get pool sz)) tr n \<and>
       t1 = logged lib (MB (Mb_flush blk)) (tried lib (MB (Mb_get pool sz)) tr (Suc n)) \<and>
       first_ok lib (VENC (Venc_send chn blk w h)) (\<lambda>r. r = 0) t1 k \<and> t2 = tried lib (VENC (Venc_send chn blk w h)) t1 (Suc k) \<and>
       ret = 0 \<and> tr' = logged lib (MB (Mb_release blk)) t2)"
  unfolding SAMPLE_COMM_VENC_SendStream_def by (rule send_stream_iff)



end
