(* ===== verification/Isp_Control.thy ===== *)
theory Isp_Control
  imports Prelude
begin

text \<open>
  \<^verbatim>\<open>common/isp3.x/sample_comm_isp.c\<close>: the wrappers \<open>main\<close> starts and stops the image signal processor
  with.  The engine library is a parameter \<open>aiq\<close> that answers each call from the history of the calls
  before it; a context is an address, 0 is \<open>NULL\<close>.  What the calls are given besides the context and
  the arguments of the wrapper (sensor names, attributes) is left out of the history.
\<close>

section \<open>State\<close>

definition MAX_AIQ_CTX :: int where "MAX_AIQ_CTX = 8"

datatype aiq_call =
    Enum_metas int | Pre_init | Sys_init
  | Set_mul_cam int | Prepare int int | Start int | Stop int | Deinit int
  | Get_exp int | Set_exp int "int option" | Set_mirror_flip int int int | Switch_scene int
  | Get_ldch int | Set_ldch int bool int
  | Group_create | Group_prepare int int | Group_start int | Group_stop int | Group_destroy int

type_synonym aiq_log = "(aiq_call \<times> int) list"

type_synonym aiq = "aiq_log \<Rightarrow> aiq_call \<Rightarrow> int"

record isp =
  g_aiq_ctx :: "int list"
  g_aiq_camgroup_ctx :: "int list"
  g_WDRMode :: "int list"
  g_sof_cnt :: int
  g_should_quit :: bool
  aiq_trace :: aiq_log

definition isp0 :: isp where
  "isp0 = \<lparr>g_aiq_ctx = replicate 8 0, g_aiq_camgroup_ctx = replicate 8 0, g_WDRMode = replicate 8 0,
     g_sof_cnt = 0, g_should_quit = False, aiq_trace = []\<rparr>"

definition call :: "aiq \<Rightarrow> aiq_call \<Rightarrow> isp \<Rightarrow> int \<times> isp" where
  "call lib c s = (lib (aiq_trace s) c, s\<lparr>aiq_trace := aiq_trace s @ [(c, lib (aiq_trace s) c)]\<rparr>)"

section \<open>The wrappers\<close>

definition SAMPLE_COMM_ISP_SofCb :: "isp \<Rightarrow> int \<times> isp" where
  "SAMPLE_COMM_ISP_SofCb s = (0, s\<lparr>g_sof_cnt := g_sof_cnt s + 1\<rparr>)"

definition SAMPLE_COMM_ISP_GetSofCnt :: "isp \<Rightarrow> int" where
  "SAMPLE_COMM_ISP_GetSofCnt s = g_sof_cnt s"

text \<open>\<open>bypass\<close> is \<open>err_code == XCAM_RETURN_BYPASS\<close>; the function returns no value.\<close>

definition SAMPLE_COMM_ISP_ErrCb :: "bool \<Rightarrow> isp \<Rightarrow> isp" where
  "SAMPLE_COMM_ISP_ErrCb bypass s = (if bypass then s\<lparr>g_should_quit := True\<rparr> else s)"

definition SAMPLE_COMM_ISP_ShouldQuit :: "isp \<Rightarrow> bool" where
  "SAMPLE_COMM_ISP_ShouldQuit s = g_should_quit s"

text \<open>\<open>has_dir\<close> says that \<open>iq_file_dir\<close> is not null.\<close>

definition SAMPLE_COMM_ISP_Init :: "aiq \<Rightarrow> int \<Rightarrow> int \<Rightarrow> bool \<Rightarrow> bool \<Rightarrow> isp \<Rightarrow> (int \<times> isp) option" where
  "SAMPLE_COMM_ISP_Init lib CamId WDRMode MultiCam has_dir s =
     (if CamId \<ge> MAX_AIQ_CTX then Some (-1, s)
      else if \<not> has_dir then do {
        ctxs \<leftarrow> wr (g_aiq_ctx s) CamId 0;
        Some (0, s\<lparr>g_aiq_ctx := ctxs\<rparr>)
      }
      else do {
        modes \<leftarrow> wr (g_WDRMode s) CamId WDRMode;
        let s = s\<lparr>g_WDRMode := modes\<rparr>;
        let (_, s) = call lib (Enum_metas CamId) s;
        let (_, s) = call lib Pre_init s;
        let (aiq_ctx, s) = call lib Sys_init s;
        let s = (if MultiCam then snd (call lib (Set_mul_cam aiq_ctx) s) else s);
        ctxs \<leftarrow> wr (g_aiq_ctx s) CamId aiq_ctx;
        Some (0, s\<lparr>g_aiq_ctx := ctxs\<rparr>)
      })"

text \<open>The text printed when the number is refused reads the table at that number.\<close>

definition SAMPLE_COMM_ISP_Stop :: "aiq \<Rightarrow> int \<Rightarrow> isp \<Rightarrow> (int \<times> isp) option" where
  "SAMPLE_COMM_ISP_Stop lib CamId s =
     do {
       ctx \<leftarrow> rd (g_aiq_ctx s) CamId;
       if CamId \<ge> MAX_AIQ_CTX \<or> ctx = 0 then Some (-1, s)
       else do {
         let (_, s) = call lib (Stop ctx) s;
         let (_, s) = call lib (Deinit ctx) s;
         ctxs \<leftarrow> wr (g_aiq_ctx s) CamId 0;
         Some (0, s\<lparr>g_aiq_ctx := ctxs\<rparr>)
       }
     }"

text \<open>The guard the other wrappers share; \<open>run\<close> continues with the context.\<close>

definition with_ctx :: "int list \<Rightarrow> int \<Rightarrow> isp \<Rightarrow> (int \<Rightarrow> (int \<times> isp) option) \<Rightarrow> (int \<times> isp) option" where
  "with_ctx ctxs CamId s run =
     (if CamId \<ge> MAX_AIQ_CTX then Some (-1, s)
      else do { ctx \<leftarrow> rd ctxs CamId; if ctx = 0 then Some (-1, s) else run ctx })"

definition SAMPLE_COMM_ISP_Run :: "aiq \<Rightarrow> int \<Rightarrow> isp \<Rightarrow> (int \<times> isp) option" where
  "SAMPLE_COMM_ISP_Run lib CamId s =
     with_ctx (g_aiq_ctx s) CamId s (\<lambda>ctx. do {
       mode \<leftarrow> rd (g_WDRMode s) CamId;
       let (ret, s) = call lib (Prepare ctx mode) s;
       if ret \<noteq> 0 then do {
         ctxs \<leftarrow> wr (g_aiq_ctx s) CamId 0;
         Some (-1, s\<lparr>g_aiq_ctx := ctxs\<rparr>)
       }
       else do {
         let (ret, s) = call lib (Start ctx) s;
         Some (if ret \<noteq> 0 then -1 else 0, s)
       }
     })"

definition SAMPLE_COMM_ISP_SetFrameRate :: "aiq \<Rightarrow> int \<Rightarrow> int \<Rightarrow> isp \<Rightarrow> (int \<times> isp) option" where
  "SAMPLE_COMM_ISP_SetFrameRate lib CamId uFps s =
     with_ctx (g_aiq_ctx s) CamId s (\<lambda>ctx.
       let (_, s) = call lib (Get_exp ctx) s
       in Some (call lib (Set_exp ctx (if uFps = 0 then None else Some uFps)) s))"

definition SAMPLE_COMM_ISP_SetMirrorFlip :: "aiq \<Rightarrow> int \<Rightarrow> int \<Rightarrow> int \<Rightarrow> isp \<Rightarrow> (int \<times> isp) option" where
  "SAMPLE_COMM_ISP_SetMirrorFlip lib CamId mirror flip s =
     with_ctx (g_aiq_ctx s) CamId s (\<lambda>ctx. Some (call lib (Set_mirror_flip ctx mirror flip) s))"

definition SAMPLE_comm_ISP_SWITCH_SCENE :: "aiq \<Rightarrow> int \<Rightarrow> isp \<Rightarrow> (int \<times> isp) option" where
  "SAMPLE_comm_ISP_SWITCH_SCENE lib CamId s =
     with_ctx (g_aiq_ctx s) CamId s (\<lambda>ctx. Some (call lib (Switch_scene ctx) s))"

definition SAMPLE_COMM_ISP_SetLDCH :: "aiq \<Rightarrow> int \<Rightarrow> int \<Rightarrow> bool \<Rightarrow> isp \<Rightarrow> (int \<times> isp) option" where
  "SAMPLE_COMM_ISP_SetLDCH lib CamId u32Level bIfEnable s =
     with_ctx (g_aiq_ctx s) CamId s (\<lambda>ctx.
       let (ret, s) = call lib (Get_ldch ctx) s
       in if ret \<noteq> 0 then Some (ret, s) else Some (call lib (Set_ldch ctx bIfEnable u32Level) s))"

text \<open>One entry of the name table of eight for each sensor of the group.\<close>

definition enum_sensors :: "aiq \<Rightarrow> int \<Rightarrow> isp \<Rightarrow> (int list \<times> isp) option" where
  "enum_sensors lib sns_num s =
     for_up (\<lambda>i x. map_option Nxt (case x of (sensor_name_array, s) \<Rightarrow> do {
       let (_, s) = call lib (Enum_metas i) s;
       names \<leftarrow> wr sensor_name_array i i;
       Some (names, s)
     })) 0 sns_num (replicate (nat MAX_AIQ_CTX) 0, s)"

definition SAMPLE_COMM_ISP_CamGroup_Init :: "aiq \<Rightarrow> int \<Rightarrow> int \<Rightarrow> int \<Rightarrow> isp \<Rightarrow> (int \<times> isp) option" where
  "SAMPLE_COMM_ISP_CamGroup_Init lib CamGroupId WDRMode sns_num s =
     (if CamGroupId \<ge> MAX_AIQ_CTX then Some (-1, s)
      else do {
        (_, s) \<leftarrow> enum_sensors lib sns_num s;
        let (g, s) = call lib Group_create s;
        groups \<leftarrow> wr (g_aiq_camgroup_ctx s) CamGroupId g;
        let s = s\<lparr>g_aiq_camgroup_ctx := groups\<rparr>;
        if g = 0 then Some (-1, s)
        else do {
          let (ret, s) = call lib (Group_prepare g WDRMode) s;
          let (ret2, s) = call lib (Group_start g) s;
          Some (or ret ret2, s)
        }
      })"

definition SAMPLE_COMM_ISP_CamGroup_Stop :: "aiq \<Rightarrow> int \<Rightarrow> isp \<Rightarrow> (int \<times> isp) option" where
  "SAMPLE_COMM_ISP_CamGroup_Stop lib CamGroupId s =
     with_ctx (g_aiq_camgroup_ctx s) CamGroupId s (\<lambda>g. do {
       let (_, s) = call lib (Group_stop g) s;
       let (_, s) = call lib (Group_destroy g) s;
       groups \<leftarrow> wr (g_aiq_camgroup_ctx s) CamGroupId 0;
       Some (0, s\<lparr>g_aiq_camgroup_ctx := groups\<rparr>)
     })"

section \<open>The contract of the engine\<close>

text \<open>
  Handles of engine contexts and of camera groups.  A history is proper when every call that is given a
  handle is given one that was created before and not destroyed since.
\<close>

datatype handle = Ctx int | Grp int

fun given :: "aiq_call \<Rightarrow> handle option" where
  "given (Set_mul_cam c) = Some (Ctx c)"
| "given (Prepare c m) = Some (Ctx c)"
| "given (Start c) = Some (Ctx c)"
| "given (Stop c) = Some (Ctx c)"
| "given (Deinit c) = Some (Ctx c)"
| "given (Get_exp c) = Some (Ctx c)"
| "given (Set_exp c f) = Some (Ctx c)"
| "given (Set_mirror_flip c m f) = Some (Ctx c)"
| "given (Switch_scene c) = Some (Ctx c)"
| "given (Get_ldch c) = Some (Ctx c)"
| "given (Set_ldch c b l) = Some (Ctx c)"
| "given (Group_prepare g m) = Some (Grp g)"
| "given (Group_start g) = Some (Grp g)"
| "given (Group_stop g) = Some (Grp g)"
| "given (Group_destroy g) = Some (Grp g)"
| "given _ = None"

fun live_after :: "aiq_call \<Rightarrow> int \<Rightarrow> handle set \<Rightarrow> handle set" where
  "live_after Sys_init r L = (if r = 0 then L else insert (Ctx r) L)"
| "live_after Group_create r L = (if r = 0 then L else insert (Grp r) L)"
| "live_after (Deinit c) r L = L - {Ctx c}"
| "live_after (Group_destroy g) r L = L - {Grp g}"
| "live_after _ r L = L"

definition live :: "aiq_log \<Rightarrow> handle set" where
  "live tr = fold (\<lambda>(c, r). live_after c r) tr {}"

fun proper_rev :: "aiq_log \<Rightarrow> bool" where
  "proper_rev [] = True"
| "proper_rev ((c, r) # tr) = (proper_rev tr \<and> (case given c of None \<Rightarrow> True | Some h \<Rightarrow> h \<in> live (rev tr)))"

definition proper :: "aiq_log \<Rightarrow> bool" where
  "proper tr = proper_rev (rev tr)"

lemma live_snoc [simp]: "live (tr @ [(c, r)]) = live_after c r (live tr)"
  by (simp add: live_def)

lemma proper_snoc [simp]: "proper (tr @ [(c, r)]) \<longleftrightarrow> proper tr \<and> (\<forall>h. given c = Some h \<longrightarrow> h \<in> live tr)"
  by (auto simp: proper_def split: option.split)

lemma proper_nil [simp]: "proper []" "live [] = {}"
  by (simp_all add: proper_def live_def)

text \<open>The engine gives a context, and a group if it gives one, that is not in use.\<close>

definition engine_ok :: "aiq \<Rightarrow> bool" where
  "engine_ok lib \<longleftrightarrow> (\<forall>tr. lib tr Sys_init \<noteq> 0 \<and> Ctx (lib tr Sys_init) \<notin> live tr \<and>
     (lib tr Group_create \<noteq> 0 \<longrightarrow> Grp (lib tr Group_create) \<notin> live tr))"

section \<open>The tables\<close>

text \<open>A table of handles: the entries that are not null are live and no two of them are the same.\<close>

definition table_ok :: "(int \<Rightarrow> handle) \<Rightarrow> handle set \<Rightarrow> int list \<Rightarrow> bool" where
  "table_ok H L xs \<longleftrightarrow> length xs = 8 \<and> (\<forall>i < 8. xs ! i \<noteq> 0 \<longrightarrow> H (xs ! i) \<in> L) \<and>
     (\<forall>i < 8. \<forall>j < 8. i \<noteq> j \<longrightarrow> xs ! i \<noteq> 0 \<longrightarrow> xs ! i \<noteq> xs ! j)"

lemma table_ok_more: "table_ok H L xs \<Longrightarrow> table_ok H (insert h L) xs"
  by (auto simp: table_ok_def)

lemma table_ok_other: "table_ok H L xs \<Longrightarrow> (\<And>x. H x \<noteq> h) \<Longrightarrow> table_ok H (L - {h}) xs"
  by (auto simp: table_ok_def)

lemma table_ok_clear: "table_ok H L xs \<Longrightarrow> i < 8 \<Longrightarrow> table_ok H L (xs[i := 0])"
  by (auto simp: table_ok_def nth_list_update)

lemma table_ok_drop:
  assumes "table_ok H L xs" and "i < 8" and "inj H"
  shows "table_ok H (L - {H (xs ! i)}) (xs[i := 0])"
  using assms by (auto simp: table_ok_def nth_list_update inj_eq)

lemma table_ok_add:
  assumes "table_ok H L xs" and "H x \<notin> L" and "i < 8"
  shows "table_ok H (insert (H x) L) (xs[i := x])"
  using assms by (auto simp: table_ok_def nth_list_update)

lemma handle_tables:
  "table_ok Ctx L xs \<Longrightarrow> table_ok Ctx (L - {Grp g}) xs" "table_ok Grp L ys \<Longrightarrow> table_ok Grp (L - {Ctx c}) ys"
  "table_ok Ctx L xs \<Longrightarrow> i < 8 \<Longrightarrow> table_ok Ctx (L - {Ctx (xs ! i)}) (xs[i := 0])"
  "table_ok Grp L ys \<Longrightarrow> i < 8 \<Longrightarrow> table_ok Grp (L - {Grp (ys ! i)}) (ys[i := 0])"
  by (simp_all add: table_ok_other table_ok_drop inj_def)

definition isp_inv :: "isp \<Rightarrow> bool" where
  "isp_inv s \<longleftrightarrow> table_ok Ctx (live (aiq_trace s)) (g_aiq_ctx s) \<and>
     table_ok Grp (live (aiq_trace s)) (g_aiq_camgroup_ctx s) \<and> length (g_WDRMode s) = 8 \<and> proper (aiq_trace s)"

lemma isp_inv0: "isp_inv isp0"
  by (simp add: isp_inv_def isp0_def table_ok_def)

text \<open>A call that neither creates nor destroys keeps the invariant when its handle is live.\<close>

definition neutral :: "aiq_call \<Rightarrow> bool" where
  "neutral c \<longleftrightarrow> (\<forall>r L. live_after c r L = L)"

lemma neutral_simps [simp]:
  "neutral (Enum_metas i)" "neutral Pre_init" "neutral (Set_mul_cam c)" "neutral (Prepare c m)" "neutral (Start c)"
  "neutral (Stop c)" "neutral (Get_exp c)" "neutral (Set_exp c f)" "neutral (Set_mirror_flip c m l)"
  "neutral (Switch_scene c)" "neutral (Get_ldch c)" "neutral (Set_ldch c b u)" "neutral (Group_prepare g m)"
  "neutral (Group_start g)" "neutral (Group_stop g)"
  by (simp_all add: neutral_def)

lemma call_neutral:
  assumes "call lib c s = (r, s')" and "isp_inv s" and "neutral c" and "\<And>h. given c = Some h \<Longrightarrow> h \<in> live (aiq_trace s)"
  shows "isp_inv s'" and "live (aiq_trace s') = live (aiq_trace s)" and "g_aiq_ctx s' = g_aiq_ctx s"
    and "g_aiq_camgroup_ctx s' = g_aiq_camgroup_ctx s" and "g_WDRMode s' = g_WDRMode s"
  using assms by (auto simp: call_def isp_inv_def neutral_def)

section \<open>Sequences of operations\<close>

datatype isp_op =
    Op_init int int bool bool | Op_run int | Op_stop int | Op_frame_rate int int | Op_mirror int int int
  | Op_scene int | Op_ldch int int bool | Op_group_init int int int | Op_group_stop int | Op_sof | Op_err bool

fun isp_do :: "aiq \<Rightarrow> isp_op \<Rightarrow> isp \<Rightarrow> (int \<times> isp) option" where
  "isp_do lib (Op_init i m multi d) s = SAMPLE_COMM_ISP_Init lib i m multi d s"
| "isp_do lib (Op_run i) s = SAMPLE_COMM_ISP_Run lib i s"
| "isp_do lib (Op_stop i) s = SAMPLE_COMM_ISP_Stop lib i s"
| "isp_do lib (Op_frame_rate i f) s = SAMPLE_COMM_ISP_SetFrameRate lib i f s"
| "isp_do lib (Op_mirror i m f) s = SAMPLE_COMM_ISP_SetMirrorFlip lib i m f s"
| "isp_do lib (Op_scene i) s = SAMPLE_comm_ISP_SWITCH_SCENE lib i s"
| "isp_do lib (Op_ldch i l b) s = SAMPLE_COMM_ISP_SetLDCH lib i l b s"
| "isp_do lib (Op_group_init i m n) s = SAMPLE_COMM_ISP_CamGroup_Init lib i m n s"
| "isp_do lib (Op_group_stop i) s = SAMPLE_COMM_ISP_CamGroup_Stop lib i s"
| "isp_do lib Op_sof s = Some (SAMPLE_COMM_ISP_SofCb s)"
| "isp_do lib (Op_err b) s = Some (0, SAMPLE_COMM_ISP_ErrCb b s)"

text \<open>No number is negative, the one to stop is in the table, and a group has at most eight sensors.\<close>

fun op_ok :: "isp_op \<Rightarrow> bool" where
  "op_ok (Op_init i m multi d) = (0 \<le> i)"
| "op_ok (Op_run i) = (0 \<le> i)"
| "op_ok (Op_stop i) = (0 \<le> i \<and> i < 8)"
| "op_ok (Op_frame_rate i f) = (0 \<le> i)"
| "op_ok (Op_mirror i m f) = (0 \<le> i)"
| "op_ok (Op_scene i) = (0 \<le> i)"
| "op_ok (Op_ldch i l b) = (0 \<le> i)"
| "op_ok (Op_group_init i m n) = (0 \<le> i \<and> n \<le> 8)"
| "op_ok (Op_group_stop i) = (0 \<le> i)"
| "op_ok Op_sof = True"
| "op_ok (Op_err b) = True"

inductive isp_reachable :: "aiq \<Rightarrow> isp \<Rightarrow> bool" for lib where
  start: "isp_reachable lib isp0"
| step: "isp_reachable lib s \<Longrightarrow> op_ok op \<Longrightarrow> isp_do lib op s = Some (r, s') \<Longrightarrow> isp_reachable lib s'"

abbreviation keeps :: "(int \<times> isp) option \<Rightarrow> bool" where
  "keeps x \<equiv> \<exists>r s'. x = Some (r, s') \<and> isp_inv s'"

lemma table_lookup: "table_ok H L xs \<Longrightarrow> 0 \<le> i \<Longrightarrow> i < 8 \<Longrightarrow> rd xs i = Some (xs ! nat i)"
  by (simp add: table_ok_def rd_def)

lemma table_store: "length xs = 8 \<Longrightarrow> 0 \<le> i \<Longrightarrow> i < 8 \<Longrightarrow> wr xs i v = Some (xs[nat i := v])"
  by (simp add: wr_def)

lemma table_live: "table_ok H L xs \<Longrightarrow> i < 8 \<Longrightarrow> xs ! i \<noteq> 0 \<Longrightarrow> H (xs ! i) \<in> L"
  by (simp add: table_ok_def)

lemma with_ctx_keeps:
  assumes "isp_inv s" and "table_ok H (live (aiq_trace s)) ctxs" and "0 \<le> i"
    and "\<And>ctx. i < 8 \<Longrightarrow> ctx = ctxs ! nat i \<Longrightarrow> ctx \<noteq> 0 \<Longrightarrow> H ctx \<in> live (aiq_trace s) \<Longrightarrow> keeps (run ctx)"
  shows "keeps (with_ctx ctxs i s run)"
  using assms table_lookup[OF assms(2,3)] table_live[OF assms(2), of "nat i"]
  by (auto simp: with_ctx_def MAX_AIQ_CTX_def)

lemmas isp_simps = isp_inv_def call_def table_lookup table_store MAX_AIQ_CTX_def Let_def

lemma init_keeps:
  assumes "engine_ok lib" "isp_inv s" "0 \<le> i"
  shows "keeps (SAMPLE_COMM_ISP_Init lib i m multi d s)"
proof (cases "i < 8")
  case True
  then have n: "nat i < 8" by simp
  have len: "length (g_aiq_ctx s) = 8" "length (g_WDRMode s) = 8"
    using assms(2) by (simp_all add: isp_inv_def table_ok_def)
  let ?tr = "aiq_trace s @ [(Enum_metas i, lib (aiq_trace s) (Enum_metas i))]"
  let ?tr2 = "?tr @ [(Pre_init, lib ?tr Pre_init)]"
  have "lib ?tr2 Sys_init \<noteq> 0" "Ctx (lib ?tr2 Sys_init) \<notin> live ?tr2" using assms(1) unfolding engine_ok_def by blast+
  then show ?thesis
    using assms(2,3) True len n
    by (auto simp del: append_assoc simp: SAMPLE_COMM_ISP_Init_def isp_simps
        intro!: table_ok_clear table_ok_add intro: table_ok_more)
next
  case False
  then show ?thesis using assms(2) by (simp add: SAMPLE_COMM_ISP_Init_def MAX_AIQ_CTX_def)
qed

lemma run_keeps:
  assumes "isp_inv s" "0 \<le> i"
  shows "keeps (SAMPLE_COMM_ISP_Run lib i s)"
  unfolding SAMPLE_COMM_ISP_Run_def
proof (rule with_ctx_keeps[where H = Ctx, OF assms(1) _ assms(2)])
  show "table_ok Ctx (live (aiq_trace s)) (g_aiq_ctx s)" using assms(1) by (simp add: isp_inv_def)
  fix ctx assume *: "i < 8" "ctx = g_aiq_ctx s ! nat i" "ctx \<noteq> 0" "Ctx ctx \<in> live (aiq_trace s)"
  have "rd (g_WDRMode s) i = Some (g_WDRMode s ! nat i)" "length (g_aiq_ctx s) = 8"
    using assms * by (simp_all add: isp_inv_def rd_def table_ok_def)
  then show "keeps (do {
       mode \<leftarrow> rd (g_WDRMode s) i;
       let (ret, s) = call lib (Prepare ctx mode) s;
       if ret \<noteq> 0 then do {
         ctxs \<leftarrow> wr (g_aiq_ctx s) i 0;
         Some (-1, s\<lparr>g_aiq_ctx := ctxs\<rparr>)
       }
       else do {
         let (ret, s) = call lib (Start ctx) s;
         Some (if ret \<noteq> 0 then -1 else 0, s)
       }
     })"
    using assms * by (auto simp del: append_assoc simp: isp_simps intro: table_ok_clear)
qed

lemma stop_keeps:
  assumes "isp_inv s" "0 \<le> i" "i < 8"
  shows "keeps (SAMPLE_COMM_ISP_Stop lib i s)"
proof -
  have "length (g_aiq_ctx s) = 8" "nat i < 8" using assms by (simp_all add: isp_inv_def table_ok_def)
  then show ?thesis
    using assms table_live[of Ctx "live (aiq_trace s)" "g_aiq_ctx s" "nat i"]
    by (auto simp del: append_assoc simp: SAMPLE_COMM_ISP_Stop_def isp_simps handle_tables)
qed

lemma setters_keep:
  assumes "isp_inv s" "0 \<le> i"
  shows "keeps (SAMPLE_COMM_ISP_SetFrameRate lib i f s)" "keeps (SAMPLE_COMM_ISP_SetMirrorFlip lib i m l s)"
    "keeps (SAMPLE_comm_ISP_SWITCH_SCENE lib i s)" "keeps (SAMPLE_COMM_ISP_SetLDCH lib i u b s)"
proof -
  have "table_ok Ctx (live (aiq_trace s)) (g_aiq_ctx s)" using assms(1) by (simp add: isp_inv_def)
  note keeps = with_ctx_keeps[where H = Ctx, OF assms(1) this assms(2)]
  show "keeps (SAMPLE_COMM_ISP_SetFrameRate lib i f s)" "keeps (SAMPLE_COMM_ISP_SetMirrorFlip lib i m l s)"
    "keeps (SAMPLE_comm_ISP_SWITCH_SCENE lib i s)" "keeps (SAMPLE_COMM_ISP_SetLDCH lib i u b s)"
    unfolding SAMPLE_COMM_ISP_SetFrameRate_def SAMPLE_COMM_ISP_SetMirrorFlip_def SAMPLE_comm_ISP_SWITCH_SCENE_def
      SAMPLE_COMM_ISP_SetLDCH_def
    by (rule keeps; use assms in \<open>auto simp del: append_assoc simp: isp_simps\<close>)+
qed

lemma group_stop_keeps:
  assumes "isp_inv s" "0 \<le> i"
  shows "keeps (SAMPLE_COMM_ISP_CamGroup_Stop lib i s)"
  unfolding SAMPLE_COMM_ISP_CamGroup_Stop_def
proof (rule with_ctx_keeps[where H = Grp, OF assms(1) _ assms(2)])
  show "table_ok Grp (live (aiq_trace s)) (g_aiq_camgroup_ctx s)" using assms(1) by (simp add: isp_inv_def)
  fix g assume *: "i < 8" "g = g_aiq_camgroup_ctx s ! nat i" "g \<noteq> 0" "Grp g \<in> live (aiq_trace s)"
  have "length (g_aiq_camgroup_ctx s) = 8" "nat i < 8" using assms * by (simp_all add: isp_inv_def table_ok_def)
  then show "keeps (do {
       let (_, s) = call lib (Group_stop g) s;
       let (_, s) = call lib (Group_destroy g) s;
       groups \<leftarrow> wr (g_aiq_camgroup_ctx s) i 0;
       Some (0, s\<lparr>g_aiq_camgroup_ctx := groups\<rparr>)
     })"
    using assms * by (auto simp del: append_assoc simp: isp_simps handle_tables)
qed

lemma enum_sensors_keeps:
  assumes "isp_inv s" "n \<le> 8"
  obtains names s' where "enum_sensors lib n s = Some (names, s')" "isp_inv s'"
proof -
  let ?body = "\<lambda>k (names, s). do {
      let (_, s) = call lib (Enum_metas k) s;
      names \<leftarrow> wr names k k;
      Some (names, s)
    }"
  let ?P = "\<lambda>(names :: int list, s). length names = 8 \<and> isp_inv s"
  have "\<exists>x. for_up (\<lambda>k x. map_option Nxt (?body k x)) 0 n (replicate (nat MAX_AIQ_CTX) 0, s) = Some x \<and> ?P x"
    by (rule for_each_inv) (use assms in \<open>auto simp: isp_simps split: prod.splits\<close>)
  moreover have "enum_sensors lib n s = for_up (\<lambda>k x. map_option Nxt (?body k x)) 0 n (replicate (nat MAX_AIQ_CTX) 0, s)"
    by (simp only: enum_sensors_def)
  ultimately show ?thesis using that by auto
qed

lemma group_init_keeps:
  assumes "engine_ok lib" "isp_inv s" "0 \<le> i" "n \<le> 8"
  shows "keeps (SAMPLE_COMM_ISP_CamGroup_Init lib i m n s)"
proof (cases "i < 8")
  case True
  obtain names s1 where l: "enum_sensors lib n s = Some (names, s1)" "isp_inv s1"
    using enum_sensors_keeps[OF assms(2,4)] .
  have "length (g_aiq_camgroup_ctx s1) = 8" "nat i < 8" using l(2) True assms(3) by (simp_all add: isp_inv_def table_ok_def)
  then show ?thesis
    using l True assms(1,3) unfolding SAMPLE_COMM_ISP_CamGroup_Init_def
    by (auto simp del: append_assoc simp: isp_simps engine_ok_def
        intro!: table_ok_clear table_ok_add intro: table_ok_more)
next
  case False
  then show ?thesis using assms(2) by (simp add: SAMPLE_COMM_ISP_CamGroup_Init_def MAX_AIQ_CTX_def)
qed

lemma callbacks_keep: "isp_inv s \<Longrightarrow> \<exists>r s'. SAMPLE_COMM_ISP_SofCb s = (r, s') \<and> isp_inv s'" "isp_inv s \<Longrightarrow> isp_inv (SAMPLE_COMM_ISP_ErrCb b s)"
  by (simp_all add: SAMPLE_COMM_ISP_SofCb_def SAMPLE_COMM_ISP_ErrCb_def isp_inv_def)

lemma isp_do_keeps:
  assumes "engine_ok lib" and "isp_inv s" and "op_ok op"
  shows "keeps (isp_do lib op s)"
  using assms
  by (cases op) (simp_all add: init_keeps run_keeps stop_keeps setters_keep group_init_keeps group_stop_keeps callbacks_keep)

lemma isp_reachable_inv: "isp_reachable lib s \<Longrightarrow> engine_ok lib \<Longrightarrow> isp_inv s"
  by (induction rule: isp_reachable.induct) (use isp_inv0 isp_do_keeps in fastforce)+

section \<open>Properties\<close>


text \<open>An engine that numbers its contexts above all answers before, and has no groups.\<close>

definition counting_engine :: aiq where
  "counting_engine tr c = (case c of Sys_init \<Rightarrow> 1 + fold (\<lambda>(_, r) m. max m r) tr 0 | _ \<Rightarrow> 0)"

lemma counting_engine_ok: "engine_ok counting_engine"
proof -
  have pos: "0 \<le> fold (\<lambda>(_, r) m. max m r) tr (0 :: int)" for tr :: aiq_log
    by (induction tr rule: rev_induct) auto
  have le: "x \<le> fold (\<lambda>(_, r) m. max m r) tr 0" if "Ctx x \<in> live tr" for x and tr :: aiq_log
    using that
  proof (induction tr rule: rev_induct)
    case (snoc cr tr)
    obtain c r where "cr = (c, r)" by fastforce
    then show ?case using snoc by (cases c) (auto split: if_splits)
  qed simp
  show ?thesis
    unfolding engine_ok_def
  proof (intro allI)
    fix tr
    show "counting_engine tr Sys_init \<noteq> 0 \<and> Ctx (counting_engine tr Sys_init) \<notin> live tr \<and>
        (counting_engine tr Group_create \<noteq> 0 \<longrightarrow> Grp (counting_engine tr Group_create) \<notin> live tr)"
      using pos[of tr] le[of "1 + fold (\<lambda>(_, r) m. max m r) tr 0" tr] by (auto simp: counting_engine_def)
  qed
qed


section \<open>What is lost\<close>

text \<open>A context whose preparation failed is forgotten without being destroyed; so is one started twice.\<close>

lemma failed_prepare_leaks:
  assumes "isp_inv s" and "0 \<le> i" "i < 8" and "g_aiq_ctx s ! nat i \<noteq> 0"
    and "\<And>tr m. lib tr (Prepare (g_aiq_ctx s ! nat i) m) \<noteq> 0"
  shows "\<exists>s'. SAMPLE_COMM_ISP_Run lib i s = Some (-1, s') \<and> Ctx (g_aiq_ctx s ! nat i) \<in> live (aiq_trace s') \<and>
    g_aiq_ctx s ! nat i \<notin> set (g_aiq_ctx s')"
proof -
  let ?c = "g_aiq_ctx s ! nat i"
  have t: "table_ok Ctx (live (aiq_trace s)) (g_aiq_ctx s)" and n: "nat i < 8" and w: "length (g_WDRMode s) = 8"
    using assms(1,3) by (simp_all add: isp_inv_def)
  have len: "length (g_aiq_ctx s) = 8" using t by (simp add: table_ok_def)
  have "?c \<notin> set ((g_aiq_ctx s)[nat i := 0])"
  proof
    assume "?c \<in> set ((g_aiq_ctx s)[nat i := 0])"
    then obtain k where k: "k < 8" "(g_aiq_ctx s)[nat i := 0] ! k = ?c" using len by (auto simp: in_set_conv_nth)
    then have "k \<noteq> nat i" using assms(4) len by auto
    then have "g_aiq_ctx s ! k = ?c" using k(2) by simp
    then show False using t k(1) n assms(4) \<open>k \<noteq> nat i\<close> unfolding table_ok_def by metis
  qed
  then show ?thesis
    using assms t n w len table_live[OF t n assms(4)]
    by (simp add: SAMPLE_COMM_ISP_Run_def with_ctx_def call_def Let_def MAX_AIQ_CTX_def rd_def wr_def)
qed

text \<open>When the engine gives no context, the null pointer is passed on to the concurrency setting, and 0 is returned.\<close>

lemma init_passes_null:
  assumes "lib (aiq_trace s @ [(Enum_metas i, lib (aiq_trace s) (Enum_metas i)), (Pre_init, r)]) Sys_init = 0"
    and "r = lib (aiq_trace s @ [(Enum_metas i, lib (aiq_trace s) (Enum_metas i))]) Pre_init"
    and "0 \<le> i" "i < 8" "length (g_aiq_ctx s) = 8" "length (g_WDRMode s) = 8"
  shows "\<exists>s' q. SAMPLE_COMM_ISP_Init lib i m True True s = Some (0, s') \<and> last (aiq_trace s') = (Set_mul_cam 0, q)"
  using assms by (simp add: SAMPLE_COMM_ISP_Init_def call_def Let_def MAX_AIQ_CTX_def wr_def)

text \<open>Stopping a camera whose number is too large reads the table behind its end, for the message.\<close>

lemma stop_beyond_table:
  assumes "length (g_aiq_ctx s) = 8" and "8 \<le> i"
  shows "SAMPLE_COMM_ISP_Stop lib i s = None"
  using assms by (simp add: SAMPLE_COMM_ISP_Stop_def rd_def)

end
